(* ===== verification/Atlas_Prelude.thy ===== *)
theory Atlas_Prelude
  imports Main "HOL-Library.Multiset" "HOL-Library.AList" "HOL-Library.Char_ord"
    "HOL-Library.List_Lexorder"
begin

text \<open>
  Shared vocabulary of the development: Go's error values, Go's map type and Go's sort package,
  with the generic lemmas every component uses.

  \<^item> A Go \<open>error\<close> is a value of \<open>go_error\<close>: a sentinel variable of the repository, a formatted
    error, one wrapped with \<open>%w\<close> under a prefix, or two wrapped together. \<open>errors_is\<close> is \<open>errors.Is\<close> for a sentinel.
  \<^item> A Go map is an association list with distinct keys. \<open>mget\<close> reads it, \<open>mput\<close> assigns,
    \<open>mdel\<close> deletes. The order of a \<open>range\<close> over a map is unspecified in Go: a loop whose result
    may depend on it takes the visited entries as an argument, a permutation of the map.
  \<^item> \<open>sort_slice\<close> is \<open>sort.SliceStable\<close> for a less-function; the locale \<open>weak_order\<close> states the
    contract such a function has and proves what the sort then guarantees.
\<close>

named_theorems store_defs \<open>definitions of the store operations\<close>
named_theorems inv_intros \<open>preservation of the well-formedness invariants\<close>

section \<open>Errors\<close>

datatype sentinel =
    ErrPostalCodeNotFound | ErrOrgNotFound | ErrRegionNotFound
  | ErrSubmissionNotFound | ErrSubmissionNotPending | ErrInvalidCursor | ErrPromotionDisabled
  | ErrBufferFull | ErrStopped
  | FsErrNotExist | SqlErrNoRows | ContextCanceled | DeadlineExceeded

datatype go_error =
    Sentinel sentinel
  | Errorf string "string list"
  | FieldErrors "(string \<times> string) list"
  | Wrap string go_error
  | WrapBoth go_error string go_error

fun errors_is :: "go_error \<Rightarrow> sentinel \<Rightarrow> bool" where
  "errors_is (Sentinel s) t = (s = t)"
| "errors_is (Errorf f args) t = False"
| "errors_is (FieldErrors fs) t = False"
| "errors_is (Wrap p e) t = errors_is e t"
| "errors_is (WrapBoth e p e') t = (errors_is e t \<or> errors_is e' t)"

type_synonym 'a result = "go_error + 'a"

section \<open>Go maps\<close>

type_synonym ('k, 'v) gomap = "('k \<times> 'v) list"

definition mget :: "('k, 'v) gomap \<Rightarrow> 'k \<Rightarrow> 'v option" where
  "mget m k = map_of m k"

definition mput :: "'k \<Rightarrow> 'v \<Rightarrow> ('k, 'v) gomap \<Rightarrow> ('k, 'v) gomap" where
  "mput k v m = AList.update k v m"

definition mdel :: "'k \<Rightarrow> ('k, 'v) gomap \<Rightarrow> ('k, 'v) gomap" where
  "mdel k m = AList.delete k m"

definition mkeys :: "('k, 'v) gomap \<Rightarrow> 'k set" where
  "mkeys m = fst ` set m"

text \<open>\<open>m[k]\<close> on a map of slices: the nil slice for a missing key.\<close>

definition mget_list :: "('k, 'v list) gomap \<Rightarrow> 'k \<Rightarrow> 'v list" where
  "mget_list m k = (case mget m k of None \<Rightarrow> [] | Some vs \<Rightarrow> vs)"

definition wf_map :: "('k, 'v) gomap \<Rightarrow> bool" where
  "wf_map m \<longleftrightarrow> distinct (map fst m)"

text \<open>\<open>es\<close> lists the entries of \<open>m\<close> in some order: one possible \<open>range\<close> over \<open>m\<close>.\<close>

definition ranges_over :: "('k \<times> 'v) list \<Rightarrow> ('k, 'v) gomap \<Rightarrow> bool" where
  "ranges_over es m \<longleftrightarrow> mset es = mset m"

lemma mget_empty [simp]: "mget [] k = None"
  by (simp add: mget_def)

lemma mget_mput [simp]: "mget (mput k v m) k' = (if k = k' then Some v else mget m k')"
  by (simp add: mget_def mput_def update_conv')

lemma mget_mdel [simp]: "mget (mdel k m) k' = (if k = k' then None else mget m k')"
  by (simp add: mget_def mdel_def delete_conv')

lemma mget_Cons: "mget ((k, v) # m) k' = (if k' = k then Some v else mget m k')"
  by (simp add: mget_def)

lemma mget_list_empty [simp]: "mget_list [] k = []"
  by (simp add: mget_list_def)

lemma mget_list_mput [simp]:
  "mget_list (mput k v m) k' = (if k = k' then v else mget_list m k')"
  by (simp add: mget_list_def)

lemma wf_map_empty [simp, intro]: "wf_map []"
  by (simp add: wf_map_def)

lemma wf_map_mput [intro, simp]: "wf_map m \<Longrightarrow> wf_map (mput k v m)"
  by (simp add: wf_map_def mput_def distinct_update)

lemma wf_map_mdel [intro, simp]: "wf_map m \<Longrightarrow> wf_map (mdel k m)"
  by (simp add: wf_map_def mdel_def distinct_delete)

lemma mkeys_mput [simp]: "mkeys (mput k v m) = insert k (mkeys m)"
  by (auto simp: mkeys_def mput_def dom_update)

lemma mkeys_conv_dom: "mkeys m = dom (mget m)"
  by (simp add: mkeys_def mget_def [abs_def] dom_map_of_conv_image_fst)

lemma finite_mkeys [simp, intro]: "finite (mkeys m)"
  by (simp add: mkeys_def)

lemma mget_in_mkeys: "mget m k = Some v \<Longrightarrow> k \<in> mkeys m"
  by (auto simp: mkeys_conv_dom)

lemma mget_set: "mget m k = Some v \<Longrightarrow> (k, v) \<in> set m"
  by (simp add: mget_def map_of_SomeD)

lemma set_mget: "wf_map m \<Longrightarrow> (k, v) \<in> set m \<longleftrightarrow> mget m k = Some v"
  unfolding mget_def wf_map_def by (metis map_of_SomeD map_of_is_SomeI)

lemma ranges_over_set: "ranges_over es m \<Longrightarrow> set es = set m"
  unfolding ranges_over_def by (rule mset_eq_setD)

lemma ranges_over_wf: "ranges_over es m \<Longrightarrow> wf_map m \<Longrightarrow> wf_map es"
proof -
  assume "ranges_over es m" and wf: "wf_map m"
  then have "mset (map fst es) = mset (map fst m)"
    by (simp add: ranges_over_def)
  then have "distinct (map fst es) = distinct (map fst m)"
    by (rule mset_eq_imp_distinct_iff)
  with wf show ?thesis by (simp add: wf_map_def)
qed

lemma ranges_over_mget: "ranges_over es m \<Longrightarrow> wf_map m \<Longrightarrow> mget es = mget m"
  using map_of_inject_set [of es m]
  by (auto simp: mget_def [abs_def] wf_map_def ranges_over_set dest: ranges_over_wf)

lemma ranges_over_refl [simp, intro]: "ranges_over m m"
  by (simp add: ranges_over_def)

section \<open>sort.Slice and sort.SliceStable\<close>

text \<open>
  Insertion keeps an element in front of the ones it is not less than, so equal elements keep
  their order. \<open>sort.Slice\<close> may permute equal elements: the theorems about it speak only of
  orderedness and of the multiset, or have a less-function under which equal elements are equal.
\<close>

fun insert_by :: "('a \<Rightarrow> 'a \<Rightarrow> bool) \<Rightarrow> 'a \<Rightarrow> 'a list \<Rightarrow> 'a list" where
  "insert_by lt x [] = [x]"
| "insert_by lt x (y # ys) = (if lt y x then y # insert_by lt x ys else x # y # ys)"

fun sort_slice :: "('a \<Rightarrow> 'a \<Rightarrow> bool) \<Rightarrow> 'a list \<Rightarrow> 'a list" where
  "sort_slice lt [] = []"
| "sort_slice lt (x # xs) = insert_by lt x (sort_slice lt xs)"

lemma mset_insert_by [simp]: "mset (insert_by lt x xs) = add_mset x (mset xs)"
  by (induction xs) auto

lemma mset_sort_slice [simp]: "mset (sort_slice lt xs) = mset xs"
  by (induction xs) auto

lemma set_sort_slice [simp]: "set (sort_slice lt xs) = set xs"
  by (metis mset_sort_slice set_mset_mset)

lemma length_sort_slice [simp]: "length (sort_slice lt xs) = length xs"
  by (metis mset_sort_slice size_mset)

lemma distinct_sort_slice [simp]: "distinct (sort_slice lt xs) = distinct xs"
  by (rule mset_eq_imp_distinct_iff) simp

lemma set_insert_by [simp]: "set (insert_by lt x xs) = insert x (set xs)"
  by (induction xs) auto

lemma insert_by_map:
  "(\<And>y. lt (f y) (f x) = lt' y x) \<Longrightarrow> insert_by lt (f x) (map f ys) = map f (insert_by lt' x ys)"
  by (induction ys) auto

lemma sort_slice_map:
  "(\<And>x y. lt (f x) (f y) = lt' x y) \<Longrightarrow> sort_slice lt (map f xs) = map f (sort_slice lt' xs)"
  by (induction xs) (auto simp: insert_by_map)

text \<open>What a less-function of the sort package must be: a strict weak order.\<close>

locale weak_order =
  fixes lt :: "'a \<Rightarrow> 'a \<Rightarrow> bool"
  assumes asym: "lt x y \<Longrightarrow> \<not> lt y x"
    and neg_trans: "\<not> lt x y \<Longrightarrow> \<not> lt y z \<Longrightarrow> \<not> lt x z"
begin

abbreviation ordered :: "'a list \<Rightarrow> bool" where
  "ordered \<equiv> sorted_wrt (\<lambda>x y. \<not> lt y x)"

lemma ordered_insert_by: "ordered xs \<Longrightarrow> ordered (insert_by lt x xs)"
proof (induction xs)
  case (Cons y ys)
  show ?case
  proof (cases "lt y x")
    case True
    with Cons show ?thesis by (auto dest: asym)
  next
    case False
    have "\<not> lt z x" if "z \<in> set ys" for z
      using that Cons.prems False neg_trans [of z y x] by auto
    with False Cons.prems show ?thesis by auto
  qed
qed simp

lemma sort_ordered: "ordered (sort_slice lt xs)"
  by (induction xs) (auto intro: ordered_insert_by)

lemma sort_least: "y \<in> set xs \<Longrightarrow> \<not> lt y (hd (sort_slice lt xs))"
proof -
  assume y: "y \<in> set xs"
  then obtain z zs where "sort_slice lt xs = z # zs"
    by (metis set_sort_slice list.exhaust list.set_cases)
  with y sort_ordered [of xs] show ?thesis
    by (metis asym list.sel(1) set_ConsD set_sort_slice sorted_wrt.simps(2))
qed

text \<open>Elements equivalent to \<open>z\<close> keep their order.\<close>

lemma sort_stable:
  "filter (\<lambda>y. \<not> lt z y \<and> \<not> lt y z) (sort_slice lt xs) = filter (\<lambda>y. \<not> lt z y \<and> \<not> lt y z) xs"
proof -
  have ins: "filter P (insert_by lt x ys) = filter P (x # ys)"
    if "\<And>y. P y \<Longrightarrow> P x \<Longrightarrow> \<not> lt y x" for P x ys
    using that by (induction ys) auto
  show ?thesis
  proof (induction xs)
    case (Cons x xs)
    have "filter (\<lambda>y. \<not> lt z y \<and> \<not> lt y z) (insert_by lt x (sort_slice lt xs)) =
        filter (\<lambda>y. \<not> lt z y \<and> \<not> lt y z) (x # sort_slice lt xs)"
      by (rule ins) (metis neg_trans)
    with Cons show ?case by simp
  qed simp
qed

lemma insert_by_front: "\<forall>y\<in>set ys. \<not> lt y x \<Longrightarrow> insert_by lt x ys = x # ys"
  by (cases ys) auto

lemma filter_insert_by:
  "ordered ys \<Longrightarrow> filter Q (insert_by lt x ys) = (if Q x then insert_by lt x (filter Q ys) else filter Q ys)"
proof (induction ys)
  case (Cons y ys)
  show ?case
  proof (cases "lt y x")
    case True
    with Cons show ?thesis by simp
  next
    case False
    then have "\<forall>z\<in>set (filter Q (y # ys)). \<not> lt z x"
      using Cons.prems neg_trans [of _ y x] by auto
    then have "insert_by lt x (filter Q (y # ys)) = x # filter Q (y # ys)" by (rule insert_by_front)
    with False show ?thesis by simp
  qed
qed simp

text \<open>A WHERE before the ORDER BY or after it selects the same rows in the same order.\<close>

lemma sort_filter: "sort_slice lt (filter Q xs) = filter Q (sort_slice lt xs)"
  by (induction xs) (simp_all add: filter_insert_by sort_ordered)

lemma sort_id: "ordered xs \<Longrightarrow> sort_slice lt xs = xs"
  by (induction xs) (auto simp: insert_by_front)

end

text \<open>Less-functions under which incomparable elements are equal have one sorted arrangement.\<close>

locale total_weak_order = weak_order +
  assumes total: "\<not> lt x y \<Longrightarrow> \<not> lt y x \<Longrightarrow> x = y"
begin

lemma ordered_unique: "ordered xs \<Longrightarrow> ordered ys \<Longrightarrow> mset xs = mset ys \<Longrightarrow> xs = ys"
proof (induction xs arbitrary: ys)
  case (Cons x xs)
  then obtain y ys' where ys: "ys = y # ys'"
    by (cases ys) auto
  from Cons.prems(3) have eq: "set (x # xs) = set (y # ys')"
    unfolding ys by (metis set_mset_mset)
  have "x = y"
  proof (rule total)
    show "\<not> lt x y" using Cons.prems(2) eq asym unfolding ys
      by (metis list.set_intros(1) set_ConsD sorted_wrt.simps(2))
    show "\<not> lt y x" using Cons.prems(1) eq asym
      by (metis list.set_intros(1) set_ConsD sorted_wrt.simps(2))
  qed
  with Cons ys show ?case by auto
qed simp

lemma sort_perm: "mset xs = mset ys \<Longrightarrow> sort_slice lt xs = sort_slice lt ys"
  by (rule ordered_unique) (simp_all add: sort_ordered)

end

text \<open>Less-functions built from a key into a linear order, and lexicographic refinement.\<close>

lemma weak_order_key: "weak_order (\<lambda>x y. f x < (f y :: 'b::linorder))"
  by unfold_locales auto

lemma weak_order_key_desc: "weak_order (\<lambda>x y. f x > (f y :: 'b::linorder))"
  by unfold_locales auto

lemma weak_order_then:
  assumes "weak_order lt"
  shows "weak_order (\<lambda>x y. if f x \<noteq> f y then f x < (f y :: 'b::linorder) else lt x y)"
proof
  fix x y
  assume "if f x \<noteq> f y then f x < f y else lt x y"
  then show "\<not> (if f y \<noteq> f x then f y < f x else lt y x)"
    using weak_order.asym [OF assms, of x y] by (cases "f x = f y") auto
next
  fix x y z
  assume "\<not> (if f x \<noteq> f y then f x < f y else lt x y)"
    and "\<not> (if f y \<noteq> f z then f y < f z else lt y z)"
  then show "\<not> (if f x \<noteq> f z then f x < f z else lt x z)"
    using weak_order.neg_trans [OF assms, of x y z]
    by (cases "f x = f y"; cases "f y = f z") auto
qed

lemma weak_order_then_desc:
  assumes "weak_order lt"
  shows "weak_order (\<lambda>x y. if f x \<noteq> f y then f x > (f y :: 'b::linorder) else lt x y)"
proof
  fix x y
  assume "if f x \<noteq> f y then f y < f x else lt x y"
  then show "\<not> (if f y \<noteq> f x then f x < f y else lt y x)"
    using weak_order.asym [OF assms, of x y] by (cases "f x = f y") auto
next
  fix x y z
  assume "\<not> (if f x \<noteq> f y then f y < f x else lt x y)"
    and "\<not> (if f y \<noteq> f z then f z < f y else lt y z)"
  then show "\<not> (if f x \<noteq> f z then f z < f x else lt x z)"
    using weak_order.neg_trans [OF assms, of x y z]
    by (cases "f x = f y"; cases "f y = f z") auto
qed

section \<open>Lists and options\<close>

text \<open>A loop that appends the present entries of a lookup: Go's comma-ok idiom in a range.\<close>

fun collect :: "('a \<Rightarrow> 'b option) \<Rightarrow> 'a list \<Rightarrow> 'b list" where
  "collect f [] = []"
| "collect f (x # xs) = (case f x of None \<Rightarrow> collect f xs | Some y \<Rightarrow> y # collect f xs)"

lemma set_collect: "y \<in> set (collect f xs) \<longleftrightarrow> (\<exists>x\<in>set xs. f x = Some y)"
  by (induction xs) (auto split: option.splits)

lemma collect_append [simp]: "collect f (xs @ ys) = collect f xs @ collect f ys"
  by (induction xs) (auto split: option.splits)

lemma collect_Some [simp]: "(\<And>x. x \<in> set xs \<Longrightarrow> f x = Some (g x)) \<Longrightarrow> collect f xs = map g xs"
  by (induction xs) auto

lemma collect_Nil_iff: "collect f xs = [] \<longleftrightarrow> (\<forall>x\<in>set xs. f x = None)"
  by (induction xs) (auto split: option.splits)

lemma length_collect: "length (collect f xs) \<le> length xs"
  by (induction xs) (auto split: option.splits)

lemma map_collect:
  "(\<And>x y. x \<in> set xs \<Longrightarrow> f x = Some y \<Longrightarrow> g y = k x) \<Longrightarrow>
   map g (collect f xs) = map k (filter (\<lambda>x. f x \<noteq> None) xs)"
  by (induction xs) (auto split: option.splits)

lemma distinct_collect:
  assumes "distinct (map k xs)" and "\<And>x y. x \<in> set xs \<Longrightarrow> f x = Some y \<Longrightarrow> g y = k x"
  shows "distinct (map g (collect f xs))"
proof -
  have "map g (collect f xs) = map k (filter (\<lambda>x. f x \<noteq> None) xs)"
    by (rule map_collect) (rule assms(2))
  then show ?thesis using distinct_map_filter [OF assms(1)] by simp
qed

lemma distinct_map_sort_slice [simp]: "distinct (map g (sort_slice lt xs)) = distinct (map g xs)"
  by (rule mset_eq_imp_distinct_iff) simp

lemma sum_caseD:
  "(case r of Inl e \<Rightarrow> Inl (f e) | Inr a \<Rightarrow> g a) = Inr b \<Longrightarrow> \<exists>a. r = Inr a \<and> g a = Inr b"
  by (cases r) auto

section \<open>State machines\<close>

text \<open>
  The goroutines of a component as a step relation: what holds at the start and is kept by every step
  holds in every state that can be reached.
\<close>

locale transition_invariant =
  fixes step :: "'s \<Rightarrow> 's \<Rightarrow> bool"
    and init :: "'s \<Rightarrow> bool"
    and inv :: "'s \<Rightarrow> bool"
  assumes init_inv: "init s \<Longrightarrow> inv s"
    and step_inv: "inv s \<Longrightarrow> step s t \<Longrightarrow> inv t"
begin

lemma steps_inv: "step\<^sup>*\<^sup>* s t \<Longrightarrow> inv s \<Longrightarrow> inv t"
  by (induction rule: rtranclp_induct) (auto intro: step_inv)

lemma reachable_inv: "init s \<Longrightarrow> step\<^sup>*\<^sup>* s t \<Longrightarrow> inv t"
  using steps_inv init_inv by blast

end

end
