(* ===== verification/Go_Strings.thy ===== *)
theory Go_Strings
  imports Atlas_Prelude
begin

text \<open>
  The parts of Go's \<open>strings\<close>, \<open>unicode/utf8\<close> and \<open>unicode\<close> packages the program uses.

  A Go string is a sequence of bytes: \<open>string\<close>, whose \<open>char\<close>s are bytes. \<open>len\<close> is \<open>length\<close>,
  slicing is \<open>take\<close>/\<open>drop\<close>, and \<open><\<close> is the bytewise lexicographic order of
  \<open>HOL-Library.List_Lexorder\<close>. Ranging over a string decodes UTF-8: \<open>decode_rune\<close> is
  \<open>utf8.DecodeRuneInString\<close>, with U+FFFD and width 1 for an invalid encoding.

  \<open>unicode.ToLower\<close> and \<open>unicode.ToUpper\<close> are tables. Their ASCII part is written out; above
  ASCII they are the two fields of the parameter \<open>go_unicode\<close>, so that every theorem holds for
  the tables of any Unicode version.
\<close>

section \<open>Bytes and runes\<close>

type_synonym rune = nat

abbreviation byte :: "char \<Rightarrow> nat" where
  "byte c \<equiv> (of_char c :: nat)"

definition runeError :: rune where
  "runeError = 65533"

definition is_cont :: "nat \<Rightarrow> bool" where
  "is_cont b \<longleftrightarrow> 128 \<le> b \<and> b \<le> 191"

text \<open>The width and the rune of a multi-byte encoding, or \<open>(0xFFFD, 1)\<close>.\<close>

definition decode2 :: "nat \<Rightarrow> nat list \<Rightarrow> (rune \<times> nat) option" where
  "decode2 b0 bs = (case bs of b1 # _ \<Rightarrow>
     if 194 \<le> b0 \<and> b0 \<le> 223 \<and> is_cont b1 then Some ((b0 - 192) * 64 + (b1 - 128), 2) else None
   | [] \<Rightarrow> None)"

definition decode3 :: "nat \<Rightarrow> nat list \<Rightarrow> (rune \<times> nat) option" where
  "decode3 b0 bs = (case bs of b1 # b2 # _ \<Rightarrow>
     if 224 \<le> b0 \<and> b0 \<le> 239 \<and> is_cont b1 \<and> is_cont b2
        \<and> (b0 = 224 \<longrightarrow> 160 \<le> b1) \<and> (b0 = 237 \<longrightarrow> b1 \<le> 159)
     then Some ((b0 - 224) * 4096 + (b1 - 128) * 64 + (b2 - 128), 3) else None
   | _ \<Rightarrow> None)"

definition decode4 :: "nat \<Rightarrow> nat list \<Rightarrow> (rune \<times> nat) option" where
  "decode4 b0 bs = (case bs of b1 # b2 # b3 # _ \<Rightarrow>
     if 240 \<le> b0 \<and> b0 \<le> 244 \<and> is_cont b1 \<and> is_cont b2 \<and> is_cont b3
        \<and> (b0 = 240 \<longrightarrow> 144 \<le> b1) \<and> (b0 = 244 \<longrightarrow> b1 \<le> 143)
     then Some ((b0 - 240) * 262144 + (b1 - 128) * 4096 + (b2 - 128) * 64 + (b3 - 128), 4) else None
   | _ \<Rightarrow> None)"

definition decode_rune :: "nat \<Rightarrow> nat list \<Rightarrow> rune \<times> nat" where
  "decode_rune b0 bs =
     (if b0 < 128 then (b0, 1)
      else case decode2 b0 bs of Some r \<Rightarrow> r
      | None \<Rightarrow> (case decode3 b0 bs of Some r \<Rightarrow> r
        | None \<Rightarrow> (case decode4 b0 bs of Some r \<Rightarrow> r | None \<Rightarrow> (runeError, 1))))"

lemma decode_rune_width: "decode_rune b0 bs = (r, w) \<Longrightarrow> 1 \<le> w \<and> w \<le> Suc (length bs)"
  by (auto simp: decode_rune_def decode2_def decode3_def decode4_def
      split: if_splits option.splits list.splits)

lemma decode_rune_ascii [simp]: "b0 < 128 \<Longrightarrow> decode_rune b0 bs = (b0, 1)"
  by (simp add: decode_rune_def)

text \<open>\<open>utf8.EncodeRune\<close>; a rune out of range or a surrogate is encoded as U+FFFD.\<close>

definition encode_rune :: "rune \<Rightarrow> string" where
  "encode_rune r0 =
     (let r = (if 1114111 < r0 \<or> (55296 \<le> r0 \<and> r0 \<le> 57343) then runeError else r0)
      in map char_of
       (if r < 128 then [r]
        else if r < 2048 then [192 + r div 64, 128 + r mod 64]
        else if r < 65536 then [224 + r div 4096, 128 + r div 64 mod 64, 128 + r mod 64]
        else [240 + r div 262144, 128 + r div 4096 mod 64, 128 + r div 64 mod 64, 128 + r mod 64]))"

text \<open>
  \<open>for _, r := range s\<close>: the runes with the bytes each one was decoded from.
\<close>

function chunks :: "string \<Rightarrow> (rune \<times> string) list" where
  "chunks [] = []"
| "chunks (c # s) =
     (let (r, w) = decode_rune (byte c) (map byte s)
      in (r, c # take (w - 1) s) # chunks (drop (w - 1) s))"
  by pat_completeness auto
termination by (relation "measure length") auto

definition runes :: "string \<Rightarrow> rune list" where
  "runes s = map fst (chunks s)"

definition rune_count :: "string \<Rightarrow> nat" where
  "rune_count s = length (runes s)"

lemma chunks_concat: "concat (map snd (chunks s)) = s"
  by (induction s rule: chunks.induct) (auto simp: Let_def split: prod.splits)

definition is_ascii :: "string \<Rightarrow> bool" where
  "is_ascii s \<longleftrightarrow> (\<forall>c\<in>set s. byte c < 128)"

lemma is_ascii_simps [simp]:
  "is_ascii []" "is_ascii (c # s) \<longleftrightarrow> byte c < 128 \<and> is_ascii s"
  "is_ascii (s @ t) \<longleftrightarrow> is_ascii s \<and> is_ascii t"
  by (auto simp: is_ascii_def)

lemma chunks_ascii: "is_ascii s \<Longrightarrow> chunks s = map (\<lambda>c. (byte c, [c])) s"
  by (induction s) auto

lemma runes_ascii: "is_ascii s \<Longrightarrow> runes s = map byte s"
  by (simp add: runes_def chunks_ascii)

lemma rune_count_ascii: "is_ascii s \<Longrightarrow> rune_count s = length s"
  by (simp add: rune_count_def runes_ascii)

lemma rune_count_le: "rune_count s \<le> length s"
proof (induction s rule: chunks.induct)
  case (2 c s)
  obtain r w where rw: "decode_rune (byte c) (map byte s) = (r, w)" by fastforce
  from 2 [OF rw [symmetric] refl] have "rune_count (drop (w - 1) s) \<le> length (drop (w - 1) s)" by simp
  with rw show ?case by (simp add: rune_count_def runes_def)
qed (simp add: rune_count_def runes_def)

section \<open>Case mapping\<close>

record go_unicode =
  uc_lower :: "rune \<Rightarrow> rune"
  uc_upper :: "rune \<Rightarrow> rune"
  uc_print :: "rune \<Rightarrow> bool"
  uc_fold :: "rune \<Rightarrow> rune \<Rightarrow> bool"

definition rune_lower :: "go_unicode \<Rightarrow> rune \<Rightarrow> rune" where
  "rune_lower U r = (if r < 128 then (if 65 \<le> r \<and> r \<le> 90 then r + 32 else r) else uc_lower U r)"

definition rune_upper :: "go_unicode \<Rightarrow> rune \<Rightarrow> rune" where
  "rune_upper U r = (if r < 128 then (if 97 \<le> r \<and> r \<le> 122 then r - 32 else r) else uc_upper U r)"

definition byte_lower :: "char \<Rightarrow> char" where
  "byte_lower c = (if 65 \<le> byte c \<and> byte c \<le> 90 then char_of (byte c + 32) else c)"

definition byte_upper :: "char \<Rightarrow> char" where
  "byte_upper c = (if 97 \<le> byte c \<and> byte c \<le> 122 then char_of (byte c - 32) else c)"

text \<open>\<open>strings.Map\<close>\<close>

definition map_runes :: "(rune \<Rightarrow> rune) \<Rightarrow> string \<Rightarrow> string" where
  "map_runes f s = concat (map (encode_rune \<circ> f) (runes s))"

text \<open>\<open>strings.ToLower\<close> and \<open>strings.ToUpper\<close>: bytewise on ASCII, by rune otherwise.\<close>

definition to_lower :: "go_unicode \<Rightarrow> string \<Rightarrow> string" where
  "to_lower U s = (if is_ascii s then map byte_lower s else map_runes (rune_lower U) s)"

definition to_upper :: "go_unicode \<Rightarrow> string \<Rightarrow> string" where
  "to_upper U s = (if is_ascii s then map byte_upper s else map_runes (rune_upper U) s)"

lemma byte_lower_ascii [simp]: "byte (byte_lower c) < 128 \<longleftrightarrow> byte c < 128"
  by (auto simp: byte_lower_def)

lemma byte_upper_ascii [simp]: "byte (byte_upper c) < 128 \<longleftrightarrow> byte c < 128"
  by (auto simp: byte_upper_def)

lemma byte_lower_idem [simp]: "byte_lower (byte_lower c) = byte_lower c"
  by (auto simp: byte_lower_def)

lemma byte_upper_idem [simp]: "byte_upper (byte_upper c) = byte_upper c"
  by (auto simp: byte_upper_def)

lemma is_ascii_map_lower [simp]: "is_ascii (map byte_lower s) = is_ascii s"
  by (simp add: is_ascii_def)

lemma is_ascii_map_upper [simp]: "is_ascii (map byte_upper s) = is_ascii s"
  by (simp add: is_ascii_def)

lemma to_lower_ascii: "is_ascii s \<Longrightarrow> to_lower U s = map byte_lower s"
  by (simp add: to_lower_def)

lemma to_upper_ascii: "is_ascii s \<Longrightarrow> to_upper U s = map byte_upper s"
  by (simp add: to_upper_def)

lemma to_lower_id: "list_all (\<lambda>c. byte c < 128 \<and> \<not> (65 \<le> byte c \<and> byte c \<le> 90)) s \<Longrightarrow> to_lower U s = s"
proof -
  assume low: "list_all (\<lambda>c. byte c < 128 \<and> \<not> (65 \<le> byte c \<and> byte c \<le> 90)) s"
  then have "is_ascii s" by (auto simp: is_ascii_def list_all_iff)
  moreover from low have "map byte_lower s = s"
    by (induction s) (auto simp: byte_lower_def)
  ultimately show ?thesis by (simp add: to_lower_ascii)
qed

lemma to_lower_Nil [simp]: "to_lower U [] = []"
  by (simp add: to_lower_def)

lemma to_upper_Nil [simp]: "to_upper U [] = []"
  by (simp add: to_upper_def)

lemma to_lower_idem_ascii: "is_ascii s \<Longrightarrow> to_lower U (to_lower U s) = to_lower U s"
  by (simp add: to_lower_ascii)

lemma to_upper_idem_ascii: "is_ascii s \<Longrightarrow> to_upper U (to_upper U s) = to_upper U s"
  by (simp add: to_upper_ascii)

section \<open>Searching and trimming\<close>

fun has_prefix :: "string \<Rightarrow> string \<Rightarrow> bool" where
  "has_prefix s [] = True"
| "has_prefix [] (p # ps) = False"
| "has_prefix (c # s) (p # ps) = (c = p \<and> has_prefix s ps)"

definition has_suffix :: "string \<Rightarrow> string \<Rightarrow> bool" where
  "has_suffix s p = has_prefix (rev s) (rev p)"

fun contains :: "string \<Rightarrow> string \<Rightarrow> bool" where
  "contains [] p = (p = [])"
| "contains (c # s) p = (has_prefix (c # s) p \<or> contains s p)"

lemma has_prefix_iff: "has_prefix s p \<longleftrightarrow> (\<exists>t. s = p @ t)"
  by (induction s p rule: has_prefix.induct) auto

lemma has_suffix_iff: "has_suffix s p \<longleftrightarrow> (\<exists>t. s = t @ p)"
proof
  assume "has_suffix s p"
  then obtain t where "rev s = rev p @ t" by (auto simp: has_suffix_def has_prefix_iff)
  then have "s = rev t @ p" by (metis rev_append rev_rev_ident)
  then show "\<exists>t. s = t @ p" by blast
next
  assume "\<exists>t. s = t @ p"
  then show "has_suffix s p" by (auto simp: has_suffix_def has_prefix_iff)
qed

lemma contains_iff: "contains s p \<longleftrightarrow> (\<exists>a b. s = a @ p @ b)"
proof (induction s)
  case (Cons c s)
  show ?case
  proof
    assume "contains (c # s) p"
    then consider "has_prefix (c # s) p" | "contains s p" by auto
    then show "\<exists>a b. c # s = a @ p @ b"
    proof cases
      case 1
      then show ?thesis by (metis append_Nil has_prefix_iff)
    next
      case 2
      then show ?thesis using Cons.IH by (metis append_Cons)
    qed
  next
    assume "\<exists>a b. c # s = a @ p @ b"
    then obtain a b where "c # s = a @ p @ b" by blast
    then have "has_prefix (c # s) p \<or> (\<exists>a b. s = a @ p @ b)"
      by (cases a) (auto simp: has_prefix_iff)
    then show "contains (c # s) p"
      using Cons.IH by auto
  qed
qed auto

text \<open>
  \<open>unicode.IsSpace\<close> in UTF-8: the six ASCII spaces and the encodings of U+0085, U+00A0, U+1680,
  U+2000 to U+200A, U+2028, U+2029, U+202F, U+205F and U+3000. A string starts (ends) with a
  space rune exactly when it starts (ends) with one of these byte sequences.
\<close>

definition ascii_spaces :: "nat list" where
  "ascii_spaces = [9, 10, 11, 12, 13, 32]"

definition space_runes :: "rune list" where
  "space_runes = ascii_spaces @ [133, 160, 5760, 8192, 8193, 8194, 8195, 8196, 8197, 8198, 8199,
     8200, 8201, 8202, 8232, 8233, 8239, 8287, 12288]"

definition is_space :: "rune \<Rightarrow> bool" where
  "is_space r \<longleftrightarrow> r \<in> set space_runes"

definition space_seqs :: "string list" where
  "space_seqs = map encode_rune space_runes"

fun strip_prefix :: "string list \<Rightarrow> string \<Rightarrow> string option" where
  "strip_prefix [] s = None"
| "strip_prefix (p # ps) s = (if p \<noteq> [] \<and> has_prefix s p then Some (drop (length p) s) else strip_prefix ps s)"

lemma strip_prefix_shorter: "strip_prefix ps s = Some t \<Longrightarrow> length t < length s"
  by (induction ps) (auto simp: has_prefix_iff split: if_splits)

function trim_left_seqs :: "string list \<Rightarrow> string \<Rightarrow> string" where
  "trim_left_seqs ps s = (case strip_prefix ps s of None \<Rightarrow> s | Some t \<Rightarrow> trim_left_seqs ps t)"
  by pat_completeness auto
termination by (relation "measure (\<lambda>(ps, s). length s)") (auto dest: strip_prefix_shorter)

declare trim_left_seqs.simps [simp del]

definition trim_space_left :: "string \<Rightarrow> string" where
  "trim_space_left s = trim_left_seqs space_seqs s"

definition trim_space_right :: "string \<Rightarrow> string" where
  "trim_space_right s = rev (trim_left_seqs (map rev space_seqs) (rev s))"

text \<open>\<open>strings.TrimSpace\<close>\<close>

definition trim_space :: "string \<Rightarrow> string" where
  "trim_space s = trim_space_right (trim_space_left s)"

lemma trim_left_seqs_id: "strip_prefix ps s = None \<Longrightarrow> trim_left_seqs ps s = s"
  by (simp add: trim_left_seqs.simps)

lemma trim_left_seqs_stripped: "strip_prefix ps (trim_left_seqs ps s) = None"
  by (induction ps s rule: trim_left_seqs.induct)
    (metis (no_types, lifting) option.case_eq_if option.collapse trim_left_seqs.simps)

lemma trim_left_seqs_idem [simp]: "trim_left_seqs ps (trim_left_seqs ps s) = trim_left_seqs ps s"
  by (rule trim_left_seqs_id) (rule trim_left_seqs_stripped)

lemma trim_left_seqs_suffix: "\<exists>p. s = p @ trim_left_seqs ps s"
proof (induction ps s rule: trim_left_seqs.induct)
  case (1 ps s)
  show ?case
  proof (cases "strip_prefix ps s")
    case (Some t)
    then have "\<exists>q. s = q @ t"
      by (induction ps) (auto split: if_splits intro: exI [of _ "take _ s"] append_take_drop_id [symmetric])
    moreover from 1 Some obtain p where "t = p @ trim_left_seqs ps t" by blast
    ultimately show ?thesis
      using Some by (metis append.assoc option.simps(5) trim_left_seqs.simps)
  qed (simp add: trim_left_seqs_id)
qed

lemma trim_left_seqs_Nil [simp]: "trim_left_seqs ps [] = []"
  using trim_left_seqs_suffix [of "[]" ps] by simp

lemma trim_space_Nil [simp]: "trim_space [] = []"
  by (simp add: trim_space_def trim_space_left_def trim_space_right_def)

lemma trim_space_infix: "\<exists>a b. s = a @ trim_space s @ b"
proof -
  obtain a where a: "s = a @ trim_space_left s"
    using trim_left_seqs_suffix [of s space_seqs] by (auto simp: trim_space_left_def)
  obtain b where "rev (trim_space_left s) = b @ trim_left_seqs (map rev space_seqs) (rev (trim_space_left s))"
    using trim_left_seqs_suffix by blast
  then have "trim_space_left s = trim_space s @ rev b"
    by (metis rev_append rev_rev_ident trim_space_def trim_space_right_def)
  with a show ?thesis by metis
qed

lemma strip_prefix_None: "strip_prefix ps s = None \<longleftrightarrow> (\<forall>p\<in>set ps. p \<noteq> [] \<longrightarrow> \<not> has_prefix s p)"
  by (induction ps) auto

lemma strip_prefix_prefix: "strip_prefix ps (s @ t) = None \<Longrightarrow> strip_prefix ps s = None"
  unfolding strip_prefix_None has_prefix_iff by fastforce

lemma trim_space_idem [simp]: "trim_space (trim_space s) = trim_space s"
proof -
  let ?l = "trim_space_left s"
  obtain p where "rev ?l = p @ trim_left_seqs (map rev space_seqs) (rev ?l)"
    using trim_left_seqs_suffix by blast
  then have "?l = trim_space s @ rev p"
    unfolding trim_space_def trim_space_right_def by (metis rev_append rev_rev_ident)
  moreover have "strip_prefix space_seqs ?l = None"
    unfolding trim_space_left_def by (rule trim_left_seqs_stripped)
  ultimately have "strip_prefix space_seqs (trim_space s) = None" by (metis strip_prefix_prefix)
  then have "trim_space_left (trim_space s) = trim_space s"
    unfolding trim_space_left_def by (rule trim_left_seqs_id)
  moreover have "trim_space_right (trim_space s) = trim_space s"
    by (simp add: trim_space_def trim_space_right_def)
  ultimately show ?thesis by (simp add: trim_space_def [of "trim_space s"])
qed

lemma trim_space_length: "length (trim_space s) \<le> length s"
proof -
  obtain a b where "s = a @ trim_space s @ b" using trim_space_infix by blast
  then have "length s = length a + length (trim_space s) + length b"
    by (metis append.assoc length_append)
  then show ?thesis by simp
qed

lemma trim_space_ascii: "is_ascii s \<Longrightarrow> is_ascii (trim_space s)"
  by (metis is_ascii_simps(3) trim_space_infix)

text \<open>Trimming stops at a byte that is ASCII and no white space, and takes ASCII spaces off.\<close>

definition solid_byte :: "char \<Rightarrow> bool" where
  "solid_byte c \<longleftrightarrow> byte c < 128 \<and> byte c \<notin> set ascii_spaces"

lemma space_seqs_edges: "p \<in> set space_seqs \<Longrightarrow> p \<noteq> [] \<and> \<not> solid_byte (hd p) \<and> \<not> solid_byte (last p)"
  by (auto simp: space_seqs_def space_runes_def ascii_spaces_def encode_rune_def solid_byte_def)

lemma strip_prefix_solid:
  "solid_byte c \<Longrightarrow> strip_prefix space_seqs (c # s) = None"
  "solid_byte c \<Longrightarrow> strip_prefix (map rev space_seqs) (c # s) = None"
proof -
  have *: "\<forall>p\<in>set ps. p \<noteq> [] \<longrightarrow> hd p \<noteq> c \<Longrightarrow> strip_prefix ps (c # s) = None" for ps
    by (induction ps) (auto simp: has_prefix_iff Cons_eq_append_conv)
  assume c: "solid_byte c"
  show "strip_prefix space_seqs (c # s) = None"
    by (rule *) (use c space_seqs_edges in auto)
  show "strip_prefix (map rev space_seqs) (c # s) = None"
    by (rule *) (use c space_seqs_edges in \<open>auto simp: hd_rev\<close>)
qed

lemma trim_space_solid:
  assumes "s \<noteq> []" and "solid_byte (hd s)" and "solid_byte (last s)"
  shows "trim_space s = s"
proof -
  from assms(1,2) have "trim_space_left s = s"
    by (cases s) (simp_all add: trim_space_left_def trim_left_seqs_id strip_prefix_solid)
  moreover obtain c t where "rev s = c # t" using assms(1) by (cases "rev s") auto
  moreover from this assms(1,3) have "solid_byte c" by (metis hd_rev list.sel(1))
  ultimately show ?thesis
    by (metis rev_rev_ident strip_prefix_solid(2) trim_left_seqs_id trim_space_def trim_space_right_def)
qed

lemma strip_prefix_ascii_space:
  assumes "byte c \<in> set ascii_spaces"
  shows "strip_prefix space_seqs (c # s) = Some s" "strip_prefix (map rev space_seqs) (c # s) = Some s"
proof -
  from assms consider "c = char_of (9::nat)" | "c = char_of (10::nat)" | "c = char_of (11::nat)"
    | "c = char_of (12::nat)" | "c = char_of (13::nat)" | "c = char_of (32::nat)"
    by (auto simp: ascii_spaces_def) (metis char_of_char)+
  then show "strip_prefix space_seqs (c # s) = Some s" "strip_prefix (map rev space_seqs) (c # s) = Some s"
    by (cases; simp add: space_seqs_def space_runes_def ascii_spaces_def encode_rune_def)+
qed

lemma trim_space_snoc:
  assumes "byte c \<in> set ascii_spaces" and "s \<noteq> []" and "solid_byte (hd s)"
  shows "trim_space (s @ [c]) = trim_space s"
proof -
  have "trim_space_left (s @ [c]) = s @ [c]" and "trim_space_left s = s"
    using assms(2,3) by (cases s; simp add: trim_space_left_def trim_left_seqs_id strip_prefix_solid)+
  moreover have "trim_left_seqs (map rev space_seqs) (c # rev s) = trim_left_seqs (map rev space_seqs) (rev s)"
    by (subst trim_left_seqs.simps) (simp add: strip_prefix_ascii_space [OF assms(1)])
  ultimately show ?thesis
    by (simp add: trim_space_def trim_space_right_def)
qed

text \<open>\<open>strings.IndexByte\<close>, \<open>strings.LastIndexByte\<close> as positions; \<open>None\<close> is -1.\<close>

fun index_byte :: "string \<Rightarrow> char \<Rightarrow> nat option" where
  "index_byte [] b = None"
| "index_byte (c # s) b = (if c = b then Some 0 else map_option Suc (index_byte s b))"

fun last_index_byte :: "string \<Rightarrow> char \<Rightarrow> nat option" where
  "last_index_byte [] b = None"
| "last_index_byte (c # s) b = (case last_index_byte s b of
      Some i \<Rightarrow> Some (Suc i) | None \<Rightarrow> if c = b then Some 0 else None)"

lemma index_byte_Some:
  "index_byte s b = Some i \<longleftrightarrow> (\<exists>p q. s = p @ b # q \<and> b \<notin> set p \<and> length p = i)"
proof (induction s arbitrary: i)
  case (Cons c s)
  show ?case
  proof (cases "c = b")
    case True
    then show ?thesis by (auto simp: Cons_eq_append_conv)
  next
    case False
    have "index_byte (c # s) b = Some i \<longleftrightarrow> (\<exists>j. i = Suc j \<and> index_byte s b = Some j)"
      using False by auto
    also have "\<dots> \<longleftrightarrow> (\<exists>p q. s = p @ b # q \<and> b \<notin> set p \<and> Suc (length p) = i)"
      unfolding Cons.IH by blast
    also have "\<dots> \<longleftrightarrow> (\<exists>p q. c # s = p @ b # q \<and> b \<notin> set p \<and> length p = i)" (is "?L \<longleftrightarrow> ?R")
    proof
      assume ?L
      then obtain p q where "s = p @ b # q" "b \<notin> set p" "Suc (length p) = i" by blast
      then have "c # s = (c # p) @ b # q \<and> b \<notin> set (c # p) \<and> length (c # p) = i" using False by simp
      then show ?R by blast
    next
      assume ?R
      then show ?L using False by (auto simp: Cons_eq_append_conv)
    qed
    finally show ?thesis .
  qed
qed simp

lemma index_byte_None: "index_byte s b = None \<longleftrightarrow> b \<notin> set s"
  by (induction s) auto

lemma last_index_byte_None: "last_index_byte s b = None \<longleftrightarrow> b \<notin> set s"
  by (induction s) (auto split: option.splits)

lemma last_index_byte_split:
  "b \<notin> set q \<Longrightarrow> last_index_byte (p @ b # q) b = Some (length p)"
  using last_index_byte_None [of q b] by (induction p) auto

text \<open>\<open>strings.ReplaceAll(s, c, "")\<close> for a single byte.\<close>

definition remove_byte :: "char \<Rightarrow> string \<Rightarrow> string" where
  "remove_byte b s = filter (\<lambda>c. c \<noteq> b) s"

text \<open>\<open>strings.Join\<close>\<close>

fun join :: "string list \<Rightarrow> string \<Rightarrow> string" where
  "join [] sep = []"
| "join [x] sep = x"
| "join (x # xs) sep = x @ sep @ join xs sep"

text \<open>\<open>strings.EqualFold\<close>: runes equal up to simple case folding.\<close>

definition fold_eq :: "go_unicode \<Rightarrow> rune \<Rightarrow> rune \<Rightarrow> bool" where
  "fold_eq U a b \<longleftrightarrow> a = b \<or>
     (if a < 128 \<and> b < 128 then rune_lower U a = rune_lower U b else uc_fold U a b)"

definition equal_fold :: "go_unicode \<Rightarrow> string \<Rightarrow> string \<Rightarrow> bool" where
  "equal_fold U s t \<longleftrightarrow> list_all2 (fold_eq U) (runes s) (runes t)"

section \<open>Numbers and quoting\<close>

text \<open>\<open>strconv.FormatInt(n, 10)\<close> and \<open>strconv.Itoa\<close>.\<close>

definition digit_char :: "nat \<Rightarrow> char" where
  "digit_char d = (char_of (if d < 10 then 48 + d else 87 + d))"

fun nat_digits :: "nat \<Rightarrow> string" where
  "nat_digits n = (if n < 10 then [digit_char n] else nat_digits (n div 10) @ [digit_char (n mod 10)])"

declare nat_digits.simps [simp del]

definition itoa :: "int \<Rightarrow> string" where
  "itoa i = (if i < 0 then CHR ''-'' # nat_digits (nat (- i)) else nat_digits (nat i))"

text \<open>Fixed-width lowercase hexadecimal, as in \<open>\\xNN\<close>, \<open>\\uNNNN\<close> and \<open>\\UNNNNNNNN\<close>.\<close>

fun hex_digits :: "nat \<Rightarrow> nat \<Rightarrow> string" where
  "hex_digits 0 n = []"
| "hex_digits (Suc w) n = hex_digits w (n div 16) @ [digit_char (n mod 16)]"

definition is_print :: "go_unicode \<Rightarrow> rune \<Rightarrow> bool" where
  "is_print U r \<longleftrightarrow> (if r < 128 then 32 \<le> r \<and> r < 127 else uc_print U r)"

definition quote_rune :: "go_unicode \<Rightarrow> rune \<times> string \<Rightarrow> string" where
  "quote_rune U c =
     (let r = fst c; bs = snd c; esc = CHR 0x5C in
      if r = runeError \<and> length bs = 1 then esc # ''x'' @ hex_digits 2 (byte (hd bs))
      else if r = 34 \<or> r = 92 then esc # bs
      else if is_print U r then bs
      else if r = 7 then esc # ''a'' else if r = 8 then esc # ''b'' else if r = 12 then esc # ''f''
      else if r = 10 then esc # ''n'' else if r = 13 then esc # ''r'' else if r = 9 then esc # ''t''
      else if r = 11 then esc # ''v''
      else if r < 32 \<or> r = 127 then esc # ''x'' @ hex_digits 2 r
      else if r < 65536 then esc # ''u'' @ hex_digits 4 r
      else esc # ''U'' @ hex_digits 8 r)"

text \<open>\<open>strconv.Quote\<close>\<close>

definition quote :: "go_unicode \<Rightarrow> string \<Rightarrow> string" where
  "quote U s = CHR 0x22 # concat (map (quote_rune U) (chunks s)) @ [CHR 0x22]"

lemma digit_char_byte: "d < 10 \<Longrightarrow> byte (digit_char d) = 48 + d"
  by (simp add: digit_char_def)

text \<open>The value a decimal string denotes, and that \<open>nat_digits\<close> prints it.\<close>

definition digits_value :: "string \<Rightarrow> nat" where
  "digits_value s = foldl (\<lambda>v c. 10 * v + (byte c - 48)) 0 s"

lemma digits_value_snoc: "digits_value (s @ [c]) = 10 * digits_value s + (byte c - 48)"
  by (simp add: digits_value_def)

lemma digits_value_nat_digits: "digits_value (nat_digits n) = n"
proof (induction n rule: nat_digits.induct)
  case (1 n)
  show ?case
  proof (cases "n < 10")
    case True
    then show ?thesis by (simp add: nat_digits.simps [of n] digits_value_def digit_char_byte)
  next
    case False
    with 1 show ?thesis
      by (simp add: nat_digits.simps [of n] digits_value_snoc digit_char_byte)
  qed
qed

lemma nat_digits_digits: "c \<in> set (nat_digits n) \<Longrightarrow> 48 \<le> byte c \<and> byte c \<le> 57"
proof (induction n rule: nat_digits.induct)
  case (1 n)
  have "byte (digit_char (n mod 10)) = 48 + n mod 10" by (rule digit_char_byte) simp
  then show ?case using 1 by (subst (asm) nat_digits.simps) (auto simp: digit_char_byte split: if_splits)
qed

lemma nat_digits_nonempty [simp]: "nat_digits n \<noteq> []"
  by (subst nat_digits.simps) simp

lemma itoa_nonempty [simp]: "itoa i \<noteq> []"
  by (simp add: itoa_def)

lemma itoa_inject: "itoa i = itoa j \<longleftrightarrow> i = j"
proof
  assume eq: "itoa i = itoa j"
  have minus: "CHR ''-'' \<notin> set (nat_digits n)" for n
    using nat_digits_digits [of "CHR ''-''" n] by auto
  have ndi: "nat_digits m = nat_digits n \<Longrightarrow> m = n" for m n
    by (metis digits_value_nat_digits)
  show "i = j"
    using eq minus ndi unfolding itoa_def
    by (auto split: if_splits dest!: ndi) (metis list.set_intros(1) minus)+
qed simp

text \<open>\<open>strconv.Atoi\<close> on a 64-bit machine, and \<open>strconv.ParseInt(s, 10, 64)\<close>; \<open>None\<close> is an error.\<close>

definition unsigned_digits :: "string \<Rightarrow> nat option" where
  "unsigned_digits s = (if s \<noteq> [] \<and> list_all (\<lambda>c. 48 \<le> byte c \<and> byte c \<le> 57) s then Some (digits_value s) else None)"

definition Atoi :: "string \<Rightarrow> int option" where
  "Atoi s =
     (let (neg, ds) = (case s of [] \<Rightarrow> (False, []) | c # cs \<Rightarrow>
            if c = CHR ''-'' then (True, cs) else if c = CHR ''+'' then (False, cs) else (False, s))
      in case unsigned_digits ds of
           None \<Rightarrow> None
         | Some n \<Rightarrow> (let v = (if neg then - int n else int n) in
             if - (2 ^ 63) \<le> v \<and> v < 2 ^ 63 then Some v else None))"

end
