(* ===== verification/Atlas_Types.thy ===== *)
theory Atlas_Types
  imports Go_Strings
begin

text \<open>
  The data model of \<open>api/pkg/atlas\<close> (atlas.go, browse.go, stats.go) and the editorial kind sets
  (metro_kinds.go, browse_kinds.go, state_kinds.go). Field names carry the prefix of their
  struct. Country, scope tier, kind and tag are opaque strings, as in the source; identifiers
  are unbounded integers (they are assigned once, from 1 upward) and a \<open>time.Time\<close> in UTC is the number
  of nanoseconds since 0001-01-01, Go's zero time.
\<close>

type_synonym country = string
type_synonym scope_tier = string
type_synonym region_kind = string
type_synonym tag = string
type_synonym id64 = int
type_synonym instant = int

definition CountryUS :: country where "CountryUS = ''US''"
definition CountryCA :: country where "CountryCA = ''CA''"

definition ScopeLocal :: scope_tier where "ScopeLocal = ''local''"
definition ScopeRegional :: scope_tier where "ScopeRegional = ''regional''"
definition ScopeNational :: scope_tier where "ScopeNational = ''national''"

lemmas country_defs = CountryUS_def CountryCA_def
lemmas scope_defs = ScopeLocal_def ScopeRegional_def ScopeNational_def

record region =
  reg_ID :: id64
  reg_Kind :: region_kind
  reg_Name :: string
  reg_Slug :: string
  reg_Country :: country
  reg_ScopeTier :: scope_tier
  reg_ParentSlugs :: "string list"
  reg_SortPriority :: int
  reg_RollupStates :: "string list"

definition IsNational :: "region \<Rightarrow> bool" where
  "IsNational r \<longleftrightarrow> reg_ScopeTier r = ScopeNational"

record org =
  org_ID :: id64
  org_Slug :: string
  org_Name :: string
  org_ShortDesc :: string
  org_WebsiteURL :: string
  org_ContactURL :: string
  org_Tags :: "tag list"
  org_Regions :: "region list"
  org_MatchedRegionSlugs :: "string list"
  org_AddedAt :: instant

record lookup_query =
  lq_PostalCode :: string
  lq_Country :: country

record lookup_result =
  lr_Query :: lookup_query
  lr_ResolvedPlaceLabel :: string
  lr_ResolvedAncestry :: "region list"
  lr_Local :: "org list"
  lr_Regional :: "org list"
  lr_Statewide :: "org list"

record region_summary =
  rs_Region :: region
  rs_OrgCount :: nat
  rs_DirectOrgCount :: nat
  rs_BrowseParentSlug :: string

record region_search_result =
  rsr_Region :: region
  rsr_ContextLabel :: string

record region_detail =
  rd_Region :: region
  rd_Local :: "org list"
  rd_Regional :: "org list"
  rd_Statewide :: "org list"
  rd_Ancestry :: "region list"
  rd_DescendantRegionNames :: "(string, string) gomap"

record country_stats =
  cs_Country :: country
  cs_OrgCount :: nat
  cs_RegionCount :: nat

record stats =
  st_TotalOrgCount :: nat
  st_TotalRegionCount :: nat
  st_BrowseRegionCount :: nat
  st_ByCountry :: "country_stats list"

section \<open>Editorial kind sets\<close>

definition metroKinds :: "region_kind list" where
  "metroKinds = [''us:metro'', ''ca:cma'', ''ca:regional-district'', ''pt:area-metropolitana'']"

definition IsMetroKind :: "region_kind \<Rightarrow> bool" where
  "IsMetroKind k \<longleftrightarrow> k \<in> set metroKinds"

definition defaultBrowseKinds :: "region_kind list" where
  "defaultBrowseKinds = [''us:metro'', ''us:city'', ''ca:cma'', ''ca:regional-district'', ''ca:city'',
     ''pt:area-metropolitana'']"

definition IsDefaultBrowseKind :: "region_kind \<Rightarrow> bool" where
  "IsDefaultBrowseKind k \<longleftrightarrow> k \<in> set defaultBrowseKinds"

definition stateKinds :: "region_kind list" where
  "stateKinds = [''us:state'', ''us:territory'', ''ca:province'', ''ca:territory'']"

definition IsStateKind :: "region_kind \<Rightarrow> bool" where
  "IsStateKind k \<longleftrightarrow> k \<in> set stateKinds"

definition IsRollupTargetKind :: "region_kind \<Rightarrow> bool" where
  "IsRollupTargetKind k \<longleftrightarrow> k \<in> set stateKinds \<or> k = ''us:federal-district''"

lemmas kind_defs = IsMetroKind_def metroKinds_def IsDefaultBrowseKind_def defaultBrowseKinds_def
  IsStateKind_def stateKinds_def IsRollupTargetKind_def

lemma metro_kinds_browse: "IsMetroKind k \<Longrightarrow> IsDefaultBrowseKind k"
  by (auto simp: kind_defs)

lemma state_kinds_rollup: "IsStateKind k \<Longrightarrow> IsRollupTargetKind k"
  by (simp add: kind_defs)

lemma state_kinds_not_browse: "IsStateKind k \<Longrightarrow> \<not> IsDefaultBrowseKind k"
  by (auto simp: kind_defs)

end
