(* ===== verification/Region_Scope.thy ===== *)
theory Region_Scope
  imports Atlas_Types
begin

text \<open>
  Bucketing of orgs by scope (\<open>api/pkg/atlas/region_scope.go\<close>). The lemmas state what the loops
  compute against a declarative description: the regions of an org that are in scope, the tier
  they put it in, and the key it is sorted by. The three buckets partition the orgs with a match.
\<close>

section \<open>Definitions\<close>

record scopeBucketed =
  sb_org :: org
  sb_sortKey :: int

text \<open>The inner loop over \<open>org.Regions\<close>.\<close>

definition matched_regions :: "(id64, region) gomap \<Rightarrow> org \<Rightarrow> region list" where
  "matched_regions inScope o1 = collect (\<lambda>r. mget inScope (reg_ID r)) (org_Regions o1)"

text \<open>The loop over \<open>matched\<close>: \<open>hasLocal\<close>, \<open>hasState\<close>, \<open>bestSort\<close>, \<open>matchedSlugs\<close>.\<close>

fun scan_matched :: "region list \<Rightarrow> bool \<times> bool \<times> int \<times> string list \<Rightarrow> bool \<times> bool \<times> int \<times> string list" where
  "scan_matched [] acc = acc"
| "scan_matched (r # rs) (hasLocal, hasState, bestSort, slugs) =
     scan_matched rs
       (hasLocal \<or> reg_ScopeTier r = ScopeLocal,
        hasState \<or> IsStateKind (reg_Kind r),
        if reg_SortPriority r < bestSort then reg_SortPriority r else bestSort,
        slugs @ [reg_Slug r])"

fun bucket_loop :: "(id64, region) gomap \<Rightarrow> org list \<Rightarrow>
    scopeBucketed list \<times> scopeBucketed list \<times> scopeBucketed list \<Rightarrow>
    scopeBucketed list \<times> scopeBucketed list \<times> scopeBucketed list" where
  "bucket_loop inScope [] acc = acc"
| "bucket_loop inScope (o1 # os) (loc, rgn, stw) =
     (case matched_regions inScope o1 of
        [] \<Rightarrow> bucket_loop inScope os (loc, rgn, stw)
      | m # ms \<Rightarrow>
          (let (hasLocal, hasState, bestSort, slugs) =
                 scan_matched (m # ms) (False, False, reg_SortPriority m, []);
               b = \<lparr>sb_org = o1\<lparr>org_MatchedRegionSlugs := slugs\<rparr>, sb_sortKey = bestSort\<rparr>
           in if hasLocal then bucket_loop inScope os (loc @ [b], rgn, stw)
              else if hasState then bucket_loop inScope os (loc, rgn, stw @ [b])
              else bucket_loop inScope os (loc, rgn @ [b], stw)))"

definition scope_less :: "scopeBucketed \<Rightarrow> scopeBucketed \<Rightarrow> bool" where
  "scope_less a b =
     (if sb_sortKey a \<noteq> sb_sortKey b then sb_sortKey a < sb_sortKey b
      else org_Name (sb_org a) < org_Name (sb_org b))"

definition sortScopeBuckets :: "scopeBucketed list \<Rightarrow> scopeBucketed list" where
  "sortScopeBuckets b = sort_slice scope_less b"

definition extractScopeOrgs :: "scopeBucketed list \<Rightarrow> org list" where
  "extractScopeOrgs b = map sb_org b"

definition BucketOrgsByScope :: "(id64, region) gomap \<Rightarrow> org list \<Rightarrow> org list \<times> org list \<times> org list" where
  "BucketOrgsByScope inScope os =
     (let (loc, rgn, stw) = bucket_loop inScope os ([], [], [])
      in (extractScopeOrgs (sortScopeBuckets loc), extractScopeOrgs (sortScopeBuckets rgn),
          extractScopeOrgs (sortScopeBuckets stw)))"

section \<open>The declarative description\<close>

text \<open>A scope is a partial function from region ids; \<open>mget inScope\<close> is the scope of a Go map.\<close>

definition matches :: "(id64 \<Rightarrow> region option) \<Rightarrow> org \<Rightarrow> region list" where
  "matches scope o1 = collect (\<lambda>r. scope (reg_ID r)) (org_Regions o1)"

datatype tier = Local | Regional | Statewide

definition tier_of :: "(id64 \<Rightarrow> region option) \<Rightarrow> org \<Rightarrow> tier" where
  "tier_of scope o1 =
     (if \<exists>r\<in>set (matches scope o1). reg_ScopeTier r = ScopeLocal then Local
      else if \<exists>r\<in>set (matches scope o1). IsStateKind (reg_Kind r) then Statewide
      else Regional)"

definition tagged :: "(id64 \<Rightarrow> region option) \<Rightarrow> org \<Rightarrow> org" where
  "tagged scope o1 = o1\<lparr>org_MatchedRegionSlugs := map reg_Slug (matches scope o1)\<rparr>"

definition best_sort :: "(id64 \<Rightarrow> region option) \<Rightarrow> org \<Rightarrow> int" where
  "best_sort scope o1 = Min (reg_SortPriority ` set (matches scope o1))"

text \<open>The orgs of one tier, tagged, in the order in which they arrived.\<close>

definition in_tier :: "(id64 \<Rightarrow> region option) \<Rightarrow> tier \<Rightarrow> org list \<Rightarrow> org list" where
  "in_tier scope t os = map (tagged scope) (filter (\<lambda>o1. matches scope o1 \<noteq> [] \<and> tier_of scope o1 = t) os)"

definition bucket_less :: "(id64 \<Rightarrow> region option) \<Rightarrow> org \<Rightarrow> org \<Rightarrow> bool" where
  "bucket_less scope a b =
     (if best_sort scope a \<noteq> best_sort scope b then best_sort scope a < best_sort scope b
      else org_Name a < org_Name b)"

lemma matches_tagged [simp]: "matches scope (tagged scope' o1) = matches scope o1"
  by (simp add: matches_def tagged_def)

lemma tier_of_tagged [simp]: "tier_of scope (tagged scope' o1) = tier_of scope o1"
  by (simp add: tier_of_def)

lemma best_sort_tagged [simp]: "best_sort scope (tagged scope' o1) = best_sort scope o1"
  by (simp add: best_sort_def)

interpretation scope_order: weak_order scope_less
  unfolding scope_less_def by (rule weak_order_then) (rule weak_order_key)

interpretation bucket_order: weak_order "bucket_less scope"
  unfolding bucket_less_def by (rule weak_order_then) (rule weak_order_key)

section \<open>The loops compute it\<close>

lemma scan_matched_spec:
  "scan_matched rs (l, st, k, sl) =
     (l \<or> (\<exists>r\<in>set rs. reg_ScopeTier r = ScopeLocal),
      st \<or> (\<exists>r\<in>set rs. IsStateKind (reg_Kind r)),
      Min (insert k (reg_SortPriority ` set rs)), sl @ map reg_Slug rs)"
proof (induction rs arbitrary: l st k sl)
  case (Cons r rs)
  have "Min (insert (if reg_SortPriority r < k then reg_SortPriority r else k) (reg_SortPriority ` set rs)) =
      Min (insert k (insert (reg_SortPriority r) (reg_SortPriority ` set rs)))"
    by (cases "rs = []") (auto simp: min_def)
  with Cons show ?case by auto
qed simp

definition bucketed :: "(id64 \<Rightarrow> region option) \<Rightarrow> org \<Rightarrow> scopeBucketed" where
  "bucketed scope o1 = \<lparr>sb_org = tagged scope o1, sb_sortKey = best_sort scope o1\<rparr>"

definition tier_buckets :: "(id64 \<Rightarrow> region option) \<Rightarrow> tier \<Rightarrow> org list \<Rightarrow> scopeBucketed list" where
  "tier_buckets scope t os =
     map (bucketed scope) (filter (\<lambda>o1. matches scope o1 \<noteq> [] \<and> tier_of scope o1 = t) os)"

lemma bucket_loop_spec:
  "bucket_loop inScope os (loc, rgn, stw) =
     (loc @ tier_buckets (mget inScope) Local os, rgn @ tier_buckets (mget inScope) Regional os,
      stw @ tier_buckets (mget inScope) Statewide os)"
proof (induction os arbitrary: loc rgn stw)
  case Nil
  then show ?case by (simp add: tier_buckets_def)
next
  case (Cons o1 os)
  have mm: "matched_regions inScope o1 = matches (mget inScope) o1"
    by (simp add: matched_regions_def matches_def)
  show ?case
  proof (cases "matches (mget inScope) o1")
    case Nil
    with Cons mm show ?thesis by (simp add: tier_buckets_def)
  next
    case (Cons m ms)
    have "scan_matched (m # ms) (False, False, reg_SortPriority m, []) =
        ((\<exists>r\<in>set (m # ms). reg_ScopeTier r = ScopeLocal), (\<exists>r\<in>set (m # ms). IsStateKind (reg_Kind r)),
         best_sort (mget inScope) o1, map reg_Slug (m # ms))"
      unfolding scan_matched_spec best_sort_def Cons by simp
    then show ?thesis
      using Cons.IH Cons mm
      by (simp add: tier_buckets_def tier_of_def bucketed_def tagged_def)
  qed
qed

lemma sort_tier_buckets:
  "extractScopeOrgs (sortScopeBuckets (tier_buckets scope t os)) =
     sort_slice (bucket_less scope) (in_tier scope t os)"
proof -
  let ?os = "filter (\<lambda>o1. matches scope o1 \<noteq> [] \<and> tier_of scope o1 = t) os"
  have "sort_slice scope_less (map (bucketed scope) ?os) =
      map (bucketed scope) (sort_slice (bucket_less scope) ?os)"
    by (rule sort_slice_map) (simp add: scope_less_def bucket_less_def bucketed_def tagged_def)
  moreover have "sort_slice (bucket_less scope) (map (tagged scope) ?os) =
      map (tagged scope) (sort_slice (bucket_less scope) ?os)"
    by (rule sort_slice_map) (simp add: bucket_less_def, simp add: tagged_def)
  ultimately show ?thesis
    by (simp add: extractScopeOrgs_def sortScopeBuckets_def tier_buckets_def in_tier_def bucketed_def o_def)
qed

lemma BucketOrgsByScope_eq:
  "BucketOrgsByScope inScope os =
     (sort_slice (bucket_less (mget inScope)) (in_tier (mget inScope) Local os),
      sort_slice (bucket_less (mget inScope)) (in_tier (mget inScope) Regional os),
      sort_slice (bucket_less (mget inScope)) (in_tier (mget inScope) Statewide os))"
  unfolding BucketOrgsByScope_def bucket_loop_spec by (simp add: sort_tier_buckets)

lemma in_tier_partition:
  "mset (in_tier scope Local os) + mset (in_tier scope Regional os) + mset (in_tier scope Statewide os) =
     mset (map (tagged scope) (filter (\<lambda>o1. matches scope o1 \<noteq> []) os))"
proof (induction os)
  case (Cons o1 os)
  then show ?case by (cases "tier_of scope o1") (auto simp: in_tier_def)
qed (simp add: in_tier_def)

text \<open>
  C30. The three buckets partition the orgs that have a region in scope: each appears in exactly
  one, tagged with the slugs of its matched regions; an org with a local-tier match is Local, else
  one with a state-kind match is Statewide, else it is Regional; each bucket is ordered by the
  least sort priority of the matched regions and then by name, and the others are dropped.
\<close>

theorem BucketOrgsByScope_spec:
  "case BucketOrgsByScope inScope os of (loc, rgn, stw) \<Rightarrow>
     mset loc + mset rgn + mset stw =
       mset (map (tagged (mget inScope)) (filter (\<lambda>o1. matches (mget inScope) o1 \<noteq> []) os)) \<and>
     list_all (\<lambda>o1. tier_of (mget inScope) o1 = Local) loc \<and>
     list_all (\<lambda>o1. tier_of (mget inScope) o1 = Regional) rgn \<and>
     list_all (\<lambda>o1. tier_of (mget inScope) o1 = Statewide) stw \<and>
     list_all (sorted_wrt (\<lambda>a b. \<not> bucket_less (mget inScope) b a)) [loc, rgn, stw]"
  unfolding BucketOrgsByScope_eq
  by (simp add: in_tier_partition bucket_order.sort_ordered list_all_iff)
    (auto simp: in_tier_def)

text \<open>
  Sorting is stable: orgs of one bucket with the same sort key and the same name keep the order in
  which the store returned them.
\<close>

lemma bucket_stable:
  "filter (\<lambda>y. \<not> bucket_less (mget inScope) z y \<and> \<not> bucket_less (mget inScope) y z) (fst (BucketOrgsByScope inScope os)) =
   filter (\<lambda>y. \<not> bucket_less (mget inScope) z y \<and> \<not> bucket_less (mget inScope) y z) (in_tier (mget inScope) Local os)"
  unfolding BucketOrgsByScope_eq fst_conv by (rule bucket_order.sort_stable)

end
