(* ===== verification/Region_Graph.thy ===== *)
theory Region_Graph
  imports Atlas_Types
begin

text \<open>
  The state of \<open>MemStore\<close> (memstore.go) and its walks over the region graph (graph.go and
  \<open>bfsUpwardFirstMatch\<close>). A walk takes the region table and an adjacency map: parents for the
  upward walk, children for the downward one. The lemmas show that a walk collects exactly the
  regions reachable over non-national ones, each once, and that the level-by-level search returns
  the nearest match with the least slug. The mutex is not modelled: each operation is one
  transition of the state.
\<close>

section \<open>The store's state\<close>

record memstore =
  regionsByID :: "(id64, region) gomap"
  regionsBySlug :: "(string, id64) gomap"
  parents :: "(id64, id64 list) gomap"
  orgs :: "org list"
  orgRegions :: "(id64, id64 list) gomap"
  postalToLeaf :: "(string, id64) gomap"
  rollupByState :: "(id64, id64 list) gomap"

definition NewMemStore :: memstore where
  "NewMemStore = \<lparr>regionsByID = [], regionsBySlug = [], parents = [], orgs = [], orgRegions = [],
     postalToLeaf = [], rollupByState = []\<rparr>"

section \<open>Definitions\<close>

text \<open>The loop of \<open>bfsCollectIDs\<close>: visited set, collected ids, queue.\<close>

function bfs_loop :: "(id64, region) gomap \<Rightarrow> (id64, id64 list) gomap \<Rightarrow>
    id64 list \<Rightarrow> id64 list \<Rightarrow> id64 list \<Rightarrow> id64 list" where
  "bfs_loop regs adj visited out [] = out"
| "bfs_loop regs adj visited out (x # queue) =
     (if x \<in> set visited then bfs_loop regs adj visited out queue
      else case mget regs x of
          None \<Rightarrow> bfs_loop regs adj (x # visited) out queue
        | Some r \<Rightarrow>
            if IsNational r then bfs_loop regs adj (x # visited) out queue
            else bfs_loop regs adj (x # visited) (out @ [x]) (queue @ mget_list adj x))"
  by pat_completeness auto

lemma unvisited_less:
  "mget regs x = Some r \<Longrightarrow> x \<notin> set vis \<Longrightarrow> card (mkeys regs - set (x # vis)) < card (mkeys regs - set vis)"
  by (rule psubset_card_mono) (auto dest: mget_in_mkeys)

lemma unvisited_le: "set vis \<subseteq> set vis' \<Longrightarrow> card (mkeys regs - set vis') \<le> card (mkeys regs - set vis)"
  by (rule card_mono) auto

lemma unvisited_missing: "mget regs x = None \<Longrightarrow> mkeys regs - set (x # vis) = mkeys regs - set vis"
  by (auto simp: mkeys_conv_dom)

termination bfs_loop
  by (relation "measures [\<lambda>(regs, adj, vis, out, q). card (mkeys regs - set vis),
        \<lambda>(regs, adj, vis, out, q). length q]")
    (auto simp del: set_simps simp: unvisited_less unvisited_missing)

definition bfsCollectIDs :: "(id64, region) gomap \<Rightarrow> id64 \<Rightarrow> (id64, id64 list) gomap \<Rightarrow> id64 list" where
  "bfsCollectIDs regs start adj = bfs_loop regs adj [] [] [start]"

text \<open>
  \<open>buildChildrenOf\<close> ranges over the parents map: \<open>es\<close> is the order in which it visits the entries.
\<close>

fun add_children :: "id64 \<Rightarrow> id64 list \<Rightarrow> (id64, id64 list) gomap \<Rightarrow> (id64, id64 list) gomap" where
  "add_children c [] out = out"
| "add_children c (p # ps) out = add_children c ps (mput p (mget_list out p @ [c]) out)"

fun children_loop :: "(id64 \<times> id64 list) list \<Rightarrow> (id64, id64 list) gomap \<Rightarrow> (id64, id64 list) gomap" where
  "children_loop [] out = out"
| "children_loop ((c, ps) # es) out = children_loop es (add_children c ps out)"

definition buildChildrenOf :: "(id64 \<times> id64 list) list \<Rightarrow> (id64, id64 list) gomap" where
  "buildChildrenOf es = children_loop es []"

definition descendantRegionIDs :: "memstore \<Rightarrow> (id64 \<times> id64 list) list \<Rightarrow> id64 \<Rightarrow> id64 list" where
  "descendantRegionIDs s es rootID = bfsCollectIDs (regionsByID s) rootID (buildChildrenOf es)"

text \<open>The index of \<open>buildOrgsByRegion\<close>; the inner set is a list without repetitions.\<close>

fun index_org :: "id64 \<Rightarrow> id64 list \<Rightarrow> (id64, id64 list) gomap \<Rightarrow> (id64, id64 list) gomap" where
  "index_org oid [] out = out"
| "index_org oid (rid # rids) out = index_org oid rids (mput rid (List.insert oid (mget_list out rid)) out)"

fun orgs_by_region_loop :: "(id64, id64 list) gomap \<Rightarrow> org list \<Rightarrow> (id64, id64 list) gomap \<Rightarrow> (id64, id64 list) gomap" where
  "orgs_by_region_loop att [] out = out"
| "orgs_by_region_loop att (o1 # os) out =
     orgs_by_region_loop att os (index_org (org_ID o1) (mget_list att (org_ID o1)) out)"

definition buildOrgsByRegion :: "memstore \<Rightarrow> (id64, id64 list) gomap" where
  "buildOrgsByRegion s = orgs_by_region_loop (orgRegions s) (orgs s) []"

definition countDistinctOrgs :: "(id64, id64 list) gomap \<Rightarrow> id64 list \<Rightarrow> nat" where
  "countDistinctOrgs orgsByRegion regionIDs =
     (if regionIDs = [] then 0
      else length (remdups (concat (map (mget_list orgsByRegion) regionIDs))))"

text \<open>
  \<open>bfsUpwardFirstMatch\<close>: one pass over a level collects the matching regions and the parents of
  the others; the first level with a match yields the one with the least slug.
\<close>

fun scan_level :: "(id64, region) gomap \<Rightarrow> (id64, id64 list) gomap \<Rightarrow> (region \<Rightarrow> bool) \<Rightarrow>
    id64 list \<Rightarrow> id64 list \<times> region list \<times> id64 list \<Rightarrow> id64 list \<times> region list \<times> id64 list" where
  "scan_level regs par match [] (visited, hits, nxt) = (visited, hits, nxt)"
| "scan_level regs par match (x # xs) (visited, hits, nxt) =
     (if x \<in> set visited then scan_level regs par match xs (visited, hits, nxt)
      else case mget regs x of
          None \<Rightarrow> scan_level regs par match xs (x # visited, hits, nxt)
        | Some r \<Rightarrow>
            if IsNational r then scan_level regs par match xs (x # visited, hits, nxt)
            else if match r then scan_level regs par match xs (x # visited, hits @ [r], nxt)
            else scan_level regs par match xs (x # visited, hits, nxt @ mget_list par x))"

definition slug_less :: "region \<Rightarrow> region \<Rightarrow> bool" where
  "slug_less a b \<longleftrightarrow> reg_Slug a < reg_Slug b"

text \<open>What one pass does: the visited set grows by the level, and only live regions expand.\<close>

definition live :: "(id64, region) gomap \<Rightarrow> id64 \<Rightarrow> bool" where
  "live regs x \<longleftrightarrow> (\<exists>r. mget regs x = Some r \<and> \<not> IsNational r)"

lemma scan_level_visited:
  "set (fst (scan_level regs par match xs (vis, hits, nxt))) = set vis \<union> set xs"
  by (induction xs arbitrary: vis hits nxt) (auto split: option.splits)

lemma scan_level_hits:
  "set (fst (snd (scan_level regs par match xs (vis, hits, nxt)))) =
     set hits \<union> {r. \<exists>x\<in>set xs - set vis. mget regs x = Some r \<and> \<not> IsNational r \<and> match r}"
  by (induction xs arbitrary: vis hits nxt) (auto split: option.splits)

lemma scan_level_next:
  "set (snd (snd (scan_level regs par match xs (vis, hits, nxt)))) =
     set nxt \<union> {y. \<exists>x\<in>set xs - set vis. \<exists>r. mget regs x = Some r \<and> \<not> IsNational r \<and> \<not> match r
        \<and> y \<in> set (mget_list par x)}"
  by (induction xs arbitrary: vis hits nxt) (auto split: option.splits)

function upward_loop :: "(id64, region) gomap \<Rightarrow> (id64, id64 list) gomap \<Rightarrow> (region \<Rightarrow> bool) \<Rightarrow>
    id64 list \<Rightarrow> id64 list \<Rightarrow> region option" where
  "upward_loop regs par match visited current =
     (if current = [] then None
      else let sc = scan_level regs par match current (visited, [], [])
        in if fst (snd sc) \<noteq> [] then Some (hd (sort_slice slug_less (fst (snd sc))))
           else upward_loop regs par match (fst sc) (snd (snd sc)))"
  by pat_completeness auto

lemma upward_decreases:
  assumes "current \<noteq> []" and sc: "sc = scan_level regs par match current (vis, [], [])"
  shows "card (mkeys regs - set (fst sc)) < card (mkeys regs - set vis) \<or>
    card (mkeys regs - set (fst sc)) = card (mkeys regs - set vis) \<and> length (snd (snd sc)) < length current"
proof (cases "\<exists>x\<in>set current - set vis. x \<in> mkeys regs")
  case True
  then have "mkeys regs - set (fst sc) \<subset> mkeys regs - set vis"
    unfolding sc scan_level_visited by blast
  then show ?thesis by (simp add: psubset_card_mono)
next
  case False
  then have "mkeys regs - set (fst sc) = mkeys regs - set vis"
    unfolding sc scan_level_visited by blast
  moreover from False have "set (snd (snd sc)) = {}"
    unfolding sc scan_level_next by (auto dest: mget_in_mkeys)
  ultimately show ?thesis using assms(1) by simp
qed

termination upward_loop
proof (relation "measures [\<lambda>(regs, par, m, vis, cur). card (mkeys regs - set vis),
      \<lambda>(regs, par, m, vis, cur). length cur]", goal_cases)
  case (2 regs par match visited current sc)
  then show ?case using upward_decreases [of current sc regs par match visited] by auto
qed simp

declare upward_loop.simps [simp del]

definition bfsUpwardFirstMatch :: "memstore \<Rightarrow> id64 \<Rightarrow> (region \<Rightarrow> bool) \<Rightarrow> region option" where
  "bfsUpwardFirstMatch s rootID match =
     upward_loop (regionsByID s) (parents s) match [rootID] (mget_list (parents s) rootID)"

section \<open>A walk collects what is reachable\<close>

text \<open>One hop of a walk, and the regions reachable over non-national ones in a number of hops.\<close>

definition hop :: "(id64, region) gomap \<Rightarrow> (id64, id64 list) gomap \<Rightarrow> id64 \<Rightarrow> id64 \<Rightarrow> bool" where
  "hop regs adj x y \<longleftrightarrow> live regs x \<and> live regs y \<and> y \<in> set (mget_list adj x)"

definition reaches :: "(id64, region) gomap \<Rightarrow> (id64, id64 list) gomap \<Rightarrow> id64 \<Rightarrow> id64 \<Rightarrow> bool" where
  "reaches regs adj x y \<longleftrightarrow> live regs x \<and> (hop regs adj)\<^sup>*\<^sup>* x y"

lemma reaches_refl: "live regs x \<Longrightarrow> reaches regs adj x x"
  by (simp add: reaches_def)

lemma reaches_step: "reaches regs adj x y \<Longrightarrow> live regs z \<Longrightarrow> z \<in> set (mget_list adj y) \<Longrightarrow> reaches regs adj x z"
  unfolding reaches_def
  by (metis (no_types, lifting) hop_def rtranclp.rtrancl_into_rtrancl rtranclp.simps)

lemma reaches_induct [consumes 1, case_names refl step]:
  assumes "reaches regs adj x y" and "live regs x \<Longrightarrow> P x"
    and "\<And>y z. reaches regs adj x y \<Longrightarrow> P y \<Longrightarrow> live regs z \<Longrightarrow> z \<in> set (mget_list adj y) \<Longrightarrow> P z"
  shows "P y"
proof -
  from assms(1) have lx: "live regs x" and "(hop regs adj)\<^sup>*\<^sup>* x y" by (auto simp: reaches_def)
  from this(2) show ?thesis
  proof (induction rule: rtranclp_induct)
    case base
    with assms(2) lx show ?case by simp
  next
    case (step y z)
    with lx have "reaches regs adj x y" by (simp add: reaches_def)
    with step assms(3) [of y z] show ?case by (auto simp: hop_def)
  qed
qed

lemma reaches_live: "reaches regs adj x y \<Longrightarrow> live regs x \<and> live regs y"
  by (induction rule: reaches_induct) (auto simp: reaches_def)

lemma bfs_skip: "x \<in> set vis \<Longrightarrow> bfs_loop regs adj vis out (x # q) = bfs_loop regs adj vis out q"
  by simp

lemma bfs_dead:
  "x \<notin> set vis \<Longrightarrow> \<not> live regs x \<Longrightarrow> bfs_loop regs adj vis out (x # q) = bfs_loop regs adj (x # vis) out q"
  by (simp add: live_def split: option.splits)

lemma bfs_live:
  "x \<notin> set vis \<Longrightarrow> live regs x \<Longrightarrow>
   bfs_loop regs adj vis out (x # q) = bfs_loop regs adj (x # vis) (out @ [x]) (q @ mget_list adj x)"
  by (auto simp: live_def)

declare bfs_loop.simps(2) [simp del]

lemmas bfs_simps = bfs_skip bfs_dead bfs_live

lemma bfs_induct [case_names Nil skip dead live]:
  assumes "\<And>vis out. P vis out []"
    and "\<And>vis out x q. x \<in> set vis \<Longrightarrow> P vis out q \<Longrightarrow> P vis out (x # q)"
    and "\<And>vis out x q. x \<notin> set vis \<Longrightarrow> \<not> live regs x \<Longrightarrow> P (x # vis) out q \<Longrightarrow> P vis out (x # q)"
    and "\<And>vis out x q. x \<notin> set vis \<Longrightarrow> live regs x \<Longrightarrow> P (x # vis) (out @ [x]) (q @ mget_list adj x) \<Longrightarrow>
           P vis out (x # q)"
  shows "P vis out q"
  using assms
proof (induction regs adj vis out q rule: bfs_loop.induct)
  case (2 regs adj vis out x q)
  note steps = "2.prems"
  show ?case
  proof (cases "x \<in> set vis")
    case True
    with "2.IH"(1) steps show ?thesis by (metis (no_types, lifting))
  next
    case new: False
    show ?thesis
    proof (cases "mget regs x")
      case None
      moreover from this have "\<not> live regs x" by (simp add: live_def)
      ultimately show ?thesis using "2.IH"(2) [OF new _ steps] steps(3) [OF new] by blast
    next
      case (Some r)
      show ?thesis
      proof (cases "IsNational r")
        case True
        with Some have "\<not> live regs x" by (simp add: live_def)
        with Some True show ?thesis using "2.IH"(3) [OF new _ _ steps] steps(3) [OF new] by blast
      next
        case False
        with Some have "live regs x" by (simp add: live_def)
        with Some False show ?thesis using "2.IH"(4) [OF new _ _ steps] steps(4) [OF new] by blast
      qed
    qed
  qed
qed

lemma bfs_loop_sound:
  assumes "\<forall>v\<in>set out. reaches regs adj a v" and "\<forall>v\<in>set q. live regs v \<longrightarrow> reaches regs adj a v"
  shows "\<forall>v\<in>set (bfs_loop regs adj vis out q). reaches regs adj a v"
  using assms
proof (induction vis out q rule: bfs_induct [of _ regs adj])
  case (live vis out x q)
  then have x: "reaches regs adj a x" by simp
  then have "\<forall>v\<in>set (mget_list adj x). live regs v \<longrightarrow> reaches regs adj a v"
    using reaches_step by blast
  with live x show ?case by (auto simp: bfs_simps)
qed (auto simp: bfs_simps)

text \<open>The result keeps what was collected and queued, and is closed under hops.\<close>

lemma bfs_loop_complete:
  assumes "\<forall>v\<in>set vis. live regs v \<longrightarrow> v \<in> set out"
    and "\<forall>v\<in>set out. set (mget_list adj v) \<subseteq> set vis \<union> set q"
  shows "(\<forall>v\<in>set vis \<union> set q. live regs v \<longrightarrow> v \<in> set (bfs_loop regs adj vis out q)) \<and>
    (\<forall>v\<in>set (bfs_loop regs adj vis out q). \<forall>w\<in>set (mget_list adj v). live regs w \<longrightarrow>
        w \<in> set (bfs_loop regs adj vis out q))"
  using assms
proof (induction vis out q rule: bfs_induct [of _ regs adj])
  case (Nil vis out)
  then show ?case by auto
next
  case (skip vis out x q)
  then have "set vis \<union> set (x # q) = set vis \<union> set q" by auto
  with skip show ?case by (simp add: bfs_simps)
next
  case (dead vis out x q)
  have "set vis \<union> set (x # q) = set (x # vis) \<union> set q" by auto
  with dead show ?case by (simp add: bfs_simps)
next
  case (live vis out x q)
  have "\<forall>v\<in>set (x # vis). live regs v \<longrightarrow> v \<in> set (out @ [x])"
    and "\<forall>v\<in>set (out @ [x]). set (mget_list adj v) \<subseteq> set (x # vis) \<union> set (q @ mget_list adj x)"
    using live.prems by auto
  from live.IH [OF this] live.hyps show ?case unfolding bfs_live [OF live.hyps(1,2)] by auto
qed

lemma bfs_loop_distinct:
  "distinct out \<Longrightarrow> set out \<subseteq> set vis \<Longrightarrow> distinct (bfs_loop regs adj vis out q)"
proof (induction vis out q rule: bfs_induct [of _ regs adj])
  case (live vis out x q)
  then have "distinct (out @ [x])" "set (out @ [x]) \<subseteq> set (x # vis)" by auto
  with live show ?case by (simp add: bfs_simps)
qed (auto simp: bfs_simps)

lemma bfs_loop_prefix: "\<exists>more. bfs_loop regs adj vis out q = out @ more"
  by (induction vis out q rule: bfs_induct [of _ regs adj]) (auto simp: bfs_simps)

theorem bfsCollectIDs_set: "set (bfsCollectIDs regs start adj) = {y. reaches regs adj start y}"
proof -
  let ?R = "bfsCollectIDs regs start adj"
  have "\<forall>v\<in>set ?R. reaches regs adj start v"
    unfolding bfsCollectIDs_def by (rule bfs_loop_sound) (auto intro: reaches_refl)
  moreover have "y \<in> set ?R" if "reaches regs adj start y" for y
    using that
  proof (induction rule: reaches_induct)
    case refl
    then show ?case using bfs_loop_complete [of "[]" regs "[]" adj "[start]"]
      by (auto simp: bfsCollectIDs_def)
  next
    case (step y z)
    then show ?case using bfs_loop_complete [of "[]" regs "[]" adj "[start]"]
      by (auto simp: bfsCollectIDs_def)
  qed
  ultimately show ?thesis by blast
qed

lemma bfsCollectIDs_distinct: "distinct (bfsCollectIDs regs start adj)"
  unfolding bfsCollectIDs_def by (rule bfs_loop_distinct) simp_all

lemma bfsCollectIDs_hd: "live regs start \<Longrightarrow> \<exists>more. bfsCollectIDs regs start adj = start # more"
  using bfs_loop_prefix [of regs adj "[start]" "[start]" "mget_list adj start"]
  by (simp add: bfsCollectIDs_def bfs_simps)

lemma bfsCollectIDs_dead: "\<not> live regs start \<Longrightarrow> bfsCollectIDs regs start adj = []"
  by (simp add: bfsCollectIDs_def bfs_simps)

section \<open>Nearest regions first\<close>

text \<open>
  Distances: \<open>within regs adj a n y\<close> says that \<open>y\<close> is reached in at most \<open>n\<close> hops. The labelled
  invariant of the loop pairs every collected and queued id with a level: levels do not decrease
  along the queue and differ by at most one.
\<close>

fun within :: "(id64, region) gomap \<Rightarrow> (id64, id64 list) gomap \<Rightarrow> id64 \<Rightarrow> nat \<Rightarrow> id64 \<Rightarrow> bool" where
  "within regs adj a 0 y = (y = a \<and> live regs a)"
| "within regs adj a (Suc n) y = (within regs adj a n y \<or>
     (\<exists>x. within regs adj a n x \<and> live regs y \<and> y \<in> set (mget_list adj x)))"

lemma within_mono: "within regs adj a n y \<Longrightarrow> n \<le> m \<Longrightarrow> within regs adj a m y"
  by (induction m) (auto simp: le_Suc_eq)

lemma within_live: "within regs adj a n y \<Longrightarrow> live regs y"
  by (induction n arbitrary: y) auto

lemma within_reaches: "(\<exists>n. within regs adj a n y) \<longleftrightarrow> reaches regs adj a y"
proof
  show "\<exists>n. within regs adj a n y \<Longrightarrow> reaches regs adj a y"
  proof (elim exE)
    fix n show "within regs adj a n y \<Longrightarrow> reaches regs adj a y"
      by (induction n arbitrary: y) (auto intro: reaches_refl reaches_step)
  qed
next
  show "reaches regs adj a y \<Longrightarrow> \<exists>n. within regs adj a n y"
  proof (induction rule: reaches_induct)
    case refl
    then have "within regs adj a 0 a" by simp
    then show ?case by blast
  next
    case (step y z)
    then obtain n where "within regs adj a n y" by blast
    with step have "within regs adj a (Suc n) z" by auto
    then show ?case by blast
  qed
qed

text \<open>No region comes after one that is strictly farther from the start.\<close>

definition nearest_first :: "(id64, region) gomap \<Rightarrow> (id64, id64 list) gomap \<Rightarrow> id64 \<Rightarrow> id64 list \<Rightarrow> bool" where
  "nearest_first regs adj a = sorted_wrt (\<lambda>x y. \<forall>n. within regs adj a n y \<longrightarrow> within regs adj a n x)"

text \<open>
  The loop invariant at level \<open>n\<close>: the queue is a block of ids within \<open>n\<close> followed by a block of ids
  within \<open>n + 1\<close>; every id within \<open>n\<close> is collected or in the first block; the neighbours of a
  collected id are visited or queued, and everything within \<open>n - 1\<close> is already collected.
\<close>

definition level_inv :: "(id64, region) gomap \<Rightarrow> (id64, id64 list) gomap \<Rightarrow> id64 \<Rightarrow> nat \<Rightarrow>
    id64 list \<Rightarrow> id64 list \<Rightarrow> id64 list \<Rightarrow> id64 list \<Rightarrow> bool" where
  "level_inv regs adj a n vis out q1 q2 \<longleftrightarrow>
     set out \<subseteq> set vis \<and> (\<forall>v\<in>set vis. live regs v \<longrightarrow> v \<in> set out) \<and>
     (\<forall>v\<in>set out. within regs adj a n v) \<and>
     (\<forall>v\<in>set q1. live regs v \<longrightarrow> within regs adj a n v) \<and>
     (\<forall>v\<in>set q2. live regs v \<longrightarrow> within regs adj a (Suc n) v) \<and>
     (\<forall>m<n. \<forall>v. within regs adj a m v \<longrightarrow> v \<in> set out) \<and>
     (\<forall>v. within regs adj a n v \<longrightarrow> v \<in> set out \<union> set q1) \<and>
     (\<forall>v\<in>set out. set (mget_list adj v) \<subseteq> set vis \<union> set q1 \<union> set q2) \<and>
     nearest_first regs adj a out"

lemma level_inv_shift:
  "level_inv regs adj a n vis out [] q2 \<Longrightarrow> level_inv regs adj a (Suc n) vis out q2 []"
  unfolding level_inv_def by (auto simp: less_Suc_eq) (meson Un_iff subsetD)+

lemma level_inv_skip:
  "level_inv regs adj a n vis out (x # q1) q2 \<Longrightarrow> x \<in> set vis \<Longrightarrow> level_inv regs adj a n vis out q1 q2"
  unfolding level_inv_def by (auto dest: within_live)

lemma level_inv_dead:
  "level_inv regs adj a n vis out (x # q1) q2 \<Longrightarrow> \<not> live regs x \<Longrightarrow>
   level_inv regs adj a n (x # vis) out q1 q2"
  unfolding level_inv_def by (auto dest: within_live)

lemma level_inv_live:
  assumes inv: "level_inv regs adj a n vis out (x # q1) q2" and new: "x \<notin> set vis" "live regs x"
  shows "level_inv regs adj a n (x # vis) (out @ [x]) q1 (q2 @ mget_list adj x)"
proof -
  from inv new have x: "within regs adj a n x" and nout: "x \<notin> set out"
    and below: "\<And>m v. m < n \<Longrightarrow> within regs adj a m v \<Longrightarrow> v \<in> set out"
    and near: "\<And>v. v \<in> set out \<Longrightarrow> within regs adj a n v"
    and nf: "nearest_first regs adj a out"
    unfolding level_inv_def by auto
  have "within regs adj a m v" if "v \<in> set out" "within regs adj a m x" for m v
  proof -
    have "n \<le> m" using below [of m x] that(2) nout by (rule_tac leI) blast
    then show ?thesis using near [OF that(1)] within_mono by blast
  qed
  with nf have nf': "nearest_first regs adj a (out @ [x])"
    unfolding nearest_first_def sorted_wrt_append by simp
  have new_q2: "within regs adj a (Suc n) v" if "v \<in> set (mget_list adj x)" "live regs v" for v
    using that x by auto
  note facts = inv [unfolded level_inv_def]
  show ?thesis unfolding level_inv_def
  proof (intro conjI)
    show "\<forall>v\<in>set (q2 @ mget_list adj x). live regs v \<longrightarrow> within regs adj a (Suc n) v"
      using facts new_q2 by (simp del: within.simps) blast
    show "\<forall>v\<in>set (out @ [x]). set (mget_list adj v) \<subseteq> set (x # vis) \<union> set q1 \<union> set (q2 @ mget_list adj x)"
      using facts by auto
  qed (use facts x nf' in \<open>auto simp del: within.simps\<close>)
qed

lemma bfs_loop_nearest_first:
  "level_inv regs adj a n vis out q1 q2 \<Longrightarrow> nearest_first regs adj a (bfs_loop regs adj vis out (q1 @ q2))"
proof (induction vis out "q1 @ q2" arbitrary: n q1 q2 rule: bfs_induct [of _ regs adj])
  case (Nil vis out)
  then show ?case by (simp add: level_inv_def)
next
  case (skip vis out x q)
  obtain m r1 r2 where "level_inv regs adj a m vis out (x # r1) r2" "q = r1 @ r2"
    using skip.prems skip.hyps(3) level_inv_shift by (cases q1) fastforce+
  then show ?case using skip level_inv_skip by (metis bfs_skip)
next
  case (dead vis out x q)
  obtain m r1 r2 where "level_inv regs adj a m vis out (x # r1) r2" "q = r1 @ r2"
    using dead.prems dead.hyps(4) level_inv_shift by (cases q1) fastforce+
  then show ?case using dead level_inv_dead by (metis bfs_dead)
next
  case (live vis out x q)
  obtain m r1 r2 where "level_inv regs adj a m vis out (x # r1) r2" "q = r1 @ r2"
    using live.prems live.hyps(4) level_inv_shift by (cases q1) fastforce+
  then have "level_inv regs adj a m (x # vis) (out @ [x]) r1 (r2 @ mget_list adj x)"
    and "q @ mget_list adj x = r1 @ r2 @ mget_list adj x"
    using live.hyps level_inv_live by auto
  then show ?case using live by (metis bfs_live)
qed

lemma bfsCollectIDs_nearest_first: "nearest_first regs adj start (bfsCollectIDs regs start adj)"
  using bfs_loop_nearest_first [of regs adj start 0 "[]" "[]" "[start]" "[]"]
  by (simp add: bfsCollectIDs_def level_inv_def nearest_first_def)

section \<open>The upward search finds the nearest match\<close>

interpretation slug_order: weak_order slug_less
  unfolding slug_less_def by (rule weak_order_key)

text \<open>
  \<open>upward regs par root n y\<close>: \<open>y\<close> is \<open>root\<close> or an ancestor at most \<open>n\<close> levels up, over
  non-national regions. The root itself need not be registered.
\<close>

fun upward :: "(id64, region) gomap \<Rightarrow> (id64, id64 list) gomap \<Rightarrow> id64 \<Rightarrow> nat \<Rightarrow> id64 \<Rightarrow> bool" where
  "upward regs par root 0 y = (y = root)"
| "upward regs par root (Suc n) y = (upward regs par root n y \<or>
     (\<exists>x. upward regs par root n x \<and> live regs y \<and> y \<in> set (mget_list par x)))"

lemma upward_live: "upward regs par root n y \<Longrightarrow> y = root \<or> live regs y"
  by (induction n arbitrary: y) auto

definition match_at :: "(id64, region) gomap \<Rightarrow> (id64, id64 list) gomap \<Rightarrow> (region \<Rightarrow> bool) \<Rightarrow> id64 \<Rightarrow>
    nat \<Rightarrow> region \<Rightarrow> bool" where
  "match_at regs par match root n r \<longleftrightarrow>
     (\<exists>v. v \<noteq> root \<and> upward regs par root n v \<and> mget regs v = Some r \<and> \<not> IsNational r \<and> match r)"

text \<open>
  The abstract answer: a match at the least level that has one, with the least slug of that level;
  no answer exactly when no proper ancestor matches.
\<close>

definition nearest_match :: "(id64, region) gomap \<Rightarrow> (id64, id64 list) gomap \<Rightarrow> (region \<Rightarrow> bool) \<Rightarrow> id64 \<Rightarrow>
    region option \<Rightarrow> bool" where
  "nearest_match regs par match root res \<longleftrightarrow>
     (case res of
        None \<Rightarrow> \<forall>n r. \<not> match_at regs par match root n r
      | Some r \<Rightarrow> \<exists>n. match_at regs par match root n r \<and>
          (\<forall>k<n. \<forall>r'. \<not> match_at regs par match root k r') \<and>
          (\<forall>r'. match_at regs par match root n r' \<longrightarrow> \<not> slug_less r' r))"

definition upward_inv :: "(id64, region) gomap \<Rightarrow> (id64, id64 list) gomap \<Rightarrow> (region \<Rightarrow> bool) \<Rightarrow> id64 \<Rightarrow>
    nat \<Rightarrow> id64 list \<Rightarrow> id64 list \<Rightarrow> bool" where
  "upward_inv regs par match root n vis cur \<longleftrightarrow>
     (\<forall>v. upward regs par root n v \<longrightarrow> v \<in> set vis) \<and>
     (\<forall>v\<in>set vis. live regs v \<or> v = root \<longrightarrow> upward regs par root n v) \<and>
     (\<forall>v\<in>set cur. live regs v \<longrightarrow> upward regs par root (Suc n) v) \<and>
     (\<forall>v. upward regs par root (Suc n) v \<longrightarrow> v \<in> set vis \<union> set cur) \<and>
     (\<forall>k\<le>n. \<forall>r. \<not> match_at regs par match root k r)"

lemma upward_root: "upward regs par root n root"
  by (induction n) auto

lemma upward_invD:
  assumes "upward_inv regs par match root n vis cur"
  shows upward_inv_vis: "upward regs par root n v \<Longrightarrow> v \<in> set vis"
    and upward_inv_old: "v \<in> set vis \<Longrightarrow> live regs v \<Longrightarrow> upward regs par root n v"
    and upward_inv_cur: "v \<in> set cur \<Longrightarrow> live regs v \<Longrightarrow> upward regs par root (Suc n) v"
    and upward_inv_next: "upward regs par root (Suc n) v \<Longrightarrow> v \<in> set vis \<union> set cur"
    and upward_inv_none: "k \<le> n \<Longrightarrow> \<not> match_at regs par match root k r"
    and upward_inv_root: "root \<in> set vis"
  using assms upward_root [of regs par root n] unfolding upward_inv_def by blast+

lemma upward_hits:
  assumes "upward_inv regs par match root n vis cur"
  shows "set (fst (snd (scan_level regs par match cur (vis, [], [])))) =
    {r. match_at regs par match root (Suc n) r}" (is "?H = ?M")
proof
  show "?H \<subseteq> ?M"
  proof
    fix r assume "r \<in> ?H"
    then obtain x where x: "x \<in> set cur" "x \<notin> set vis" "mget regs x = Some r" "\<not> IsNational r" "match r"
      unfolding scan_level_hits by auto
    then have "upward regs par root (Suc n) x" "x \<noteq> root"
      using upward_inv_cur [OF assms x(1)] upward_inv_root [OF assms] by (auto simp: live_def)
    with x show "r \<in> ?M" unfolding match_at_def by blast
  qed
  show "?M \<subseteq> ?H"
  proof
    fix r assume "r \<in> ?M"
    then obtain v where v: "v \<noteq> root" "upward regs par root (Suc n) v" "mget regs v = Some r"
      "\<not> IsNational r" "match r" by (auto simp: match_at_def)
    then have "v \<notin> set vis"
      using upward_inv_old [OF assms, of v] upward_inv_none [OF assms, of n r]
      unfolding match_at_def live_def by blast
    moreover have "v \<in> set vis \<union> set cur" by (rule upward_inv_next [OF assms v(2)])
    ultimately show "r \<in> ?H" using v unfolding scan_level_hits by blast
  qed
qed

lemma upward_step:
  assumes inv: "upward_inv regs par match root n vis cur"
    and none: "\<And>r. \<not> match_at regs par match root (Suc n) r"
  defines "sc \<equiv> scan_level regs par match cur (vis, [], [])"
  shows "upward_inv regs par match root (Suc n) (fst sc) (snd (snd sc))"
proof -
  have nxt: "set (snd (snd sc)) = {y. \<exists>x\<in>set cur - set vis. live regs x \<and> y \<in> set (mget_list par x)}"
  proof -
    have "\<not> match r" if "x \<in> set cur - set vis" "mget regs x = Some r" "\<not> IsNational r" for x r
    proof -
      have "upward regs par root (Suc n) x" "x \<noteq> root"
        using that upward_inv_cur [OF inv, of x] upward_inv_root [OF inv] by (auto simp: live_def)
      with that none [of r] show ?thesis unfolding match_at_def by blast
    qed
    then show ?thesis unfolding sc_def scan_level_next live_def by auto
  qed
  have vis: "set (fst sc) = set vis \<union> set cur" by (simp add: sc_def scan_level_visited)
  have "v \<in> set vis \<union> set cur \<union> set (snd (snd sc))" if "upward regs par root (Suc (Suc n)) v" for v
  proof (cases "upward regs par root (Suc n) v")
    case True
    then show ?thesis using upward_inv_next [OF inv] by blast
  next
    case False
    with that obtain x where x: "upward regs par root (Suc n) x" "live regs v" "v \<in> set (mget_list par x)"
      by auto
    with False have "\<not> upward regs par root n x" by auto
    moreover from this have "live regs x"
      using upward_live [OF x(1)] upward_root by metis
    ultimately have "x \<in> set cur - set vis"
      using upward_inv_next [OF inv x(1)] upward_inv_old [OF inv, of x] by blast
    with x(3) \<open>live regs x\<close> show ?thesis unfolding nxt by blast
  qed
  moreover have "\<forall>v\<in>set vis \<union> set cur. live regs v \<or> v = root \<longrightarrow> upward regs par root (Suc n) v"
    using upward_inv_old [OF inv] upward_inv_cur [OF inv] upward_root by auto
  moreover have "\<forall>v\<in>set (snd (snd sc)). live regs v \<longrightarrow> upward regs par root (Suc (Suc n)) v"
    using upward_inv_cur [OF inv] unfolding nxt by (auto simp del: upward.simps simp: upward.simps(2) [of _ _ _ "Suc n"])
  moreover have "\<forall>k\<le>Suc n. \<forall>r. \<not> match_at regs par match root k r"
    using upward_inv_none [OF inv] none by (simp add: le_Suc_eq)
  ultimately show ?thesis unfolding upward_inv_def vis
    using upward_inv_next [OF inv] by blast
qed

lemma upward_stop:
  assumes inv: "upward_inv regs par match root n vis []"
  shows "\<not> match_at regs par match root m r"
proof -
  have "upward regs par root n v" if "upward regs par root m v" for v m
    using that
  proof (induction m arbitrary: v)
    case 0
    then show ?case by (simp add: upward_root)
  next
    case (Suc m)
    then have "upward regs par root (Suc n) v" by auto
    then have "v \<in> set vis" using upward_inv_next [OF inv] by force
    then show ?case
      using upward_inv_old [OF inv] upward_live [OF Suc.prems] upward_root by metis
  qed
  then show ?thesis using upward_inv_none [OF inv, of n r] unfolding match_at_def by blast
qed

lemma upward_loop_nearest:
  "upward_inv regs par match root n vis cur \<Longrightarrow>
   nearest_match regs par match root (upward_loop regs par match vis cur)"
proof (induction regs par match vis cur arbitrary: n rule: upward_loop.induct)
  case (1 regs par match vis cur)
  define sc where "sc = scan_level regs par match cur (vis, [], [])"
  have hits: "set (fst (snd sc)) = {r. match_at regs par match root (Suc n) r}"
    unfolding sc_def by (rule upward_hits) (rule "1.prems")
  consider "cur = []" | "cur \<noteq> []" "fst (snd sc) \<noteq> []" | "cur \<noteq> []" "fst (snd sc) = []" by blast
  then show ?case
  proof cases
    case 1
    with "1.prems" show ?thesis
      using upward_stop by (auto simp: nearest_match_def upward_loop.simps)
  next
    case 2
    then have "hd (sort_slice slug_less (fst (snd sc))) \<in> set (fst (snd sc))"
      by (metis hd_in_set length_0_conv length_sort_slice set_sort_slice)
    moreover have "upward_loop regs par match vis cur = Some (hd (sort_slice slug_less (fst (snd sc))))"
      using 2 by (simp add: upward_loop.simps sc_def)
    moreover have "\<forall>k<Suc n. \<forall>r'. \<not> match_at regs par match root k r'"
      using "1.prems" unfolding upward_inv_def by (simp add: less_Suc_eq_le)
    ultimately show ?thesis unfolding nearest_match_def
      using hits slug_order.sort_least by auto
  next
    case 3
    then have "upward_inv regs par match root (Suc n) (fst sc) (snd (snd sc))"
      unfolding sc_def using hits by (intro upward_step "1.prems") (auto simp: sc_def)
    moreover have "upward_loop regs par match vis cur = upward_loop regs par match (fst sc) (snd (snd sc))"
      using 3 by (simp add: upward_loop.simps [of regs par match vis cur] sc_def Let_def)
    ultimately show ?thesis using "1.IH" [OF 3(1) sc_def] 3(2) by simp
  qed
qed

theorem bfsUpwardFirstMatch_nearest:
  "nearest_match (regionsByID s) (parents s) match root (bfsUpwardFirstMatch s root match)"
  unfolding bfsUpwardFirstMatch_def
  by (rule upward_loop_nearest [of _ _ _ _ 0])
    (auto simp: upward_inv_def match_at_def)

section \<open>The derived indexes\<close>

lemma add_children_get:
  "mget_list (add_children c ps out) p = mget_list out p @ replicate (count_list ps p) c"
  by (induction ps arbitrary: out) (auto simp: replicate_append_same)

lemma children_loop_set:
  "set (mget_list (children_loop es out) p) =
     set (mget_list out p) \<union> {c. \<exists>ps. (c, ps) \<in> set es \<and> p \<in> set ps}"
  by (induction es out rule: children_loop.induct)
    (auto simp: add_children_get count_list_0_iff)

text \<open>The children map is the converse of the parents map, whatever the order of the range.\<close>

lemma buildChildrenOf_converse:
  assumes "ranges_over es par" and "wf_map par"
  shows "c \<in> set (mget_list (buildChildrenOf es) p) \<longleftrightarrow> p \<in> set (mget_list par c)"
  using ranges_over_set [OF assms(1)] set_mget [OF assms(2)]
  by (cases "mget par c") (auto simp: buildChildrenOf_def children_loop_set mget_list_def [of par])

lemma reaches_converse:
  assumes "\<And>x y. y \<in> set (mget_list adj x) \<longleftrightarrow> x \<in> set (mget_list adj' y)"
  shows "reaches regs adj x y \<longleftrightarrow> reaches regs adj' y x"
proof -
  have "hop regs adj = (hop regs adj')\<inverse>\<inverse>"
    using assms by (auto simp: hop_def fun_eq_iff)
  then have "(hop regs adj)\<^sup>*\<^sup>* x y = (hop regs adj')\<^sup>*\<^sup>* y x"
    by (simp add: rtranclp_conversep)
  then show ?thesis
    using reaches_live unfolding reaches_def by metis
qed

lemma index_org_get:
  "mget_list (index_org oid rids out) rid =
     (if rid \<in> set rids then List.insert oid (mget_list out rid) else mget_list out rid)"
  by (induction rids arbitrary: out) (auto simp: List.insert_def)

lemma orgs_by_region_get:
  "set (mget_list (orgs_by_region_loop att os out) rid) =
     set (mget_list out rid) \<union> {oid. \<exists>o1\<in>set os. org_ID o1 = oid \<and> rid \<in> set (mget_list att oid)}"
  by (induction os arbitrary: out) (auto simp: index_org_get)

lemma orgs_by_region_distinct:
  "(\<And>rid. distinct (mget_list out rid)) \<Longrightarrow> distinct (mget_list (orgs_by_region_loop att os out) rid)"
  by (induction os arbitrary: out) (auto simp: index_org_get)

definition serves :: "memstore \<Rightarrow> id64 \<Rightarrow> id64 \<Rightarrow> bool" where
  "serves s oid rid \<longleftrightarrow> (\<exists>o1\<in>set (orgs s). org_ID o1 = oid) \<and> rid \<in> set (mget_list (orgRegions s) oid)"

lemma buildOrgsByRegion_set:
  "set (mget_list (buildOrgsByRegion s) rid) = {oid. serves s oid rid}"
  by (auto simp: buildOrgsByRegion_def orgs_by_region_get serves_def)

lemma buildOrgsByRegion_distinct: "distinct (mget_list (buildOrgsByRegion s) rid)"
  unfolding buildOrgsByRegion_def by (rule orgs_by_region_distinct) simp

lemma countDistinctOrgs_card:
  "countDistinctOrgs (buildOrgsByRegion s) ids = card {oid. \<exists>rid\<in>set ids. serves s oid rid}"
proof -
  have "set (concat (map (mget_list (buildOrgsByRegion s)) ids)) = {oid. \<exists>rid\<in>set ids. serves s oid rid}"
    by (auto simp: buildOrgsByRegion_set)
  then show ?thesis
    by (auto simp: countDistinctOrgs_def card_set [symmetric])
qed

end
