(* ===== verification/Postal.thy ===== *)
theory Postal
  imports Atlas_Types
begin

text \<open>
  \<open>api/pkg/atlas/postal.go\<close>: normalization and validation of postal codes, the military ZIP
  ranges and the store's postal key. The lemmas describe the normal forms, when normalizing twice
  is the same as normalizing once, and where it is not.
\<close>

section \<open>Definitions\<close>

definition isLetter :: "char \<Rightarrow> bool" where
  "isLetter b \<longleftrightarrow> CHR ''A'' \<le> b \<and> b \<le> CHR ''Z''"

definition isDigit :: "char \<Rightarrow> bool" where
  "isDigit b \<longleftrightarrow> CHR ''0'' \<le> b \<and> b \<le> CHR ''9''"

text \<open>\<open>s[5] == '-'\<close> is read only under \<open>len(s) == 10\<close>.\<close>

definition zipFromZIP4 :: "string \<Rightarrow> string option" where
  "zipFromZIP4 s =
     (let digits = (if length s = 10 \<and> s ! 5 = CHR ''-'' then Some (take 5 s @ drop 6 s)
                    else if length s = 9 then Some s else None)
      in case digits of None \<Rightarrow> None
         | Some ds \<Rightarrow> if list_all isDigit ds then Some (take 5 s) else None)"

definition NormalizePostalCode :: "go_unicode \<Rightarrow> country \<Rightarrow> string \<Rightarrow> string" where
  "NormalizePostalCode U country raw =
     (let s = to_upper U (remove_byte CHR '' '' (trim_space raw))
      in if country = CountryUS then (case zipFromZIP4 s of Some z \<Rightarrow> z | None \<Rightarrow> s)
         else if country = CountryCA then (if length s > 3 then take 3 s else s)
         else if country = ''UK'' then (if length s > 4 then take (length s - 3) s else s)
         else if country = ''PT'' then remove_byte CHR ''-'' s
         else s)"

text \<open>\<open>for _, r := range code\<close> with \<open>r < '0' || r > '9'\<close>.\<close>

definition all_digit_runes :: "string \<Rightarrow> bool" where
  "all_digit_runes code \<longleftrightarrow> list_all (\<lambda>r. 48 \<le> r \<and> r \<le> 57) (runes code)"

definition ValidatePostalCode :: "country \<Rightarrow> string \<Rightarrow> go_error option" where
  "ValidatePostalCode country code =
     (if country = CountryUS then
        (if length code \<noteq> 5 then Some (Errorf ''US ZIP %q: want 5 digits'' [code])
         else if \<not> all_digit_runes code then Some (Errorf ''US ZIP %q: non-digit character'' [code])
         else None)
      else if country = CountryCA then
        (if length code \<noteq> 3 then Some (Errorf ''CA FSA %q: want 3 chars'' [code])
         else if \<not> isLetter (code ! 0) \<or> \<not> isDigit (code ! 1) \<or> \<not> isLetter (code ! 2)
         then Some (Errorf ''CA FSA %q: must be letter-digit-letter'' [code]) else None)
      else if country \<in> {''DE'', ''FR'', ''MX''} then
        (if length code \<noteq> 5 then Some (Errorf ''%s postal code %q: want 5 digits'' [country, code])
         else if \<not> all_digit_runes code
         then Some (Errorf ''%s postal code %q: non-digit character'' [country, code]) else None)
      else if country = ''UK'' then
        (if length code < 2 \<or> length code > 4
         then Some (Errorf ''UK outward code %q: want 2-4 chars'' [code]) else None)
      else if country = ''AU'' then
        (if length code \<noteq> 4 then Some (Errorf ''AU postcode %q: want 4 digits'' [code])
         else if \<not> all_digit_runes code
         then Some (Errorf ''AU postcode %q: non-digit character'' [code]) else None)
      else if country = ''PT'' then
        (if length code \<noteq> 7
         then Some (Errorf ''PT postal code %q: want 7 digits (after stripping hyphen)'' [code])
         else if \<not> all_digit_runes code
         then Some (Errorf ''PT postal code %q: non-digit character'' [code]) else None)
      else None)"

definition IsMilitaryPostalCode :: "country \<Rightarrow> string \<Rightarrow> bool" where
  "IsMilitaryPostalCode country code =
     (if country \<noteq> CountryUS \<or> length code \<noteq> 5 then False
      else if \<not> all_digit_runes code then False
      else let prefix = take 3 code in
        if ''090'' \<le> prefix \<and> prefix \<le> ''098'' then True
        else if prefix = ''340'' then True
        else if ''962'' \<le> prefix \<and> prefix \<le> ''966'' then True
        else False)"

definition postalKey :: "go_unicode \<Rightarrow> country \<Rightarrow> string \<Rightarrow> string" where
  "postalKey U country code = country @ '':'' @ NormalizePostalCode U country code"

section \<open>Digits\<close>

lemma isDigit_byte: "isDigit c \<longleftrightarrow> 48 \<le> byte c \<and> byte c \<le> 57"
  by (simp add: isDigit_def less_eq_char_def)

lemma isLetter_byte: "isLetter c \<longleftrightarrow> 65 \<le> byte c \<and> byte c \<le> 90"
  by (simp add: isLetter_def less_eq_char_def)

lemma digits_ascii: "list_all isDigit s \<Longrightarrow> is_ascii s"
  by (auto simp: list_all_iff is_ascii_def isDigit_byte)

text \<open>A rune decoded from a non-ASCII byte is no digit, so the rune test is the byte test.\<close>

lemma decode_rune_nonascii: "128 \<le> b0 \<Longrightarrow> decode_rune b0 bs = (r, w) \<Longrightarrow> 128 \<le> r"
  by (auto simp: decode_rune_def decode2_def decode3_def decode4_def runeError_def
      split: if_splits option.splits list.splits)

lemma all_digit_runes_iff: "all_digit_runes s \<longleftrightarrow> list_all isDigit s"
proof (induction s)
  case (Cons c s)
  show ?case
  proof (cases "byte c < 128")
    case True
    with Cons show ?thesis by (simp add: all_digit_runes_def runes_def isDigit_byte)
  next
    case False
    obtain r w where rw: "decode_rune (byte c) (map byte s) = (r, w)" by fastforce
    with False have "128 \<le> r" using decode_rune_nonascii [of "byte c"] by simp
    with rw False show ?thesis by (simp add: all_digit_runes_def runes_def isDigit_byte)
  qed
qed (simp add: all_digit_runes_def runes_def)

section \<open>Normal forms\<close>

text \<open>The cleaned input every country starts from.\<close>

definition cleaned :: "go_unicode \<Rightarrow> string \<Rightarrow> string" where
  "cleaned U raw = to_upper U (remove_byte CHR '' '' (trim_space raw))"

text \<open>Strings \<open>cleaned\<close> leaves alone: ASCII, no white space, no lower-case letter.\<close>

definition clean_byte :: "char \<Rightarrow> bool" where
  "clean_byte c \<longleftrightarrow> byte c < 128 \<and> byte c \<notin> set ascii_spaces \<and> \<not> (97 \<le> byte c \<and> byte c \<le> 122)"

lemma trim_space_clean: "list_all clean_byte s \<Longrightarrow> trim_space s = s"
  by (cases "s = []") (auto intro!: trim_space_solid simp: clean_byte_def solid_byte_def list_all_iff)

lemma map_byte_upper_clean: "list_all clean_byte s \<Longrightarrow> map byte_upper s = s"
  by (induction s) (auto simp: clean_byte_def byte_upper_def)

lemma clean_ascii: "list_all clean_byte s \<Longrightarrow> is_ascii s"
  by (auto simp: list_all_iff is_ascii_def clean_byte_def)

lemma cleaned_clean:
  assumes "list_all clean_byte s"
  shows "cleaned U s = s"
proof -
  have "remove_byte CHR '' '' s = s"
    using assms by (auto simp: remove_byte_def list_all_iff clean_byte_def ascii_spaces_def filter_id_conv)
  then show ?thesis
    by (simp add: cleaned_def trim_space_clean [OF assms] to_upper_ascii clean_ascii [OF assms]
        map_byte_upper_clean [OF assms])
qed

text \<open>
  Input that is ASCII and whose only white space is the blank: everything a client can type into
  the lookup form short of control characters.
\<close>

definition plain_input :: "string \<Rightarrow> bool" where
  "plain_input raw \<longleftrightarrow> (\<forall>c\<in>set raw. byte c < 128 \<and> byte c \<notin> {9, 10, 11, 12, 13})"

lemma cleaned_is_clean:
  assumes "plain_input raw"
  shows "list_all clean_byte (cleaned U raw)"
proof -
  have sub: "set (trim_space raw) \<subseteq> set raw"
    by (metis trim_space_infix Un_iff set_append subsetI)
  then have asc: "is_ascii (remove_byte CHR '' '' (trim_space raw))"
    using assms by (auto simp: is_ascii_def remove_byte_def plain_input_def)
  have "clean_byte (byte_upper c)" if "c \<in> set raw" "c \<noteq> CHR '' ''" for c
  proof -
    have "byte c \<noteq> byte (CHR '' '')" using that(2) by (simp only: of_char_eq_iff) simp
    then have "byte c \<noteq> 32" by simp
    with assms that(1) show ?thesis
      by (auto simp: clean_byte_def byte_upper_def ascii_spaces_def plain_input_def)
  qed
  with sub show ?thesis
    unfolding cleaned_def to_upper_ascii [OF asc]
    by (auto simp: list_all_iff remove_byte_def)
qed

lemma NormalizePostalCode_cleaned:
  "NormalizePostalCode U country raw =
     (let s = cleaned U raw
      in if country = CountryUS then (case zipFromZIP4 s of Some z \<Rightarrow> z | None \<Rightarrow> s)
         else if country = CountryCA then (if length s > 3 then take 3 s else s)
         else if country = ''UK'' then (if length s > 4 then take (length s - 3) s else s)
         else if country = ''PT'' then remove_byte CHR ''-'' s
         else s)"
  by (simp add: NormalizePostalCode_def cleaned_def Let_def)

lemma zipFromZIP4_Some: "zipFromZIP4 s = Some z \<Longrightarrow> z = take 5 s \<and> length z = 5 \<and> list_all isDigit z"
  by (auto simp: zipFromZIP4_def Let_def list_all_iff split: if_splits dest: in_set_takeD)

lemma zipFromZIP4_short: "length s \<le> 8 \<Longrightarrow> zipFromZIP4 s = None"
  by (auto simp: zipFromZIP4_def)

lemma NormalizePostalCode_clean:
  assumes "list_all clean_byte (cleaned U raw)"
  shows "list_all clean_byte (NormalizePostalCode U country raw)"
  using assms
  by (auto simp: NormalizePostalCode_cleaned Let_def list_all_iff remove_byte_def
      split: option.splits dest: in_set_takeD zipFromZIP4_Some)

section \<open>Properties\<close>

text \<open>
  Normalizing is idempotent on plain input (ASCII, blanks as the only white space), for every
  country, except that a UK input longer than a full postcode (seven characters once cleaned) is
  excluded: so normalizing in the handler and again in the store finds the same key.
\<close>

theorem NormalizePostalCode_idempotent:
  assumes "plain_input raw" and "country = ''UK'' \<longrightarrow> length (cleaned U raw) \<le> 7"
  shows "NormalizePostalCode U country (NormalizePostalCode U country raw) =
         NormalizePostalCode U country raw"
proof -
  let ?s = "cleaned U raw" and ?n = "NormalizePostalCode U country raw"
  have "list_all clean_byte ?n"
    using cleaned_is_clean [OF assms(1)] by (rule NormalizePostalCode_clean)
  then have n: "cleaned U ?n = ?n" by (rule cleaned_clean)
  show ?thesis
  proof (cases "country = CountryUS \<and> (\<exists>z. zipFromZIP4 ?s = Some z)")
    case True
    then have "zipFromZIP4 ?n = None"
      using zipFromZIP4_Some [of ?s]
      by (auto simp: NormalizePostalCode_cleaned [of U _ raw] intro!: zipFromZIP4_short)
    with True show ?thesis
      unfolding NormalizePostalCode_cleaned [of U _ ?n] n Let_def by simp
  next
    case False
    then show ?thesis
      using assms(2) unfolding NormalizePostalCode_cleaned [of U _ ?n] n Let_def
      by (auto simp: NormalizePostalCode_cleaned [of U _ raw] Let_def remove_byte_def country_defs
          split: option.splits)
  qed
qed

theorem NormalizePostalCode_idempotent_witness:
  "\<forall>U. NormalizePostalCode U ''CA'' (NormalizePostalCode U ''CA'' '' m5v 2t6 '') =
       NormalizePostalCode U ''CA'' '' m5v 2t6 ''"
  using NormalizePostalCode_idempotent [of "'' m5v 2t6 ''" "''CA''"] by (simp add: plain_input_def)


lemma clean_digits: "list_all isDigit s \<Longrightarrow> list_all clean_byte s"
  by (auto simp: list_all_iff isDigit_byte clean_byte_def ascii_spaces_def)

lemma length_5: "length s = 5 \<Longrightarrow> \<exists>a b c d e. s = [a, b, c, d, e]"
  by (auto simp: numeral_eq_Suc length_Suc_conv)

lemma normal_zip: "length z = 5 \<Longrightarrow> list_all isDigit z \<Longrightarrow> NormalizePostalCode U CountryUS z = z"
  by (simp add: NormalizePostalCode_cleaned cleaned_clean clean_digits zipFromZIP4_short)

text \<open>
  A five-digit ZIP, a ZIP+4 with its hyphen and a ZIP+4 without it normalize to the ZIP, and
  what they normalize to passes validation.
\<close>

theorem zip4_normalizes_to_zip:
  assumes "length z = 5" and "list_all isDigit z" and "length p = 4" and "list_all isDigit p"
  shows "NormalizePostalCode U CountryUS z = z \<and>
    NormalizePostalCode U CountryUS (z @ ''-'' @ p) = z \<and>
    NormalizePostalCode U CountryUS (z @ p) = z \<and>
    ValidatePostalCode CountryUS z = None"
proof (intro conjI)
  have c: "list_all clean_byte (z @ ''-'' @ p)" "list_all clean_byte (z @ p)"
    using assms clean_digits by (auto simp: clean_byte_def ascii_spaces_def)
  have "zipFromZIP4 (z @ ''-'' @ p) = Some z" "zipFromZIP4 (z @ p) = Some z"
    using assms by (auto simp: zipFromZIP4_def nth_append)
  then show "NormalizePostalCode U CountryUS (z @ ''-'' @ p) = z"
    and "NormalizePostalCode U CountryUS (z @ p) = z"
    unfolding NormalizePostalCode_cleaned cleaned_clean [OF c(1)] cleaned_clean [OF c(2)] by simp_all
  show "NormalizePostalCode U CountryUS z = z" using assms by (simp add: normal_zip)
  show "ValidatePostalCode CountryUS z = None"
    using assms by (simp add: ValidatePostalCode_def all_digit_runes_iff)
qed

theorem zip4_normalizes_to_zip_witness:
  "\<forall>U. NormalizePostalCode U CountryUS (''11217'' @ ''-'' @ ''1234'') = ''11217''"
  using zip4_normalizes_to_zip [of "''11217''" "''1234''"] by (simp add: isDigit_byte)

text \<open>The number the first three digits of a ZIP spell.\<close>

definition prefix_number :: "string \<Rightarrow> nat" where
  "prefix_number s = (byte (s ! 0) - 48) * 100 + (byte (s ! 1) - 48) * 10 + (byte (s ! 2) - 48)"

lemma lex3: "[a, b, c] \<le> [x, y, z] \<longleftrightarrow> byte a < byte x \<or> byte a = byte x \<and>
    (byte b < byte y \<or> byte b = byte y \<and> byte c \<le> byte z)"
  by (auto simp: less_char_def le_less)

lemma lex3_number:
  fixes a b c x y z :: nat
  assumes "48 \<le> a" "a \<le> 57" "48 \<le> b" "b \<le> 57" "48 \<le> c" "c \<le> 57"
    "48 \<le> x" "x \<le> 57" "48 \<le> y" "y \<le> 57" "48 \<le> z" "z \<le> 57"
  shows "(a < x \<or> a = x \<and> (b < y \<or> b = y \<and> c \<le> z)) \<longleftrightarrow>
    (a - 48) * 100 + (b - 48) * 10 + (c - 48) \<le> (x - 48) * 100 + (y - 48) * 10 + (z - 48)"
  using assms by linarith

text \<open>On three digits the bytewise order is the numeric one.\<close>

lemma digits3_le:
  assumes "list_all isDigit [a, b, c]" and "list_all isDigit [x, y, z]"
  shows "[a, b, c] \<le> [x, y, z] \<longleftrightarrow> prefix_number [a, b, c] \<le> prefix_number [x, y, z]"
  using assms unfolding lex3 prefix_number_def
  by (subst lex3_number) (simp_all add: isDigit_byte)

text \<open>
  The string comparisons of \<open>IsMilitaryPostalCode\<close> are the reserved numeric ranges 090-098, 340
  and 962-966 of a five-digit US ZIP; such a code is in normal form and valid, so the handler's
  check after a failed lookup sees exactly what the store was asked for.
\<close>

theorem IsMilitaryPostalCode_iff:
  "IsMilitaryPostalCode country code \<longleftrightarrow>
     country = CountryUS \<and> length code = 5 \<and> list_all isDigit code \<and>
     NormalizePostalCode U country code = code \<and> ValidatePostalCode country code = None \<and>
     (let n = prefix_number code in (90 \<le> n \<and> n \<le> 98) \<or> n = 340 \<or> (962 \<le> n \<and> n \<le> 966))"
proof (cases "country = CountryUS \<and> length code = 5 \<and> list_all isDigit code")
  case True
  then obtain a b c d e where code: "code = [a, b, c, d, e]" using length_5 by blast
  have abc: "list_all isDigit [a, b, c]" using True by (simp add: code)
  note le = digits3_le [OF abc] digits3_le [OF _ abc]
  have pn: "prefix_number [a, b, c] = prefix_number code" by (simp add: prefix_number_def code)
  have lits: "prefix_number ''090'' = 90" "prefix_number ''098'' = 98" "prefix_number ''340'' = 340"
      "prefix_number ''962'' = 962" "prefix_number ''966'' = 966"
    and lit: "list_all isDigit ''090''" "list_all isDigit ''098''" "list_all isDigit ''340''"
      "list_all isDigit ''962''" "list_all isDigit ''966''"
    by (simp_all add: prefix_number_def isDigit_byte)
  have "NormalizePostalCode U country code = code \<and> ValidatePostalCode country code = None"
    using True by (auto simp: normal_zip ValidatePostalCode_def all_digit_runes_iff)
  moreover have "[a, b, c] = ''340'' \<longleftrightarrow> prefix_number code = 340"
    unfolding order.eq_iff [of "[a, b, c]"] le(1) [OF lit(3)] le(2) [OF lit(3)] lits pn by auto
  then have "IsMilitaryPostalCode country code \<longleftrightarrow>
     (let n = prefix_number code in (90 \<le> n \<and> n \<le> 98) \<or> n = 340 \<or> (962 \<le> n \<and> n \<le> 966))"
    using True le(1) [OF lit(2)] le(1) [OF lit(5)] le(2) [OF lit(1)] le(2) [OF lit(4)]
    unfolding lits pn IsMilitaryPostalCode_def all_digit_runes_iff Let_def
    by (simp add: code)
  ultimately show ?thesis using True by simp
next
  case False
  then show ?thesis by (auto simp: IsMilitaryPostalCode_def all_digit_runes_iff)
qed

end
