(* ===== verification/Mem_Store.thy ===== *)
theory Mem_Store
  imports Region_Graph Postal
begin

text \<open>
  The operations of \<open>MemStore\<close> (\<open>api/pkg/atlas/memstore.go\<close>): the four that populate a store and
  the reads behind the \<open>Store\<close> interface. An operation that can fail returns a \<open>result\<close>; each
  failing path of the source returns before the first assignment, so \<open>Inl\<close> leaves the state as it
  was. A read that ranges over a map takes the visiting order, collected in \<open>range_order\<close>.
\<close>

section \<open>Populating a store\<close>

text \<open>The loop over \<open>r.ParentSlugs\<close>: the parents' ids, or the first unknown slug.\<close>

fun parent_ids :: "(string, id64) gomap \<Rightarrow> string \<Rightarrow> string list \<Rightarrow> id64 list result" where
  "parent_ids bySlug slug [] = Inr []"
| "parent_ids bySlug slug (ps # rest) =
     (case mget bySlug ps of
        None \<Rightarrow> Inl (Errorf ''atlas: region %q references unknown parent slug %q (add the parent first)'' [slug, ps])
      | Some pid \<Rightarrow> (case parent_ids bySlug slug rest of
          Inl e \<Rightarrow> Inl e
        | Inr ids \<Rightarrow> Inr (pid # ids)))"

definition AddRegion :: "go_unicode \<Rightarrow> region \<Rightarrow> memstore \<Rightarrow> memstore result" where
  "AddRegion U r s =
     (if reg_Slug r \<noteq> to_lower U (reg_Slug r)
      then Inl (Errorf ''atlas: region slug %q must be lowercase'' [reg_Slug r])
      else case parent_ids (regionsBySlug s) (reg_Slug r) (reg_ParentSlugs r) of
          Inl e \<Rightarrow> Inl e
        | Inr parentIDs \<Rightarrow> Inr (s\<lparr>regionsByID := mput (reg_ID r) r (regionsByID s),
            regionsBySlug := mput (reg_Slug r) (reg_ID r) (regionsBySlug s),
            parents := (if parentIDs \<noteq> [] then mput (reg_ID r) parentIDs (parents s) else parents s)\<rparr>))"

definition AddRollupState :: "string \<Rightarrow> string \<Rightarrow> memstore \<Rightarrow> memstore" where
  "AddRollupState metroSlug stateSlug s =
     (case mget (regionsBySlug s) metroSlug of
        None \<Rightarrow> s
      | Some metroID \<Rightarrow> (case mget (regionsBySlug s) stateSlug of
          None \<Rightarrow> s
        | Some stateID \<Rightarrow>
            if metroID \<in> set (mget_list (rollupByState s) stateID) then s
            else s\<lparr>rollupByState :=
              mput stateID (mget_list (rollupByState s) stateID @ [metroID]) (rollupByState s)\<rparr>))"

definition AddOrg :: "org \<Rightarrow> id64 list \<Rightarrow> memstore \<Rightarrow> memstore" where
  "AddOrg o1 regionIDs s =
     s\<lparr>orgs := orgs s @ [o1\<lparr>org_Regions := [], org_MatchedRegionSlugs := []\<rparr>],
       orgRegions := mput (org_ID o1) regionIDs (orgRegions s)\<rparr>"

definition regionLabel :: "go_unicode \<Rightarrow> memstore \<Rightarrow> id64 \<Rightarrow> string" where
  "regionLabel U s i = (case mget (regionsByID s) i of
     Some r \<Rightarrow> quote U (reg_Slug r)
   | None \<Rightarrow> ''id '' @ itoa i)"

definition AddPostalCode :: "go_unicode \<Rightarrow> country \<Rightarrow> string \<Rightarrow> id64 \<Rightarrow> memstore \<Rightarrow> memstore result" where
  "AddPostalCode U country code leafRegionID s =
     (let key = postalKey U country code;
          added = Inr (s\<lparr>postalToLeaf := mput key leafRegionID (postalToLeaf s)\<rparr>)
      in case mget (postalToLeaf s) key of
          None \<Rightarrow> added
        | Some prev \<Rightarrow>
            if prev \<noteq> leafRegionID
            then Inl (Errorf ''atlas: duplicate postal code %s %s: already mapped to region %s, cannot also map to %s''
              [country, NormalizePostalCode U country code, regionLabel U s prev, regionLabel U s leafRegionID])
            else added)"

section \<open>Reads\<close>

text \<open>One possible order of the \<open>range\<close> loops of a read over the regions and the parents map.\<close>

record range_order =
  ro_regions :: "(id64 \<times> region) list"
  ro_parents :: "(id64 \<times> id64 list) list"
  ro_slugs :: "(string \<times> id64) list"

definition range_of :: "range_order \<Rightarrow> memstore \<Rightarrow> bool" where
  "range_of ro s \<longleftrightarrow> ranges_over (ro_regions ro) (regionsByID s) \<and> ranges_over (ro_parents ro) (parents s) \<and>
     ranges_over (ro_slugs ro) (regionsBySlug s)"

definition Slugs :: "range_order \<Rightarrow> memstore \<Rightarrow> string list" where
  "Slugs ro s = map fst (ro_slugs ro)"

definition ResolveLeafRegion :: "go_unicode \<Rightarrow> memstore \<Rightarrow> country \<Rightarrow> string \<Rightarrow> region result" where
  "ResolveLeafRegion U s country postalCode =
     (case mget (postalToLeaf s) (postalKey U country postalCode) of
        None \<Rightarrow> Inl (Sentinel ErrPostalCodeNotFound)
      | Some i \<Rightarrow> (case mget (regionsByID s) i of
          None \<Rightarrow> Inl (Sentinel ErrPostalCodeNotFound)
        | Some r \<Rightarrow> Inr r))"

text \<open>\<open>s.regionsByID[id]\<close> without comma-ok: the zero \<open>Region\<close> for a missing id.\<close>

definition zero_region :: region where
  "zero_region = \<lparr>reg_ID = 0, reg_Kind = [], reg_Name = [], reg_Slug = [], reg_Country = [],
     reg_ScopeTier = [], reg_ParentSlugs = [], reg_SortPriority = 0, reg_RollupStates = []\<rparr>"

definition region_at :: "memstore \<Rightarrow> id64 \<Rightarrow> region" where
  "region_at s i = (case mget (regionsByID s) i of None \<Rightarrow> zero_region | Some r \<Rightarrow> r)"

definition AncestorRegions :: "memstore \<Rightarrow> id64 \<Rightarrow> region list" where
  "AncestorRegions s leafRegionID = map (region_at s) (bfsCollectIDs (regionsByID s) leafRegionID (parents s))"

definition nearestBrowseableAncestorSlug :: "memstore \<Rightarrow> id64 \<Rightarrow> string" where
  "nearestBrowseableAncestorSlug s rootID =
     (case bfsUpwardFirstMatch s rootID (\<lambda>r. IsDefaultBrowseKind (reg_Kind r)) of
        Some r \<Rightarrow> reg_Slug r
      | None \<Rightarrow> [])"

text \<open>One iteration of \<open>listRegionsLocked\<close>: the summary of a region, or nothing.\<close>

definition region_summary_of :: "memstore \<Rightarrow> (id64, id64 list) gomap \<Rightarrow> (id64, id64 list) gomap \<Rightarrow>
    id64 \<times> region \<Rightarrow> region_summary option" where
  "region_summary_of s childrenOf orgsByRegion e =
     (let i = fst e; r = snd e in
      if \<not> IsDefaultBrowseKind (reg_Kind r) \<or> IsNational r then None
      else let count = countDistinctOrgs orgsByRegion (bfsCollectIDs (regionsByID s) i childrenOf)
        in if count = 0 then None
           else Some \<lparr>rs_Region = r, rs_OrgCount = count,
             rs_DirectOrgCount = length (mget_list orgsByRegion i),
             rs_BrowseParentSlug = nearestBrowseableAncestorSlug s i\<rparr>)"

definition summary_less :: "region_summary \<Rightarrow> region_summary \<Rightarrow> bool" where
  "summary_less a b =
     (if rs_OrgCount a \<noteq> rs_OrgCount b then rs_OrgCount a > rs_OrgCount b
      else reg_Name (rs_Region a) < reg_Name (rs_Region b))"

definition listRegionsLocked :: "range_order \<Rightarrow> memstore \<Rightarrow> region_summary list" where
  "listRegionsLocked ro s =
     sort_slice summary_less
       (collect (region_summary_of s (buildChildrenOf (ro_parents ro)) (buildOrgsByRegion s)) (ro_regions ro))"

definition ListRegions :: "range_order \<Rightarrow> memstore \<Rightarrow> region_summary list" where
  "ListRegions ro s = listRegionsLocked ro s"

definition ResolveRegionBySlug :: "go_unicode \<Rightarrow> memstore \<Rightarrow> string \<Rightarrow> region result" where
  "ResolveRegionBySlug U s slug =
     (case mget (regionsBySlug s) (to_lower U slug) of
        None \<Rightarrow> Inl (Sentinel ErrRegionNotFound)
      | Some i \<Rightarrow> (case mget (regionsByID s) i of
          None \<Rightarrow> Inl (Sentinel ErrRegionNotFound)
        | Some r \<Rightarrow> if IsNational r then Inl (Sentinel ErrRegionNotFound) else Inr r))"

text \<open>The comma-ok lookup that also drops national rows.\<close>

definition live_region :: "memstore \<Rightarrow> id64 \<Rightarrow> region option" where
  "live_region s i = (case mget (regionsByID s) i of
     None \<Rightarrow> None | Some r \<Rightarrow> if IsNational r then None else Some r)"

definition DescendantRegions :: "range_order \<Rightarrow> memstore \<Rightarrow> id64 \<Rightarrow> region list" where
  "DescendantRegions ro s focusRegionID =
     (case live_region s focusRegionID of
        None \<Rightarrow> []
      | Some focus \<Rightarrow> collect (live_region s) (descendantRegionIDs s (ro_parents ro) focusRegionID))"

definition id_less :: "region \<Rightarrow> region \<Rightarrow> bool" where
  "id_less a b \<longleftrightarrow> reg_ID a < reg_ID b"

definition RollupMetrosFor :: "memstore \<Rightarrow> id64 \<Rightarrow> region list" where
  "RollupMetrosFor s stateRegionID =
     sort_slice id_less (collect (live_region s) (mget_list (rollupByState s) stateRegionID))"

definition regionsForOrg :: "memstore \<Rightarrow> id64 \<Rightarrow> region list" where
  "regionsForOrg s orgID =
     sort_slice id_less (collect (mget (regionsByID s)) (mget_list (orgRegions s) orgID))"

fun find_org :: "string \<Rightarrow> org list \<Rightarrow> org option" where
  "find_org slug [] = None"
| "find_org slug (o1 # os) = (if org_Slug o1 \<noteq> slug then find_org slug os else Some o1)"

definition GetOrgBySlug :: "go_unicode \<Rightarrow> memstore \<Rightarrow> string \<Rightarrow> org result" where
  "GetOrgBySlug U s slug =
     (case find_org (to_lower U slug) (orgs s) of
        None \<Rightarrow> Inl (Sentinel ErrOrgNotFound)
      | Some o1 \<Rightarrow> Inr (o1\<lparr>org_Regions := regionsForOrg s (org_ID o1), org_MatchedRegionSlugs := []\<rparr>))"

definition hasNonNational :: "memstore \<Rightarrow> org \<Rightarrow> bool" where
  "hasNonNational s o1 \<longleftrightarrow>
     list_ex (\<lambda>rid. live_region s rid \<noteq> None) (mget_list (orgRegions s) (org_ID o1))"

definition recent_less :: "org \<Rightarrow> org \<Rightarrow> bool" where
  "recent_less a b =
     (if org_AddedAt a \<noteq> org_AddedAt b then org_AddedAt a > org_AddedAt b else org_ID a > org_ID b)"

definition recent_candidates :: "memstore \<Rightarrow> org list" where
  "recent_candidates s =
     map (\<lambda>o1. o1\<lparr>org_Regions := regionsForOrg s (org_ID o1), org_MatchedRegionSlugs := []\<rparr>)
       (filter (hasNonNational s) (orgs s))"

definition ListRecent :: "memstore \<Rightarrow> org list" where
  "ListRecent s = take 10 (sort_slice recent_less (recent_candidates s))"

definition OrgsForRegions :: "memstore \<Rightarrow> id64 list \<Rightarrow> org list" where
  "OrgsForRegions s regionIDs =
     (if regionIDs = [] then []
      else map (\<lambda>o1. o1\<lparr>org_Regions := regionsForOrg s (org_ID o1)\<rparr>)
        (filter (\<lambda>o1. list_ex (\<lambda>rid. rid \<in> set regionIDs) (mget_list (orgRegions s) (org_ID o1))) (orgs s)))"

text \<open>
  \<open>Stats\<close>. The countries of an org are the set of the non-blank countries of its non-national
  regions; \<open>m[c]++\<close> on a counting map starts from 0.
\<close>

definition bump :: "'k \<Rightarrow> ('k, nat) gomap \<Rightarrow> ('k, nat) gomap" where
  "bump k m = mput k (case mget m k of None \<Rightarrow> 1 | Some n \<Rightarrow> n + 1) m"

definition mcount :: "('k, nat) gomap \<Rightarrow> 'k \<Rightarrow> nat" where
  "mcount m k = (case mget m k of None \<Rightarrow> 0 | Some n \<Rightarrow> n)"

definition org_countries :: "memstore \<Rightarrow> org \<Rightarrow> country list" where
  "org_countries s o1 = remdups (filter (\<lambda>c. c \<noteq> [])
     (map reg_Country (collect (live_region s) (mget_list (orgRegions s) (org_ID o1)))))"

fun stats_orgs_loop :: "memstore \<Rightarrow> org list \<Rightarrow> (country, nat) gomap \<times> nat \<Rightarrow> (country, nat) gomap \<times> nat" where
  "stats_orgs_loop s [] acc = acc"
| "stats_orgs_loop s (o1 # os) (byCountry, n) =
     (if \<not> hasNonNational s o1 then stats_orgs_loop s os (byCountry, n)
      else stats_orgs_loop s os (fold bump (org_countries s o1) byCountry, n + 1))"

fun stats_regions_loop :: "region_summary list \<Rightarrow> (country, nat) gomap \<Rightarrow> (country, nat) gomap" where
  "stats_regions_loop [] m = m"
| "stats_regions_loop (x # xs) m =
     stats_regions_loop xs (if reg_Country (rs_Region x) \<noteq> [] then bump (reg_Country (rs_Region x)) m else m)"

definition country_less :: "country \<Rightarrow> country \<Rightarrow> bool" where
  "country_less a b \<longleftrightarrow> a < b"

definition Stats :: "range_order \<Rightarrow> memstore \<Rightarrow> stats" where
  "Stats ro s =
     (let (orgsByCountry, totalOrgs) = stats_orgs_loop s (orgs s) ([], 0);
          browse = listRegionsLocked ro s;
          regionsByCountry = stats_regions_loop browse [];
          totalRegions = length (filter (\<lambda>e. reg_ScopeTier (snd e) \<noteq> ScopeNational) (ro_regions ro));
          codes = sort_slice country_less (remdups (map fst orgsByCountry @ map fst regionsByCountry))
      in \<lparr>st_TotalOrgCount = totalOrgs, st_TotalRegionCount = totalRegions,
          st_BrowseRegionCount = length browse,
          st_ByCountry = map (\<lambda>c. \<lparr>cs_Country = c, cs_OrgCount = mcount orgsByCountry c,
            cs_RegionCount = mcount regionsByCountry c\<rparr>) codes\<rparr>)"

lemma mcount_bump: "mcount (bump k m) c = mcount m c + (if k = c then 1 else 0)"
  by (auto simp: mcount_def bump_def split: option.splits)

lemmas [store_defs] = AddRegion_def AddRollupState_def AddOrg_def AddPostalCode_def

section \<open>The store invariant\<close>

definition registered :: "memstore \<Rightarrow> id64 \<Rightarrow> bool" where
  "registered s i \<longleftrightarrow> i \<in> mkeys (regionsByID s)"

definition maps_wf :: "memstore \<Rightarrow> bool" where
  "maps_wf s \<longleftrightarrow> wf_map (regionsByID s) \<and> wf_map (regionsBySlug s) \<and> wf_map (parents s) \<and>
     wf_map (orgRegions s) \<and> wf_map (postalToLeaf s) \<and> wf_map (rollupByState s)"

definition store_inv :: "go_unicode \<Rightarrow> memstore \<Rightarrow> bool" where
  "store_inv U s \<longleftrightarrow> maps_wf s \<and>
     (\<forall>i r. mget (regionsByID s) i = Some r \<longrightarrow> reg_ID r = i \<and> to_lower U (reg_Slug r) = reg_Slug r) \<and>
     (\<forall>sl i. mget (regionsBySlug s) sl = Some i \<longrightarrow> registered s i \<and> to_lower U sl = sl) \<and>
     (\<forall>i. \<forall>p\<in>set (mget_list (parents s) i). registered s i \<and> registered s p) \<and>
     (\<forall>i. \<forall>m\<in>set (mget_list (rollupByState s) i). registered s i \<and> registered s m) \<and>
     (\<forall>i. distinct (mget_list (rollupByState s) i)) \<and>
     (\<forall>o1\<in>set (orgs s). org_Regions o1 = [] \<and> org_MatchedRegionSlugs o1 = [])"

lemma store_invD:
  assumes "store_inv U s"
  shows inv_region_ID: "mget (regionsByID s) i = Some r \<Longrightarrow> reg_ID r = i"
    and inv_region_lower: "mget (regionsByID s) i = Some r \<Longrightarrow> to_lower U (reg_Slug r) = reg_Slug r"
    and inv_slug: "mget (regionsBySlug s) sl = Some i \<Longrightarrow> registered s i"
    and inv_slug_lower: "mget (regionsBySlug s) sl = Some i \<Longrightarrow> to_lower U sl = sl"
    and inv_parent: "p \<in> set (mget_list (parents s) i) \<Longrightarrow> registered s i \<and> registered s p"
    and inv_maps: "maps_wf s"
  using assms unfolding store_inv_def by blast+

lemma store_inv_New [inv_intros]: "store_inv U NewMemStore"
  by (simp add: store_inv_def maps_wf_def NewMemStore_def)

lemma parent_ids_Inr:
  "parent_ids bs slug ps = Inr ids \<longleftrightarrow> map (mget bs) ps = map Some ids"
proof (induction ps arbitrary: ids)
  case (Cons p ps)
  have "parent_ids bs slug (p # ps) = Inr ids \<longleftrightarrow>
      (\<exists>i is. ids = i # is \<and> mget bs p = Some i \<and> parent_ids bs slug ps = Inr is)"
    by (auto split: option.splits sum.splits)
  also have "\<dots> \<longleftrightarrow> (\<exists>i is. ids = i # is \<and> mget bs p = Some i \<and> map (mget bs) ps = map Some is)"
    unfolding Cons.IH ..
  also have "\<dots> \<longleftrightarrow> map (mget bs) (p # ps) = map Some ids" by (cases ids) auto
  finally show ?case .
qed auto

lemma parent_ids_Inl:
  "parent_ids bs slug ps = Inl e \<Longrightarrow> \<exists>p\<in>set ps. mget bs p = None \<and>
     e = Errorf ''atlas: region %q references unknown parent slug %q (add the parent first)'' [slug, p]"
  by (induction ps) (auto split: option.splits sum.splits)

lemma AddRegion_Inr:
  "AddRegion U r s = Inr s' \<longleftrightarrow>
     to_lower U (reg_Slug r) = reg_Slug r \<and>
     (\<exists>ids. map (mget (regionsBySlug s)) (reg_ParentSlugs r) = map Some ids \<and>
        s' = s\<lparr>regionsByID := mput (reg_ID r) r (regionsByID s),
            regionsBySlug := mput (reg_Slug r) (reg_ID r) (regionsBySlug s),
            parents := (if ids \<noteq> [] then mput (reg_ID r) ids (parents s) else parents s)\<rparr>)"
  unfolding parent_ids_Inr [where slug = "reg_Slug r", symmetric] by (auto simp: AddRegion_def split: sum.splits)

lemma map_mget_in: "map (mget m) ks = map Some vs \<Longrightarrow> v \<in> set vs \<Longrightarrow> \<exists>k\<in>set ks. mget m k = Some v"
  by (metis (mono_tags, opaque_lifting) image_iff list.set_map)

lemma store_inv_AddRegion [inv_intros]:
  assumes inv: "store_inv U s" and add: "AddRegion U r s = Inr s'"
  shows "store_inv U s'"
proof -
  obtain ids where low: "to_lower U (reg_Slug r) = reg_Slug r"
    and ids: "map (mget (regionsBySlug s)) (reg_ParentSlugs r) = map Some ids"
    and s': "s' = s\<lparr>regionsByID := mput (reg_ID r) r (regionsByID s),
            regionsBySlug := mput (reg_Slug r) (reg_ID r) (regionsBySlug s),
            parents := (if ids \<noteq> [] then mput (reg_ID r) ids (parents s) else parents s)\<rparr>"
    using add unfolding AddRegion_Inr by blast
  have reg: "registered s p" if "p \<in> set ids" for p
    using map_mget_in [OF ids that] inv_slug [OF inv] by blast
  have mono: "registered s' i \<longleftrightarrow> i = reg_ID r \<or> registered s i" for i
    unfolding s' registered_def by simp
  show ?thesis
    using inv low reg unfolding store_inv_def mono
    by (simp add: s' maps_wf_def)
qed

lemma store_inv_AddRollupState [inv_intros]:
  "store_inv U s \<Longrightarrow> store_inv U (AddRollupState m st s)"
  unfolding store_inv_def AddRollupState_def
  by (simp add: maps_wf_def registered_def split: option.splits)

lemma store_inv_AddOrg [inv_intros]: "store_inv U s \<Longrightarrow> store_inv U (AddOrg o1 ids s)"
  unfolding store_inv_def AddOrg_def by (simp add: maps_wf_def registered_def)

lemma AddPostalCode_Inr:
  "AddPostalCode U c code leaf s = Inr s' \<longleftrightarrow>
     (mget (postalToLeaf s) (postalKey U c code) \<in> {None, Some leaf} \<and>
      s' = s\<lparr>postalToLeaf := mput (postalKey U c code) leaf (postalToLeaf s)\<rparr>)"
  by (auto simp: AddPostalCode_def Let_def split: option.splits if_splits)

lemma store_inv_AddPostalCode [inv_intros]:
  "store_inv U s \<Longrightarrow> AddPostalCode U c code leaf s = Inr s' \<Longrightarrow> store_inv U s'"
  unfolding store_inv_def AddPostalCode_Inr by (auto simp: maps_wf_def registered_def)

text \<open>The states a program can build: from the empty store by the four operations.\<close>

inductive populated :: "go_unicode \<Rightarrow> memstore \<Rightarrow> bool" for U where
  new: "populated U NewMemStore"
| region: "populated U s \<Longrightarrow> AddRegion U r s = Inr s' \<Longrightarrow> populated U s'"
| rollup: "populated U s \<Longrightarrow> populated U (AddRollupState m st s)"
| org: "populated U s \<Longrightarrow> populated U (AddOrg o1 ids s)"
| postal: "populated U s \<Longrightarrow> AddPostalCode U c code leaf s = Inr s' \<Longrightarrow> populated U s'"

lemma populated_inv: "populated U s \<Longrightarrow> store_inv U s"
  by (induction rule: populated.induct) (auto intro: inv_intros)

section \<open>Slugs and postal codes round-trip\<close>

text \<open>
  A region just added is what its slug resolves to, in any letter case, unless it is
  national, and every other slug resolves as before when the region's id is new.
\<close>

theorem AddRegion_ResolveRegionBySlug:
  assumes "AddRegion U r s = Inr s'" and "\<not> registered s (reg_ID r)" and "store_inv U s"
  shows "ResolveRegionBySlug U s' slug =
    (if to_lower U slug = reg_Slug r
     then (if IsNational r then Inl (Sentinel ErrRegionNotFound) else Inr r)
     else ResolveRegionBySlug U s slug)"
proof -
  from assms(1) have maps: "regionsByID s' = mput (reg_ID r) r (regionsByID s)"
      "regionsBySlug s' = mput (reg_Slug r) (reg_ID r) (regionsBySlug s)"
    unfolding AddRegion_Inr by auto
  have other: "i \<noteq> reg_ID r" if "mget (regionsBySlug s) sl = Some i" for sl i
    using inv_slug [OF assms(3) that] assms(2) by auto
  show ?thesis
  proof (cases "mget (regionsBySlug s) (to_lower U slug)")
    case None
    then show ?thesis by (simp add: ResolveRegionBySlug_def maps)
  next
    case (Some i)
    from Some other [OF Some] show ?thesis by (simp add: ResolveRegionBySlug_def maps)
  qed
qed


section \<open>Ancestors and descendants\<close>

lemma live_region_iff: "live_region s i = Some r \<longleftrightarrow> mget (regionsByID s) i = Some r \<and> \<not> IsNational r"
  by (auto simp: live_region_def split: option.splits)

lemma live_region_live: "live (regionsByID s) i \<longleftrightarrow> (\<exists>r. live_region s i = Some r)"
  by (auto simp: live_def live_region_iff)

text \<open>\<open>ancestor s x y\<close>: \<open>y\<close> is \<open>x\<close> or above it, over non-national regions only.\<close>

definition ancestor :: "memstore \<Rightarrow> id64 \<Rightarrow> id64 \<Rightarrow> bool" where
  "ancestor s = reaches (regionsByID s) (parents s)"

lemma ancestor_live: "ancestor s x y \<Longrightarrow> (\<exists>r. live_region s x = Some r) \<and> (\<exists>r. live_region s y = Some r)"
  unfolding ancestor_def by (auto dest: reaches_live simp: live_region_live)

lemma ancestor_trans: "ancestor s x y \<Longrightarrow> ancestor s y z \<Longrightarrow> ancestor s x z"
  unfolding ancestor_def reaches_def by (meson rtranclp_trans)

lemma ancestor_refl: "live_region s x = Some r \<Longrightarrow> ancestor s x x"
  unfolding ancestor_def by (rule reaches_refl) (simp add: live_region_live)

lemma map_region_at: 
  assumes "\<And>i. i \<in> set ids \<Longrightarrow> live (regionsByID s) i"
  shows "map (region_at s) ids = collect (live_region s) ids"
  using assms by (induction ids) (fastforce simp: region_at_def live_region_def live_def)+

lemma AncestorRegions_collect:
  "AncestorRegions s a = collect (live_region s) (bfsCollectIDs (regionsByID s) a (parents s))"
  unfolding AncestorRegions_def
  by (rule map_region_at) (auto simp: bfsCollectIDs_set dest: reaches_live)

lemma collect_live_ids:
  assumes "store_inv U s" and "\<And>i. i \<in> set ids \<Longrightarrow> live (regionsByID s) i"
  shows "map reg_ID (collect (live_region s) ids) = ids"
  using assms(2)
proof (induction ids)
  case (Cons i ids)
  then obtain r where r: "live_region s i = Some r" unfolding live_region_live by force
  then have "reg_ID r = i" using inv_region_ID [OF assms(1)] by (simp add: live_region_iff)
  with Cons r show ?case by simp
qed simp

lemma AncestorRegions_ids:
  "store_inv U s \<Longrightarrow> map reg_ID (AncestorRegions s a) = bfsCollectIDs (regionsByID s) a (parents s)"
  unfolding AncestorRegions_collect
  by (rule collect_live_ids) (auto simp: bfsCollectIDs_set dest: reaches_live)

lemma set_AncestorRegions:
  "set (AncestorRegions s a) = {r. \<exists>i. ancestor s a i \<and> live_region s i = Some r}"
  unfolding AncestorRegions_collect ancestor_def by (auto simp: set_collect bfsCollectIDs_set)

lemma AncestorRegions_contract:
  assumes "store_inv U s"
  shows "set (AncestorRegions s a) = {r. \<exists>i. ancestor s a i \<and> live_region s i = Some r} \<and>
    distinct (map reg_ID (AncestorRegions s a)) \<and>
    nearest_first (regionsByID s) (parents s) a (map reg_ID (AncestorRegions s a)) \<and>
    (case live_region s a of
       None \<Rightarrow> AncestorRegions s a = []
     | Some leaf \<Rightarrow> AncestorRegions s a \<noteq> [] \<and> hd (AncestorRegions s a) = leaf)"
proof (intro conjI)
  show "case live_region s a of None \<Rightarrow> AncestorRegions s a = []
     | Some leaf \<Rightarrow> AncestorRegions s a \<noteq> [] \<and> hd (AncestorRegions s a) = leaf"
  proof (cases "live_region s a")
    case None
    then show ?thesis
      by (simp add: AncestorRegions_def bfsCollectIDs_dead live_region_live)
  next
    case (Some leaf)
    then have "live (regionsByID s) a" by (auto simp: live_region_live)
    then obtain more where "bfsCollectIDs (regionsByID s) a (parents s) = a # more"
      using bfsCollectIDs_hd by blast
    with Some show ?thesis by (simp add: AncestorRegions_collect)
  qed
qed (simp_all add: set_AncestorRegions AncestorRegions_ids [OF assms] bfsCollectIDs_distinct
    bfsCollectIDs_nearest_first)

text \<open>
  C29. \<open>AncestorRegions\<close> lists exactly the leaf and its ancestors reachable over non-national
  regions, each once, nearest first, the leaf in front; a national or unknown leaf has none.
\<close>

theorem AncestorRegions_spec:
  assumes "store_inv U s"
  shows "set (AncestorRegions s a) = {r. \<exists>i. ancestor s a i \<and> live_region s i = Some r} \<and>
    distinct (map reg_ID (AncestorRegions s a)) \<and>
    nearest_first (regionsByID s) (parents s) a (map reg_ID (AncestorRegions s a)) \<and>
    (case live_region s a of
       None \<Rightarrow> AncestorRegions s a = []
     | Some leaf \<Rightarrow> AncestorRegions s a \<noteq> [] \<and> hd (AncestorRegions s a) = leaf)"
  by (rule AncestorRegions_contract) (rule assms)

lemma children_reaches:
  assumes "store_inv U s" and "range_of ro s"
  shows "reaches (regionsByID s) (buildChildrenOf (ro_parents ro)) x y \<longleftrightarrow> ancestor s y x"
  unfolding ancestor_def
  using assms buildChildrenOf_converse [of "ro_parents ro" "parents s"] inv_maps [OF assms(1)]
  by (intro reaches_converse) (auto simp: range_of_def maps_wf_def)

lemma set_DescendantRegions:
  assumes "store_inv U s" and "range_of ro s"
  shows "set (DescendantRegions ro s a) = {r. \<exists>i. ancestor s i a \<and> live_region s i = Some r}"
proof (cases "live_region s a")
  case None
  then show ?thesis using ancestor_live [of s _ a] by (auto simp: DescendantRegions_def)
next
  case (Some focus)
  then show ?thesis
    by (auto simp: DescendantRegions_def set_collect descendantRegionIDs_def bfsCollectIDs_set
        children_reaches [OF assms])
qed

text \<open>
  Descendants are the converse of ancestors, whatever the order of the map range: a region
  is listed below another exactly when the other is listed above it, and no region twice.
\<close>

theorem DescendantRegions_converse:
  assumes "store_inv U s" and "range_of ro s" and "live_region s x = Some rx" and "live_region s y = Some ry"
  shows "(ry \<in> set (DescendantRegions ro s x) \<longleftrightarrow> rx \<in> set (AncestorRegions s y)) \<and>
    distinct (map reg_ID (DescendantRegions ro s x))"
proof
  have "i = y" if "live_region s i = Some ry" for i
    using that assms(4) inv_region_ID [OF assms(1)] by (auto simp: live_region_iff)
  moreover have "i = x" if "live_region s i = Some rx" for i
    using that assms(3) inv_region_ID [OF assms(1)] by (auto simp: live_region_iff)
  ultimately show "ry \<in> set (DescendantRegions ro s x) \<longleftrightarrow> rx \<in> set (AncestorRegions s y)"
    using assms(3,4) unfolding set_DescendantRegions [OF assms(1,2)] set_AncestorRegions by blast
  have "map reg_ID (DescendantRegions ro s x) =
      bfsCollectIDs (regionsByID s) x (buildChildrenOf (ro_parents ro))"
    using assms(3) unfolding DescendantRegions_def descendantRegionIDs_def
    by (simp, intro collect_live_ids [OF assms(1)]) (auto simp: bfsCollectIDs_set dest: reaches_live)
  then show "distinct (map reg_ID (DescendantRegions ro s x))" by (simp add: bfsCollectIDs_distinct)
qed

end
