(* ===== verification/Mem_Reads.thy ===== *)
theory Mem_Reads
  imports Mem_Store
begin

text \<open>
  What the listing reads of \<open>MemStore\<close> return: the orgs attached to a set of regions, the browse
  list, the recent orgs and the statistics. The less-functions of the sorts are interpreted as
  strict weak orders, so that the sort lemmas apply to them.
\<close>

section \<open>The less-functions\<close>

interpretation id_order: weak_order id_less
  unfolding id_less_def by (rule weak_order_key)

interpretation summary_order: weak_order summary_less
  unfolding summary_less_def by (rule weak_order_then_desc) (rule weak_order_key)

interpretation recent_order: weak_order recent_less
  unfolding recent_less_def by (rule weak_order_then_desc) (rule weak_order_key_desc)

interpretation country_order: total_weak_order country_less
  unfolding country_less_def by unfold_locales auto

section \<open>Orgs and their regions\<close>

lemma set_regionsForOrg:
  "set (regionsForOrg s oid) =
     {r. \<exists>rid\<in>set (mget_list (orgRegions s) oid). mget (regionsByID s) rid = Some r}"
  by (auto simp: regionsForOrg_def set_collect)

lemma regionsForOrg_sorted: "sorted (map reg_ID (regionsForOrg s oid))"
  using id_order.sort_ordered [of "collect (mget (regionsByID s)) (mget_list (orgRegions s) oid)"]
  unfolding regionsForOrg_def sorted_map id_less_def by (simp add: not_less)

definition hydrated :: "memstore \<Rightarrow> org \<Rightarrow> org" where
  "hydrated s o1 = o1\<lparr>org_Regions := regionsForOrg s (org_ID o1)\<rparr>"

lemma set_OrgsForRegions:
  "set (OrgsForRegions s ids) =
     hydrated s ` {o1 \<in> set (orgs s). \<exists>rid\<in>set ids. rid \<in> set (mget_list (orgRegions s) (org_ID o1))}"
  by (auto simp: OrgsForRegions_def hydrated_def list_ex_iff)

text \<open>
  \<open>OrgsForRegions\<close> returns exactly the orgs attached to one of the regions, in the store's
  order, each with all its registered regions in ascending order of id.
\<close>

lemma OrgsForRegions_spec:
  "OrgsForRegions s ids =
     map (hydrated s) (filter (\<lambda>o1. \<exists>rid\<in>set ids. serves s (org_ID o1) rid) (orgs s)) \<and>
   list_all (\<lambda>o1. sorted (map reg_ID (org_Regions o1)) \<and>
     set (org_Regions o1) =
       {r. \<exists>rid\<in>set (mget_list (orgRegions s) (org_ID o1)). mget (regionsByID s) rid = Some r})
     (OrgsForRegions s ids)"
proof -
  have "filter (\<lambda>o1. list_ex (\<lambda>rid. rid \<in> set ids) (mget_list (orgRegions s) (org_ID o1))) (orgs s) =
      filter (\<lambda>o1. \<exists>rid\<in>set ids. serves s (org_ID o1) rid) (orgs s)"
    by (rule filter_cong) (auto simp: serves_def list_ex_iff)
  then have "OrgsForRegions s ids =
     map (hydrated s) (filter (\<lambda>o1. \<exists>rid\<in>set ids. serves s (org_ID o1) rid) (orgs s))"
    by (simp add: OrgsForRegions_def hydrated_def [abs_def])
  then show ?thesis
    by (simp add: list_all_iff hydrated_def regionsForOrg_sorted set_regionsForOrg)
qed

section \<open>The browse list\<close>

text \<open>The orgs of a region's subtree.\<close>

definition subtree_orgs :: "memstore \<Rightarrow> id64 \<Rightarrow> id64 set" where
  "subtree_orgs s i = {oid. \<exists>rid. ancestor s rid i \<and> serves s oid rid}"

lemma finite_serving: "finite {oid. serves s oid rid}"
  by (rule finite_subset [of _ "org_ID ` set (orgs s)"]) (auto simp: serves_def)

lemma finite_subtree_orgs: "finite (subtree_orgs s i)"
  by (rule finite_subset [of _ "org_ID ` set (orgs s)"]) (auto simp: subtree_orgs_def serves_def)

definition browse_summary :: "memstore \<Rightarrow> id64 \<Rightarrow> region \<Rightarrow> region_summary" where
  "browse_summary s i r =
     \<lparr>rs_Region = r, rs_OrgCount = card (subtree_orgs s i),
       rs_DirectOrgCount = card {oid. serves s oid i},
       rs_BrowseParentSlug = nearestBrowseableAncestorSlug s i\<rparr>"

lemma region_summary_of_spec:
  assumes "store_inv U s" and "range_of ro s"
  shows "region_summary_of s (buildChildrenOf (ro_parents ro)) (buildOrgsByRegion s) (i, r) =
    (if IsDefaultBrowseKind (reg_Kind r) \<and> \<not> IsNational r \<and> subtree_orgs s i \<noteq> {}
     then Some (browse_summary s i r)
     else None)"
proof -
  have "{oid. \<exists>rid\<in>set (bfsCollectIDs (regionsByID s) i (buildChildrenOf (ro_parents ro))). serves s oid rid} =
      subtree_orgs s i"
    by (auto simp: subtree_orgs_def bfsCollectIDs_set children_reaches [OF assms])
  then have "countDistinctOrgs (buildOrgsByRegion s)
      (bfsCollectIDs (regionsByID s) i (buildChildrenOf (ro_parents ro))) = card (subtree_orgs s i)"
    by (simp add: countDistinctOrgs_card)
  moreover have "length (mget_list (buildOrgsByRegion s) i) = card {oid. serves s oid i}"
    using distinct_card [OF buildOrgsByRegion_distinct, of s i] by (simp add: buildOrgsByRegion_set)
  ultimately show ?thesis
    by (simp add: region_summary_of_def browse_summary_def Let_def finite_subtree_orgs)
qed

text \<open>
  C31. The browse list holds exactly the non-national browse-kind regions with an org in their
  subtree, once each; it counts every org of the subtree once, counts the orgs attached directly,
  and is ordered by count, largest first, then by name.
\<close>

theorem ListRegions_spec:
  assumes "store_inv U s" and "range_of ro s"
  shows "set (ListRegions ro s) =
      {browse_summary s i r | i r.
       live_region s i = Some r \<and> IsDefaultBrowseKind (reg_Kind r) \<and> subtree_orgs s i \<noteq> {}} \<and>
    distinct (map (reg_ID \<circ> rs_Region) (ListRegions ro s)) \<and>
    sorted_wrt (\<lambda>a b. \<not> summary_less b a) (ListRegions ro s)"
proof (intro conjI)
  let ?f = "region_summary_of s (buildChildrenOf (ro_parents ro)) (buildOrgsByRegion s)"
  have ro: "ranges_over (ro_regions ro) (regionsByID s)" and wf: "wf_map (regionsByID s)"
    using assms inv_maps [OF assms(1)] by (auto simp: range_of_def maps_wf_def)
  have entries: "e \<in> set (ro_regions ro) \<longleftrightarrow> mget (regionsByID s) (fst e) = Some (snd e)" for e
    using ranges_over_set [OF ro] set_mget [OF wf, of "fst e" "snd e"] by simp
  have sum: "?f e = Some x \<longleftrightarrow> IsDefaultBrowseKind (reg_Kind (snd e)) \<and> \<not> IsNational (snd e) \<and>
      subtree_orgs s (fst e) \<noteq> {} \<and> x = browse_summary s (fst e) (snd e)" for e x
    using region_summary_of_spec [OF assms, of "fst e" "snd e"] by auto
  show "set (ListRegions ro s) = {browse_summary s i r | i r.
       live_region s i = Some r \<and> IsDefaultBrowseKind (reg_Kind r) \<and> subtree_orgs s i \<noteq> {}}"
  proof (rule set_eqI)
    fix x
    have "x \<in> set (ListRegions ro s) \<longleftrightarrow> (\<exists>e. e \<in> set (ro_regions ro) \<and> ?f e = Some x)"
      by (simp add: ListRegions_def listRegionsLocked_def set_collect Bex_def)
    also have "\<dots> \<longleftrightarrow> (\<exists>i r. mget (regionsByID s) i = Some r \<and> IsDefaultBrowseKind (reg_Kind r) \<and>
        \<not> IsNational r \<and> subtree_orgs s i \<noteq> {} \<and> x = browse_summary s i r)"
      unfolding entries sum by simp
    finally show "x \<in> set (ListRegions ro s) \<longleftrightarrow> x \<in> {browse_summary s i r | i r.
       live_region s i = Some r \<and> IsDefaultBrowseKind (reg_Kind r) \<and> subtree_orgs s i \<noteq> {}}"
      unfolding live_region_iff by blast
  qed
  have "distinct (map (reg_ID \<circ> rs_Region) (collect ?f (ro_regions ro)))"
  proof (rule distinct_collect)
    show "distinct (map fst (ro_regions ro))"
      using ranges_over_wf [OF ro wf] by (simp add: wf_map_def)
    show "(reg_ID \<circ> rs_Region) x = fst e" if "e \<in> set (ro_regions ro)" "?f e = Some x" for e x
      using that inv_region_ID [OF assms(1)] by (simp add: entries sum browse_summary_def)
  qed
  then show "distinct (map (reg_ID \<circ> rs_Region) (ListRegions ro s))"
    by (simp add: ListRegions_def listRegionsLocked_def)
  show "sorted_wrt (\<lambda>a b. \<not> summary_less b a) (ListRegions ro s)"
    unfolding ListRegions_def listRegionsLocked_def by (rule summary_order.sort_ordered)
qed

text \<open>
  The browse parent of a region is the nearest browse-kind region above it, the one with the
  least slug where several are equally near, and the empty slug when there is none.
\<close>

theorem nearestBrowseableAncestorSlug_spec:
  "\<exists>res. nearest_match (regionsByID s) (parents s) (\<lambda>r. IsDefaultBrowseKind (reg_Kind r)) i res \<and>
     nearestBrowseableAncestorSlug s i = (case res of None \<Rightarrow> [] | Some r \<Rightarrow> reg_Slug r)"
  using bfsUpwardFirstMatch_nearest [of s "\<lambda>r. IsDefaultBrowseKind (reg_Kind r)" i]
  by (auto simp: nearestBrowseableAncestorSlug_def split: option.splits)

section \<open>Recent orgs\<close>

lemma hasNonNational_iff:
  "hasNonNational s o1 \<longleftrightarrow> (\<exists>rid\<in>set (mget_list (orgRegions s) (org_ID o1)). live (regionsByID s) rid)"
  by (auto simp: hasNonNational_def list_ex_iff live_region_live)

text \<open>
  \<open>ListRecent\<close> returns ten orgs, or all when there are fewer, among those with a non-national
  region, newest first and by descending id on a tie; no org left out is newer than one returned.
\<close>

theorem ListRecent_spec:
  "\<exists>rest. mset (ListRecent s) + mset rest =
      mset (map (\<lambda>o1. (hydrated s o1)\<lparr>org_MatchedRegionSlugs := []\<rparr>) (filter (hasNonNational s) (orgs s))) \<and>
    length (ListRecent s) = min 10 (length (filter (hasNonNational s) (orgs s))) \<and>
    sorted_wrt (\<lambda>a b. \<not> recent_less b a) (ListRecent s) \<and>
    list_all (\<lambda>x. list_all (\<lambda>y. \<not> recent_less y x) rest) (ListRecent s)"
proof -
  let ?all = "sort_slice recent_less (recent_candidates s)"
  have cands: "recent_candidates s =
      map (\<lambda>o1. (hydrated s o1)\<lparr>org_MatchedRegionSlugs := []\<rparr>) (filter (hasNonNational s) (orgs s))"
    by (simp add: recent_candidates_def hydrated_def)
  have split: "?all = ListRecent s @ drop 10 ?all" by (simp add: ListRecent_def)
  have ord: "sorted_wrt (\<lambda>a b. \<not> recent_less b a) (ListRecent s @ drop 10 ?all)"
    unfolding split [symmetric] by (rule recent_order.sort_ordered)
  have "mset (ListRecent s) + mset (drop 10 ?all) = mset (recent_candidates s)"
    by (metis mset_append mset_sort_slice split)
  moreover have "length (ListRecent s) = min 10 (length (recent_candidates s))"
    by (simp add: ListRecent_def min.commute)
  ultimately show ?thesis
    using ord unfolding cands sorted_wrt_append list_all_iff
    by (intro exI [of _ "drop 10 ?all"]) (simp add: cands)
qed

section \<open>Statistics\<close>

lemma mcount_fold_bump: "mcount (fold bump cs m) c = mcount m c + count_list cs c"
  by (induction cs arbitrary: m) (auto simp: mcount_bump)

lemma mkeys_fold_bump: "mkeys (fold bump cs m) = mkeys m \<union> set cs"
  by (induction cs arbitrary: m) (auto simp: bump_def)

lemma stats_orgs_loop_total:
  "snd (stats_orgs_loop s os (m, n)) = n + length (filter (hasNonNational s) os)"
  by (induction os arbitrary: m n) auto

lemma distinct_org_countries: "distinct (org_countries s o1)"
  by (simp add: org_countries_def)

lemma org_countries_live: "c \<in> set (org_countries s o1) \<Longrightarrow> hasNonNational s o1"
  unfolding org_countries_def hasNonNational_def list_ex_iff by (fastforce simp: set_collect)

lemma set_org_countries:
  "set (org_countries s o1) =
     {c. c \<noteq> [] \<and> (\<exists>rid\<in>set (mget_list (orgRegions s) (org_ID o1)). \<exists>r. live_region s rid = Some r \<and> reg_Country r = c)}"
proof -
  have "set (collect (live_region s) ids) = {r. \<exists>rid\<in>set ids. live_region s rid = Some r}" for ids
    by (auto simp: set_collect)
  then show ?thesis by (auto simp: org_countries_def)
qed

lemma count_distinct: "distinct xs \<Longrightarrow> count_list xs c = (if c \<in> set xs then 1 else 0)"
  by (induction xs) auto

lemma stats_orgs_loop_count:
  "mcount (fst (stats_orgs_loop s os (m, n))) c =
     mcount m c + length (filter (\<lambda>o1. c \<in> set (org_countries s o1)) os)"
proof (induction os arbitrary: m n)
  case (Cons o1 os)
  then show ?case
    using count_distinct [OF distinct_org_countries, of s o1 c] org_countries_live [of c s o1]
    by (auto simp: mcount_fold_bump)
qed simp

lemma stats_orgs_loop_keys:
  "mkeys (fst (stats_orgs_loop s os (m, n))) = mkeys m \<union> \<Union> (set ` org_countries s ` set os)"
  by (induction os arbitrary: m n) (auto simp: mkeys_fold_bump dest: org_countries_live)

lemma stats_regions_loop_count:
  "c \<noteq> [] \<Longrightarrow> mcount (stats_regions_loop xs m) c =
     mcount m c + length (filter (\<lambda>x. reg_Country (rs_Region x) = c) xs)"
  by (induction xs arbitrary: m) (auto simp: mcount_bump)

lemma stats_regions_loop_keys:
  "mkeys (stats_regions_loop xs m) = mkeys m \<union> ((reg_Country \<circ> rs_Region) ` set xs - {[]})"
  by (induction xs arbitrary: m) (auto simp: bump_def)

lemma Stats_fields:
  "st_TotalOrgCount (Stats ro s) = length (filter (hasNonNational s) (orgs s))"
  "st_TotalRegionCount (Stats ro s) = length (filter (\<lambda>e. reg_ScopeTier (snd e) \<noteq> ScopeNational) (ro_regions ro))"
  "st_BrowseRegionCount (Stats ro s) = length (ListRegions ro s)"
  "st_ByCountry (Stats ro s) =
     map (\<lambda>c. \<lparr>cs_Country = c, cs_OrgCount = mcount (fst (stats_orgs_loop s (orgs s) ([], 0))) c,
            cs_RegionCount = mcount (stats_regions_loop (ListRegions ro s) []) c\<rparr>)
       (sort_slice country_less (remdups (map fst (fst (stats_orgs_loop s (orgs s) ([], 0))) @
          map fst (stats_regions_loop (ListRegions ro s) []))))"
  using stats_orgs_loop_total [of s "orgs s" "[]" 0]
  by (simp_all add: Stats_def ListRegions_def Let_def split_beta)

lemma Stats_countries:
  "map cs_Country (st_ByCountry (Stats ro s)) =
     sort_slice country_less (remdups (map fst (fst (stats_orgs_loop s (orgs s) ([], 0))) @
          map fst (stats_regions_loop (ListRegions ro s) [])))"
  by (simp add: Stats_fields o_def)

lemma strictly_sorted: "sorted_wrt (<) (sort_slice country_less (remdups xs))"
  using country_order.sort_ordered [of "remdups xs"]
  by (simp add: strict_sorted_iff country_less_def not_less)

text \<open>
  The statistics count every org with a non-national region once, every non-national region
  once and the browse list; the country rows are in ascending order without repetition or blank,
  one for each country with such an org or a browse region, each with its own counts.
\<close>

theorem Stats_spec:
  assumes "store_inv U s" and "range_of ro s"
  shows "st_TotalOrgCount (Stats ro s) = length (filter (hasNonNational s) (orgs s)) \<and>
    st_TotalRegionCount (Stats ro s) = card {i. live (regionsByID s) i} \<and>
    st_BrowseRegionCount (Stats ro s) = length (ListRegions ro s) \<and>
    sorted_wrt (<) (map cs_Country (st_ByCountry (Stats ro s))) \<and>
    set (st_ByCountry (Stats ro s)) =
      {\<lparr>cs_Country = c, cs_OrgCount = length (filter (\<lambda>o1. c \<in> set (org_countries s o1)) (orgs s)),
        cs_RegionCount = length (filter (\<lambda>x. reg_Country (rs_Region x) = c) (ListRegions ro s))\<rparr> | c.
       c \<noteq> [] \<and> ((\<exists>o1\<in>set (orgs s). c \<in> set (org_countries s o1)) \<or>
                  (\<exists>x\<in>set (ListRegions ro s). reg_Country (rs_Region x) = c))}"
proof (intro conjI)
  have ro: "ranges_over (ro_regions ro) (regionsByID s)" and wf: "wf_map (regionsByID s)"
    using assms inv_maps [OF assms(1)] by (auto simp: range_of_def maps_wf_def)
  let ?es = "filter (\<lambda>e. reg_ScopeTier (snd e) \<noteq> ScopeNational) (ro_regions ro)"
  have "distinct (map fst ?es)"
    using ranges_over_wf [OF ro wf] by (simp add: wf_map_def distinct_map_filter)
  then have "length ?es = card (set (map fst ?es))" by (metis distinct_card length_map)
  also have "set (map fst ?es) = {i. live (regionsByID s) i}"
    using ranges_over_set [OF ro] set_mget [OF wf] by (force simp: live_def IsNational_def)
  finally show "st_TotalRegionCount (Stats ro s) = card {i. live (regionsByID s) i}"
    by (simp add: Stats_fields)
  show "sorted_wrt (<) (map cs_Country (st_ByCountry (Stats ro s)))"
    unfolding Stats_countries by (rule strictly_sorted)
  let ?om = "fst (stats_orgs_loop s (orgs s) ([], 0))" and ?rm = "stats_regions_loop (ListRegions ro s) []"
  let ?row = "\<lambda>c. \<lparr>cs_Country = c, cs_OrgCount = mcount ?om c, cs_RegionCount = mcount ?rm c\<rparr>"
  let ?dom = "{c. c \<noteq> [] \<and> ((\<exists>o1\<in>set (orgs s). c \<in> set (org_countries s o1)) \<or>
                  (\<exists>x\<in>set (ListRegions ro s). reg_Country (rs_Region x) = c))}"
  have "mkeys ?om \<union> mkeys ?rm = ?dom"
    by (auto simp: stats_orgs_loop_keys stats_regions_loop_keys set_org_countries mkeys_def [of "[]"])
  then have "set (st_ByCountry (Stats ro s)) = ?row ` ?dom"
    by (simp add: Stats_fields mkeys_def image_Un del: set_mset_mset)
  also have "\<dots> = (\<lambda>c. \<lparr>cs_Country = c, cs_OrgCount = length (filter (\<lambda>o1. c \<in> set (org_countries s o1)) (orgs s)),
        cs_RegionCount = length (filter (\<lambda>x. reg_Country (rs_Region x) = c) (ListRegions ro s))\<rparr>) ` ?dom"
    by (rule image_cong) (simp_all add: stats_orgs_loop_count stats_regions_loop_count mcount_def [of "[]"])
  finally show "set (st_ByCountry (Stats ro s)) =
      {\<lparr>cs_Country = c, cs_OrgCount = length (filter (\<lambda>o1. c \<in> set (org_countries s o1)) (orgs s)),
        cs_RegionCount = length (filter (\<lambda>x. reg_Country (rs_Region x) = c) (ListRegions ro s))\<rparr> | c.
       c \<noteq> [] \<and> ((\<exists>o1\<in>set (orgs s). c \<in> set (org_countries s o1)) \<or>
                  (\<exists>x\<in>set (ListRegions ro s). reg_Country (rs_Region x) = c))}"
    by (auto simp: image_def)
qed (simp_all add: Stats_fields)

end
