(* ===== verification/Region_Search.thy ===== *)
theory Region_Search
  imports Mem_Reads
begin

text \<open>
  Region search (\<open>api/pkg/atlas/regionsearch.go\<close> and \<open>MemStore.SearchRegions\<close>): ranking, ordering,
  the caps and the context label. The lemmas show that a search returns the best matches, never
  more than the cap, and what the label of a result is.
\<close>

section \<open>Definitions\<close>

definition rankExactSlug :: nat where "rankExactSlug = 0"
definition rankExactName :: nat where "rankExactName = 1"
definition rankNamePrefix :: nat where "rankNamePrefix = 2"
definition rankSlugPrefix :: nat where "rankSlugPrefix = 3"
definition rankSubstring :: nat where "rankSubstring = 4"

definition defaultRegionSearchLimit :: int where "defaultRegionSearchLimit = 10"
definition maxRegionSearchLimit :: int where "maxRegionSearchLimit = 20"

lemmas rank_defs = rankExactSlug_def rankExactName_def rankNamePrefix_def rankSlugPrefix_def rankSubstring_def
lemmas limit_defs = defaultRegionSearchLimit_def maxRegionSearchLimit_def

definition regionSearchRank :: "string \<Rightarrow> string \<Rightarrow> string \<Rightarrow> nat option" where
  "regionSearchRank nameLower slugLower q =
     (if slugLower = q then Some rankExactSlug
      else if nameLower = q then Some rankExactName
      else if has_prefix nameLower q then Some rankNamePrefix
      else if has_prefix slugLower q then Some rankSlugPrefix
      else if contains nameLower q \<or> contains slugLower q then Some rankSubstring
      else None)"

text \<open>The loop of \<open>firstParentName\<close>: \<open>best\<close> is the slug-first live parent seen so far.\<close>

fun first_parent :: "memstore \<Rightarrow> id64 list \<Rightarrow> region option \<Rightarrow> region option" where
  "first_parent s [] best = best"
| "first_parent s (pid # pids) best =
     (case live_region s pid of
        None \<Rightarrow> first_parent s pids best
      | Some r \<Rightarrow> first_parent s pids
          (case best of None \<Rightarrow> Some r | Some b \<Rightarrow> if reg_Slug r < reg_Slug b then Some r else Some b))"

definition firstParentName :: "memstore \<Rightarrow> id64 \<Rightarrow> string" where
  "firstParentName s rootID =
     (case first_parent s (mget_list (parents s) rootID) None of None \<Rightarrow> [] | Some b \<Rightarrow> reg_Name b)"

definition regionContextLabel :: "memstore \<Rightarrow> id64 \<Rightarrow> string" where
  "regionContextLabel s rootID =
     (case bfsUpwardFirstMatch s rootID (\<lambda>r. IsStateKind (reg_Kind r)) of
        Some r \<Rightarrow> reg_Name r
      | None \<Rightarrow> firstParentName s rootID)"

definition search_less :: "region \<times> nat \<Rightarrow> region \<times> nat \<Rightarrow> bool" where
  "search_less a b =
     (if snd a \<noteq> snd b then snd a < snd b
      else if reg_Name (fst a) \<noteq> reg_Name (fst b) then reg_Name (fst a) < reg_Name (fst b)
      else reg_Slug (fst a) < reg_Slug (fst b))"

definition scored :: "go_unicode \<Rightarrow> string \<Rightarrow> id64 \<times> region \<Rightarrow> (region \<times> nat) option" where
  "scored U q e =
     (if IsNational (snd e) then None
      else case regionSearchRank (to_lower U (reg_Name (snd e))) (to_lower U (reg_Slug (snd e))) q of
          None \<Rightarrow> None
        | Some rank \<Rightarrow> Some (snd e, rank))"

definition searchRegionsLocked :: "go_unicode \<Rightarrow> range_order \<Rightarrow> memstore \<Rightarrow> string \<Rightarrow> nat \<Rightarrow> region_search_result list" where
  "searchRegionsLocked U ro s q limit =
     map (\<lambda>h. \<lparr>rsr_Region = fst h, rsr_ContextLabel = regionContextLabel s (reg_ID (fst h))\<rparr>)
       (take limit (sort_slice search_less (collect (scored U q) (ro_regions ro))))"

definition clamp_limit :: "int \<Rightarrow> int" where
  "clamp_limit limit =
     (let l = (if limit \<le> 0 then defaultRegionSearchLimit else limit)
      in if l > maxRegionSearchLimit then maxRegionSearchLimit else l)"

definition SearchRegions :: "go_unicode \<Rightarrow> range_order \<Rightarrow> memstore \<Rightarrow> string \<Rightarrow> int \<Rightarrow> region_search_result list" where
  "SearchRegions U ro s query limit =
     (let q = to_lower U (trim_space query)
      in if q = [] then [] else searchRegionsLocked U ro s q (nat (clamp_limit limit)))"

section \<open>Ranking\<close>

interpretation search_order: weak_order search_less
  unfolding search_less_def by (rule weak_order_then, rule weak_order_then, rule weak_order_key)

lemma regionSearchRank_None: "regionSearchRank n sl q = None \<longleftrightarrow> \<not> contains n q \<and> \<not> contains sl q"
proof -
  have "contains t t" for t unfolding contains_iff by (metis append_Nil append_Nil2)
  moreover have "has_prefix t q \<Longrightarrow> contains t q" for t
    unfolding has_prefix_iff contains_iff by (metis append_Nil)
  ultimately show ?thesis by (auto simp: regionSearchRank_def)
qed

text \<open>What each tier means: the tier is the first of the five tests that the region passes.\<close>

definition tier_test :: "string \<Rightarrow> string \<Rightarrow> string \<Rightarrow> nat \<Rightarrow> bool" where
  "tier_test n sl q k = (if k = rankExactSlug then sl = q else if k = rankExactName then n = q
     else if k = rankNamePrefix then (\<exists>t. n = q @ t) else if k = rankSlugPrefix then (\<exists>t. sl = q @ t)
     else if k = rankSubstring then (\<exists>a b. n = a @ q @ b) \<or> (\<exists>a b. sl = a @ q @ b) else False)"

lemma regionSearchRank_first:
  "regionSearchRank n sl q = Some k \<longleftrightarrow> tier_test n sl q k \<and> (\<forall>j<k. \<not> tier_test n sl q j)"
proof -
  have five: "(\<forall>j<k. \<not> tier_test n sl q j) \<longleftrightarrow>
    (0 < k \<longrightarrow> \<not> tier_test n sl q 0) \<and> (1 < k \<longrightarrow> \<not> tier_test n sl q 1) \<and> (2 < k \<longrightarrow> \<not> tier_test n sl q 2) \<and>
    (3 < k \<longrightarrow> \<not> tier_test n sl q 3) \<and> (4 < k \<longrightarrow> \<not> tier_test n sl q 4)"
  proof -
    have "j \<in> {0, 1, 2, 3, 4}" if "tier_test n sl q j" for j
      using that by (auto simp: tier_test_def rank_defs split: if_splits)
    then show ?thesis by blast
  qed
  show ?thesis unfolding five
    by (auto simp: tier_test_def regionSearchRank_def rank_defs has_prefix_iff contains_iff split: if_splits)
qed

text \<open>
  A search returns the best matches. With the query trimmed and folded, the regions it ranks
  are exactly the non-national ones whose folded name or slug contains the query, each with the
  best tier it reaches; the results are the first ones in the order of tier, name and slug, no
  match left out precedes a returned one, and at most twenty are returned. A blank query finds
  nothing.
\<close>

theorem SearchRegions_spec:
  "(if to_lower U (trim_space query) = [] then SearchRegions U ro s query limit = []
    else
     (\<exists>found rest. map rsr_Region (SearchRegions U ro s query limit) = map fst found \<and>
        mset (found @ rest) = mset (collect (scored U (to_lower U (trim_space query))) (ro_regions ro)) \<and>
        sorted_wrt (\<lambda>a b. \<not> search_less b a) (found @ rest) \<and>
        length found = min (nat (clamp_limit limit)) (length (found @ rest)))) \<and>
   length (SearchRegions U ro s query limit) \<le> 20 \<and>
   list_all (\<lambda>x. rsr_ContextLabel x = regionContextLabel s (reg_ID (rsr_Region x)))
     (SearchRegions U ro s query limit)"
proof (cases "to_lower U (trim_space query) = []")
  case True
  then show ?thesis by (simp add: SearchRegions_def)
next
  case False
  let ?all = "sort_slice search_less (collect (scored U (to_lower U (trim_space query))) (ro_regions ro))"
  let ?n = "nat (clamp_limit limit)"
  have res: "SearchRegions U ro s query limit =
      map (\<lambda>h. \<lparr>rsr_Region = fst h, rsr_ContextLabel = regionContextLabel s (reg_ID (fst h))\<rparr>) (take ?n ?all)"
    using False by (simp add: SearchRegions_def searchRegionsLocked_def)
  have "\<exists>found rest. map rsr_Region (SearchRegions U ro s query limit) = map fst found \<and>
        mset (found @ rest) = mset (collect (scored U (to_lower U (trim_space query))) (ro_regions ro)) \<and>
        sorted_wrt (\<lambda>a b. \<not> search_less b a) (found @ rest) \<and>
        length found = min ?n (length (found @ rest))"
    by (rule exI [of _ "take ?n ?all"], rule exI [of _ "drop ?n ?all"])
      (simp add: res o_def search_order.sort_ordered min.commute flip: mset_append)
  moreover have "?n \<le> 20" by (auto simp: clamp_limit_def limit_defs Let_def)
  ultimately show ?thesis using False by (simp add: res list_all_iff)
qed

lemma set_scored:
  assumes "store_inv U s" and "range_of ro s"
  shows "(r, k) \<in> set (collect (scored U q) (ro_regions ro)) \<longleftrightarrow>
    (\<exists>i. live_region s i = Some r) \<and>
    regionSearchRank (to_lower U (reg_Name r)) (to_lower U (reg_Slug r)) q = Some k"
proof -
  have "ranges_over (ro_regions ro) (regionsByID s)" "wf_map (regionsByID s)"
    using assms inv_maps [OF assms(1)] by (auto simp: range_of_def maps_wf_def)
  then have entries: "(i, x) \<in> set (ro_regions ro) \<longleftrightarrow> mget (regionsByID s) i = Some x" for i x
    using ranges_over_set set_mget by metis
  have "scored U q (i, x) = Some (r, k) \<longleftrightarrow> x = r \<and> \<not> IsNational r \<and>
      regionSearchRank (to_lower U (reg_Name r)) (to_lower U (reg_Slug r)) q = Some k" for i x
    by (auto simp: scored_def split: option.splits)
  then show ?thesis
    by (auto simp: set_collect live_region_iff entries Bex_def)
qed

text \<open>
  C33. Nothing is missed: when no more regions match than the limit allows, the search returns
  every non-national region whose folded name or slug contains the folded query, and no other.
\<close>

theorem SearchRegions_complete:
  assumes "store_inv U s" and "range_of ro s" and "to_lower U (trim_space query) \<noteq> []"
    and "length (collect (scored U (to_lower U (trim_space query))) (ro_regions ro)) \<le> nat (clamp_limit limit)"
  shows "set (map rsr_Region (SearchRegions U ro s query limit)) =
    {r. (\<exists>i. live_region s i = Some r) \<and>
        (contains (to_lower U (reg_Name r)) (to_lower U (trim_space query)) \<or>
         contains (to_lower U (reg_Slug r)) (to_lower U (trim_space query)))}"
proof -
  let ?q = "to_lower U (trim_space query)"
  have "map rsr_Region (SearchRegions U ro s query limit) =
      map fst (sort_slice search_less (collect (scored U ?q) (ro_regions ro)))"
    using assms(3,4) by (simp add: SearchRegions_def searchRegionsLocked_def o_def)
  then have "set (map rsr_Region (SearchRegions U ro s query limit)) =
      {r. \<exists>k. (r, k) \<in> set (collect (scored U ?q) (ro_regions ro))}"
    by force
  moreover have "(\<exists>k. regionSearchRank n sl ?q = Some k) \<longleftrightarrow> contains n ?q \<or> contains sl ?q" for n sl
    using regionSearchRank_None [of n sl ?q] by auto
  ultimately show ?thesis
    unfolding set_scored [OF assms(1,2)] by simp
qed

section \<open>Context labels\<close>

text \<open>\<open>b\<close> has the least slug among the non-national regions with ids in \<open>pids\<close>.\<close>

definition slug_first :: "memstore \<Rightarrow> id64 list \<Rightarrow> region \<Rightarrow> bool" where
  "slug_first s pids b \<longleftrightarrow> (\<forall>p\<in>set pids. \<forall>r. live_region s p = Some r \<longrightarrow> \<not> slug_less r b)"

lemma first_parent_spec:
  "case first_parent s pids best of
     None \<Rightarrow> best = None \<and> (\<forall>p\<in>set pids. live_region s p = None)
   | Some b \<Rightarrow> (best = Some b \<or> (\<exists>p\<in>set pids. live_region s p = Some b)) \<and>
       slug_first s pids b \<and>
       (\<forall>r. best = Some r \<longrightarrow> \<not> slug_less r b)"
proof (induction pids arbitrary: best)
  case Nil
  then show ?case by (simp add: slug_less_def slug_first_def split: option.splits)
next
  case (Cons p pids)
  show ?case
  proof (cases "live_region s p")
    case None
    with Cons.IH [of best] show ?thesis by (simp add: slug_first_def split: option.splits)
  next
    case (Some r)
    define best' where
      "best' = (case best of None \<Rightarrow> Some r | Some b \<Rightarrow> if reg_Slug r < reg_Slug b then Some r else Some b)"
    from Cons.IH [of best'] Some show ?thesis
      by (auto simp: best'_def slug_less_def slug_first_def split: option.splits if_splits)
  qed
qed

text \<open>
  The label of a search result is the name of the nearest state-kind ancestor; without one, of
  the non-national direct parent with the least slug; without either, empty.
\<close>

theorem regionContextLabel_spec:
  "\<exists>state. nearest_match (regionsByID s) (parents s) (\<lambda>r. IsStateKind (reg_Kind r)) i state \<and>
     (case state of
        Some r \<Rightarrow> regionContextLabel s i = reg_Name r
      | None \<Rightarrow>
          (regionContextLabel s i = [] \<and> collect (live_region s) (mget_list (parents s) i) = []) \<or>
          (\<exists>p\<in>set (mget_list (parents s) i). \<exists>b. live_region s p = Some b \<and> regionContextLabel s i = reg_Name b \<and>
             slug_first s (mget_list (parents s) i) b))"
proof -
  let ?m = "bfsUpwardFirstMatch s i (\<lambda>r. IsStateKind (reg_Kind r))"
  have "nearest_match (regionsByID s) (parents s) (\<lambda>r. IsStateKind (reg_Kind r)) i ?m"
    by (rule bfsUpwardFirstMatch_nearest)
  then show ?thesis
    using first_parent_spec [where s = s and pids = "mget_list (parents s) i" and best = None]
    by (intro exI [of _ ?m]) (auto simp: regionContextLabel_def firstParentName_def collect_Nil_iff slug_first_def split: option.splits)
qed

end
