(* ===== verification/Lookup.thy ===== *)
theory Lookup
  imports Region_Scope Region_Search
begin

text \<open>
  The read seam \<open>Store\<close> (\<open>api/pkg/atlas/store.go\<close>) and the two orchestrators that compose it:
  \<open>Lookup\<close> (lookup.go) walks up from a postal code, \<open>GetRegion\<close> (region.go) walks down from a slug.

  The interface is a record of operations; its behavioural contract is the locale \<open>atlas_store\<close>,
  in which the orchestrators are proved correct once. The locale is interpreted on the operations
  of \<open>MemStore\<close>, for every order of Go's map iteration.
\<close>

section \<open>The Store interface\<close>

record store_ops =
  so_ResolveLeafRegion :: "country \<Rightarrow> string \<Rightarrow> region result"
  so_ResolveRegionBySlug :: "string \<Rightarrow> region result"
  so_AncestorRegions :: "id64 \<Rightarrow> region list result"
  so_DescendantRegions :: "id64 \<Rightarrow> region list result"
  so_RollupMetrosFor :: "id64 \<Rightarrow> region list result"
  so_OrgsForRegions :: "id64 list \<Rightarrow> org list result"
  so_ListRegions :: "region_summary list result"
  so_SearchRegions :: "string \<Rightarrow> int \<Rightarrow> region_search_result list result"
  so_GetOrgBySlug :: "string \<Rightarrow> org result"
  so_ListRecent :: "org list result"
  so_Stats :: "stats result"

text \<open>\<open>MemStore\<close> as a \<open>Store\<close>; no read of it fails but for the not-found cases.\<close>

definition mem_ops :: "go_unicode \<Rightarrow> range_order \<Rightarrow> memstore \<Rightarrow> store_ops" where
  "mem_ops U ro s =
     \<lparr>so_ResolveLeafRegion = ResolveLeafRegion U s,
      so_ResolveRegionBySlug = ResolveRegionBySlug U s,
      so_AncestorRegions = (\<lambda>i. Inr (AncestorRegions s i)),
      so_DescendantRegions = (\<lambda>i. Inr (DescendantRegions ro s i)),
      so_RollupMetrosFor = (\<lambda>i. Inr (RollupMetrosFor s i)),
      so_OrgsForRegions = (\<lambda>ids. Inr (OrgsForRegions s ids)),
      so_ListRegions = Inr (ListRegions ro s),
      so_SearchRegions = (\<lambda>q l. Inr (SearchRegions U ro s q l)),
      so_GetOrgBySlug = GetOrgBySlug U s,
      so_ListRecent = Inr (ListRecent s),
      so_Stats = Inr (Stats ro s)\<rparr>"

lemma mem_ops_sel [simp]:
  "so_ResolveLeafRegion (mem_ops U ro s) = ResolveLeafRegion U s"
  "so_ResolveRegionBySlug (mem_ops U ro s) = ResolveRegionBySlug U s"
  "so_AncestorRegions (mem_ops U ro s) i = Inr (AncestorRegions s i)"
  "so_DescendantRegions (mem_ops U ro s) i = Inr (DescendantRegions ro s i)"
  "so_RollupMetrosFor (mem_ops U ro s) i = Inr (RollupMetrosFor s i)"
  "so_OrgsForRegions (mem_ops U ro s) ids = Inr (OrgsForRegions s ids)"
  by (simp_all add: mem_ops_def)

section \<open>Lookup\<close>

fun find_first :: "('a \<Rightarrow> bool) \<Rightarrow> 'a list \<Rightarrow> 'a option" where
  "find_first P [] = None"
| "find_first P (x # xs) = (if P x then Some x else find_first P xs)"

text \<open>Both loops of \<open>pickBroadAncestor\<close> start at index 1.\<close>

definition pickBroadAncestor :: "region list \<Rightarrow> region option" where
  "pickBroadAncestor ancestry =
     (case find_first (\<lambda>r. IsMetroKind (reg_Kind r)) (drop 1 ancestry) of
        Some r \<Rightarrow> Some r
      | None \<Rightarrow> find_first (\<lambda>r. reg_ScopeTier r = ScopeRegional) (drop 1 ancestry))"

definition pickInnerAncestor :: "region list \<Rightarrow> region \<Rightarrow> region option \<Rightarrow> region option" where
  "pickInnerAncestor ancestry leaf broad =
     find_first (\<lambda>r. \<not> (reg_Slug r = reg_Slug leaf) \<and>
         \<not> (case broad of None \<Rightarrow> False | Some b \<Rightarrow> reg_Slug r = reg_Slug b) \<and>
         \<not> reg_SortPriority r \<ge> 60) (drop 1 ancestry)"

definition emdash :: string where
  "emdash = [CHR '' '', CHR 0xE2, CHR 0x80, CHR 0x94, CHR '' '']"

definition placeLabel :: "region list \<Rightarrow> string" where
  "placeLabel ancestry = (case ancestry of [] \<Rightarrow> []
     | leaf # _ \<Rightarrow>
        (let broad = pickBroadAncestor ancestry; inner = pickInnerAncestor ancestry leaf broad
         in case (inner, broad) of
             (Some i, Some b) \<Rightarrow> reg_Name leaf @ '', '' @ reg_Name i @ emdash @ reg_Name b
           | (None, Some b) \<Rightarrow> reg_Name leaf @ emdash @ reg_Name b
           | (Some i, None) \<Rightarrow> reg_Name leaf @ '', '' @ reg_Name i
           | (None, None) \<Rightarrow> reg_Name leaf))"

text \<open>\<open>inScope[r.ID] = r\<close> over a slice of regions.\<close>

fun put_regions :: "region list \<Rightarrow> (id64, region) gomap \<Rightarrow> (id64, region) gomap" where
  "put_regions [] m = m"
| "put_regions (r # rs) m = put_regions rs (mput (reg_ID r) r m)"

definition Lookup :: "store_ops \<Rightarrow> lookup_query \<Rightarrow> lookup_result result" where
  "Lookup st query =
     (case so_ResolveLeafRegion st (lq_Country query) (lq_PostalCode query) of
        Inl err \<Rightarrow> Inl (Wrap ''atlas: resolve postal code'' err)
      | Inr leaf \<Rightarrow>
     (case so_AncestorRegions st (reg_ID leaf) of
        Inl err \<Rightarrow> Inl (Wrap ''atlas: ancestor regions'' err)
      | Inr ancestry \<Rightarrow>
     (case so_OrgsForRegions st (map reg_ID ancestry) of
        Inl err \<Rightarrow> Inl (Wrap ''atlas: orgs lookup'' err)
      | Inr os \<Rightarrow>
          (let (loc, rgn, stw) = BucketOrgsByScope (put_regions ancestry []) os
           in Inr \<lparr>lr_Query = query, lr_ResolvedPlaceLabel = placeLabel ancestry,
                lr_ResolvedAncestry = ancestry, lr_Local = loc, lr_Regional = rgn, lr_Statewide = stw\<rparr>))))"

section \<open>GetRegion\<close>

text \<open>Names of the regions not in \<open>skip\<close>, as \<open>descendantNames[r.Slug] = r.Name\<close>.\<close>

fun put_names :: "string list \<Rightarrow> region list \<Rightarrow> (string, string) gomap \<Rightarrow> (string, string) gomap" where
  "put_names skip [] m = m"
| "put_names skip (r # rs) m =
     put_names skip rs (if reg_Slug r \<in> set skip then m else mput (reg_Slug r) (reg_Name r) m)"

text \<open>
  \<open>rng\<close> is the order of \<open>for k := range inScope\<close>. A nil detail without an error is \<open>Inr None\<close>.
\<close>

definition GetRegion :: "((id64, region) gomap \<Rightarrow> (id64 \<times> region) list) \<Rightarrow> store_ops \<Rightarrow> string \<Rightarrow> region_detail option result" where
  "GetRegion rng st slug =
     (case so_ResolveRegionBySlug st slug of
        Inl err \<Rightarrow> if errors_is err ErrRegionNotFound then Inr None
          else Inl (Wrap ''atlas: resolve region'' err)
      | Inr region \<Rightarrow>
     (case so_DescendantRegions st (reg_ID region) of
        Inl err \<Rightarrow> Inl (Wrap ''atlas: descendant regions'' err)
      | Inr descendants \<Rightarrow>
     (case so_RollupMetrosFor st (reg_ID region) of
        Inl err \<Rightarrow> Inl (Wrap ''atlas: rollup metros'' err)
      | Inr rollups \<Rightarrow>
     (case so_AncestorRegions st (reg_ID region) of
        Inl err \<Rightarrow> Inl (Wrap ''atlas: ancestor regions'' err)
      | Inr ancestors \<Rightarrow>
     (let inScope = put_regions rollups (put_regions descendants []);
          ids = map fst (rng inScope)
      in case so_OrgsForRegions st ids of
        Inl err \<Rightarrow> Inl (Wrap ''atlas: orgs for regions'' err)
      | Inr os \<Rightarrow>
          (let (loc, rgn, stw) = BucketOrgsByScope inScope os;
               ancestry = drop 1 ancestors;
               skip = reg_Slug region # map reg_Slug ancestors;
               names = put_names skip rollups (put_names skip descendants [])
           in Inr (Some \<lparr>rd_Region = region, rd_Local = loc, rd_Regional = rgn, rd_Statewide = stw,
                rd_Ancestry = ancestry, rd_DescendantRegionNames = names\<rparr>)))))))"

section \<open>The contract of a store\<close>

definition good_range :: "((id64, region) gomap \<Rightarrow> (id64 \<times> region) list) \<Rightarrow> bool" where
  "good_range rng \<longleftrightarrow> (\<forall>m. ranges_over (rng m) m)"

definition restrict_scope :: "(id64 \<Rightarrow> bool) \<Rightarrow> (id64 \<Rightarrow> region option) \<Rightarrow> id64 \<Rightarrow> region option" where
  "restrict_scope P f i = (if P i then f i else None)"

text \<open>\<open>b\<close> is the bucket of one tier: its orgs, tagged, in order.\<close>

definition is_bucket :: "(id64 \<Rightarrow> region option) \<Rightarrow> tier \<Rightarrow> org list \<Rightarrow> org list \<Rightarrow> bool" where
  "is_bucket scope t os b \<longleftrightarrow>
     mset b = mset (in_tier scope t os) \<and> sorted_wrt (\<lambda>x y. \<not> bucket_less scope y x) b"

lemma mget_put_regions:
  "\<forall>r\<in>set rs. f (reg_ID r) = Some r \<Longrightarrow>
   mget (put_regions rs m) i = (if i \<in> reg_ID ` set rs then f i else mget m i)"
  by (induction rs arbitrary: m) auto

lemma put_regions_append: "put_regions (rs @ rs') m = put_regions rs' (put_regions rs m)"
  by (induction rs arbitrary: m) auto

lemma good_range_keys: "good_range rng \<Longrightarrow> set (map fst (rng m)) = mkeys m"
  unfolding good_range_def mkeys_def by (metis ranges_over_set set_map)

lemma mset_in_tier: "mset os = mset os' \<Longrightarrow> mset (in_tier scope t os) = mset (in_tier scope t os')"
  by (simp add: in_tier_def)

lemma matches_Nil_iff: "matches scope o1 = [] \<longleftrightarrow> (\<forall>r\<in>set (org_Regions o1). scope (reg_ID r) = None)"
  by (simp add: matches_def collect_Nil_iff)

lemma in_tier_filter:
  "(\<And>i. scope i \<noteq> None \<Longrightarrow> i \<in> I) \<Longrightarrow>
   in_tier scope t (filter (\<lambda>o1. \<exists>r\<in>set (org_Regions o1). reg_ID r \<in> I) os) = in_tier scope t os"
  unfolding in_tier_def filter_filter
  by (rule arg_cong [of _ _ "map (tagged scope)"], rule filter_cong) (auto simp: matches_Nil_iff)

lemma BucketOrgs_is_bucket:
  assumes "mset os = mset (filter (\<lambda>o1. \<exists>r\<in>set (org_Regions o1). reg_ID r \<in> I) all)"
    and "mget inScope = scope" and "\<And>i. scope i \<noteq> None \<Longrightarrow> i \<in> I"
  shows "case BucketOrgsByScope inScope os of (loc, rgn, stw) \<Rightarrow>
    is_bucket scope Local all loc \<and> is_bucket scope Regional all rgn \<and> is_bucket scope Statewide all stw"
proof -
  have "mset (in_tier scope t os) = mset (in_tier scope t all)" for t
    using mset_in_tier [OF assms(1), where scope = scope and t = t]
      in_tier_filter [OF assms(3), where t = t and os = all] by simp
  then show ?thesis
    unfolding BucketOrgsByScope_eq assms(2)
    by (simp add: is_bucket_def bucket_order.sort_ordered)
qed

lemma put_names_keys:
  "mkeys (put_names skip rs m) = mkeys m \<union> (reg_Slug ` set rs - set skip)"
  by (induction rs arbitrary: m) auto

lemma put_names_value:
  "mget (put_names skip rs m) sl = Some n \<Longrightarrow> mget m sl = Some n \<or> (\<exists>r\<in>set rs. reg_Slug r = sl \<and> reg_Name r = n)"
  by (induction rs arbitrary: m) (force split: if_splits)+

text \<open>
  The views of a store state the contract speaks about: the non-national regions, the relation
  from a region to itself and its ancestors, the rollup relation and the orgs with their regions.
\<close>

locale atlas_store =
  fixes ops :: "'s \<Rightarrow> store_ops" and inv :: "'s \<Rightarrow> bool"
    and region_of :: "'s \<Rightarrow> id64 \<Rightarrow> region option" and up :: "'s \<Rightarrow> id64 \<Rightarrow> id64 \<Rightarrow> bool"
    and rolls :: "'s \<Rightarrow> id64 \<Rightarrow> id64 \<Rightarrow> bool" and all_orgs :: "'s \<Rightarrow> org list"
  assumes region_ID: "inv s \<Longrightarrow> region_of s i = Some r \<Longrightarrow> reg_ID r = i"
    and region_not_national: "inv s \<Longrightarrow> region_of s i = Some r \<Longrightarrow> \<not> IsNational r"
    and up_region: "inv s \<Longrightarrow> up s i j \<Longrightarrow> \<exists>r. region_of s j = Some r"
    and up_source: "inv s \<Longrightarrow> up s i j \<Longrightarrow> \<exists>r. region_of s i = Some r"
    and up_refl: "inv s \<Longrightarrow> region_of s i = Some r \<Longrightarrow> up s i i"
    and rolls_region: "inv s \<Longrightarrow> rolls s i j \<Longrightarrow> \<exists>r. region_of s i = Some r"
    and resolve_slug: "inv s \<Longrightarrow> so_ResolveRegionBySlug (ops s) slug = Inr r \<Longrightarrow> region_of s (reg_ID r) = Some r"
    and resolve_slug_error: "inv s \<Longrightarrow> so_ResolveRegionBySlug (ops s) slug = Inl e \<Longrightarrow> e = Sentinel ErrRegionNotFound"
    and ancestors: "inv s \<Longrightarrow> \<exists>rs. so_AncestorRegions (ops s) i = Inr rs \<and> distinct (map reg_ID rs) \<and>
        set rs = {r. \<exists>j. up s i j \<and> region_of s j = Some r} \<and>
        (\<forall>r. region_of s i = Some r \<longrightarrow> (\<exists>rest. rs = r # rest))"
    and descendants: "inv s \<Longrightarrow> \<exists>rs. so_DescendantRegions (ops s) i = Inr rs \<and>
        set rs = {r. \<exists>j. up s j i \<and> region_of s j = Some r}"
    and rollups: "inv s \<Longrightarrow> \<exists>rs. so_RollupMetrosFor (ops s) i = Inr rs \<and>
        set rs = {r. \<exists>j. rolls s j i \<and> region_of s j = Some r}"
    and orgs_for: "inv s \<Longrightarrow> \<forall>i\<in>set ids. region_of s i \<noteq> None \<Longrightarrow>
        \<exists>os. so_OrgsForRegions (ops s) ids = Inr os \<and>
          mset os = mset (filter (\<lambda>o1. \<exists>r\<in>set (org_Regions o1). reg_ID r \<in> set ids) (all_orgs s))"
begin

lemma in_scope_region: "inv s \<Longrightarrow> set rs \<subseteq> {r. \<exists>j. P j \<and> region_of s j = Some r} \<Longrightarrow>
    \<forall>r\<in>set rs. region_of s (reg_ID r) = Some r"
  using region_ID by fastforce

lemma ids_of_scope:
  "inv s \<Longrightarrow> set rs = {r. \<exists>j. P j \<and> region_of s j = Some r} \<Longrightarrow>
   i \<in> reg_ID ` set rs \<longleftrightarrow> P i \<and> region_of s i \<noteq> None"
  using region_ID by (auto simp: image_iff)

lemma put_regions_scope:
  assumes "inv s" and "set rs = {r. \<exists>j. P j \<and> region_of s j = Some r}"
  shows "mget (put_regions rs []) = restrict_scope P (region_of s)"
proof
  fix i
  show "mget (put_regions rs []) i = restrict_scope P (region_of s) i"
    using mget_put_regions [OF in_scope_region, of s rs P "[]" i] ids_of_scope [OF assms, of i] assms
    by (auto simp: restrict_scope_def)
qed

lemma lookup_correct:
  assumes inv: "inv s" and leaf: "so_ResolveLeafRegion (ops s) (lq_Country q) (lq_PostalCode q) = Inr leaf"
  shows "\<exists>res. Lookup (ops s) q = Inr res \<and> lr_Query res = q \<and>
    set (lr_ResolvedAncestry res) = {r. \<exists>j. up s (reg_ID leaf) j \<and> region_of s j = Some r} \<and>
    lr_ResolvedPlaceLabel res = placeLabel (lr_ResolvedAncestry res) \<and>
    (let scope = restrict_scope (up s (reg_ID leaf)) (region_of s) in
       is_bucket scope Local (all_orgs s) (lr_Local res) \<and>
       is_bucket scope Regional (all_orgs s) (lr_Regional res) \<and>
       is_bucket scope Statewide (all_orgs s) (lr_Statewide res))"
proof -
  let ?P = "up s (reg_ID leaf)" and ?scope = "restrict_scope (up s (reg_ID leaf)) (region_of s)"
  obtain rs where rs: "so_AncestorRegions (ops s) (reg_ID leaf) = Inr rs"
    "set rs = {r. \<exists>j. ?P j \<and> region_of s j = Some r}"
    using ancestors [OF inv, of "reg_ID leaf"] by blast
  have ids: "\<forall>i\<in>set (map reg_ID rs). region_of s i \<noteq> None"
    using ids_of_scope [OF inv rs(2)] by auto
  obtain os where os: "so_OrgsForRegions (ops s) (map reg_ID rs) = Inr os"
    "mset os = mset (filter (\<lambda>o1. \<exists>r\<in>set (org_Regions o1). reg_ID r \<in> set (map reg_ID rs)) (all_orgs s))"
    using orgs_for [OF inv ids] by blast
  have "i \<in> set (map reg_ID rs)" if "?scope i \<noteq> None" for i
    using that ids_of_scope [OF inv rs(2), of i] by (auto simp: restrict_scope_def split: if_splits)
  from BucketOrgs_is_bucket [OF os(2) put_regions_scope [OF inv rs(2)] this]
  show ?thesis using leaf rs os(1) by (auto simp: Lookup_def Let_def split: prod.splits)
qed

lemma lookup_error:
  assumes "so_ResolveLeafRegion (ops s) (lq_Country q) (lq_PostalCode q) = Inl e"
  shows "Lookup (ops s) q = Inl (Wrap ''atlas: resolve postal code'' e)"
  using assms by (simp add: Lookup_def)

lemma get_region_not_found:
  "inv s \<Longrightarrow> so_ResolveRegionBySlug (ops s) slug = Inl e \<Longrightarrow> GetRegion rng (ops s) slug = Inr None"
  using resolve_slug_error by (fastforce simp: GetRegion_def)

lemma get_region_correct:
  assumes inv: "inv s" and focus: "so_ResolveRegionBySlug (ops s) slug = Inr focus" and rng: "good_range rng"
  shows "\<exists>d. GetRegion rng (ops s) slug = Inr (Some d) \<and> rd_Region d = focus \<and>
    set (focus # rd_Ancestry d) = {r. \<exists>j. up s (reg_ID focus) j \<and> region_of s j = Some r} \<and>
    focus \<notin> set (rd_Ancestry d) \<and>
    (let scope = restrict_scope (\<lambda>i. up s i (reg_ID focus) \<or> rolls s i (reg_ID focus)) (region_of s) in
       is_bucket scope Local (all_orgs s) (rd_Local d) \<and>
       is_bucket scope Regional (all_orgs s) (rd_Regional d) \<and>
       is_bucket scope Statewide (all_orgs s) (rd_Statewide d) \<and>
       mkeys (rd_DescendantRegionNames d) =
         reg_Slug ` ran scope - reg_Slug ` set (focus # rd_Ancestry d))"
proof -
  let ?f = "reg_ID focus" and ?P = "\<lambda>i. up s i (reg_ID focus) \<or> rolls s i (reg_ID focus)"
  let ?scope = "restrict_scope ?P (region_of s)"
  have foc: "region_of s ?f = Some focus" using resolve_slug [OF inv focus] .
  obtain ds where ds: "so_DescendantRegions (ops s) ?f = Inr ds"
    "set ds = {r. \<exists>j. up s j ?f \<and> region_of s j = Some r}" using descendants [OF inv] by blast
  obtain ms where ms: "so_RollupMetrosFor (ops s) ?f = Inr ms"
    "set ms = {r. \<exists>j. rolls s j ?f \<and> region_of s j = Some r}" using rollups [OF inv] by blast
  obtain as rest where as: "so_AncestorRegions (ops s) ?f = Inr as" "distinct (map reg_ID as)"
    "set as = {r. \<exists>j. up s ?f j \<and> region_of s j = Some r}" "as = focus # rest"
    using ancestors [OF inv, of ?f] foc by metis
  let ?in = "put_regions ms (put_regions ds [])"
  have all: "set (ds @ ms) = {r. \<exists>j. ?P j \<and> region_of s j = Some r}" using ds(2) ms(2) by auto
  have scope: "mget ?in = ?scope"
    using put_regions_scope [OF inv all] by (simp add: put_regions_append)
  then have keys: "set (map fst (rng ?in)) = dom ?scope"
    using good_range_keys [OF rng] by (simp add: mkeys_conv_dom)
  then have ids: "\<forall>i\<in>set (map fst (rng ?in)). region_of s i \<noteq> None"
    by (auto simp: restrict_scope_def dom_def split: if_splits)
  obtain os where os: "so_OrgsForRegions (ops s) (map fst (rng ?in)) = Inr os"
    "mset os = mset (filter (\<lambda>o1. \<exists>r\<in>set (org_Regions o1). reg_ID r \<in> set (map fst (rng ?in))) (all_orgs s))"
    using orgs_for [OF inv ids] by blast
  have "i \<in> set (map fst (rng ?in))" if "?scope i \<noteq> None" for i using that keys by blast
  note buckets = BucketOrgs_is_bucket [OF os(2) scope this]
  let ?skip = "reg_Slug focus # map reg_Slug as"
  have "ran ?scope = set (ds @ ms)" unfolding all by (auto simp: ran_def restrict_scope_def)
  then have names: "mkeys (put_names ?skip ms (put_names ?skip ds [])) =
      reg_Slug ` ran ?scope - reg_Slug ` set (focus # rest)"
    by (auto simp: put_names_keys as(4) mkeys_def [of "[]"])
  have new: "focus \<notin> set rest" using as(2,4) by auto
  obtain loc rgn stw where b: "BucketOrgsByScope ?in os = (loc, rgn, stw)" by (metis prod_cases3)
  define d where "d = \<lparr>rd_Region = focus, rd_Local = loc, rd_Regional = rgn, rd_Statewide = stw,
      rd_Ancestry = rest, rd_DescendantRegionNames = put_names ?skip ms (put_names ?skip ds [])\<rparr>"
  have fields: "rd_Region d = focus" "rd_Local d = loc" "rd_Regional d = rgn" "rd_Statewide d = stw"
      "rd_Ancestry d = rest" "rd_DescendantRegionNames d = put_names ?skip ms (put_names ?skip ds [])"
    by (simp_all add: d_def)
  have "GetRegion rng (ops s) slug = Inr (Some d)"
    using focus ds(1) ms(1) as(1) os(1) b by (simp add: GetRegion_def Let_def as(4) d_def)
  moreover have "is_bucket ?scope Local (all_orgs s) loc \<and> is_bucket ?scope Regional (all_orgs s) rgn \<and>
      is_bucket ?scope Statewide (all_orgs s) stw"
    using buckets unfolding b by simp
  ultimately show ?thesis
    using names new as(3) [unfolded as(4)]
    by (intro exI [of _ d]) (simp only: fields Let_def simp_thms)
qed

end

section \<open>MemStore keeps the contract\<close>

type_synonym mem_state = "go_unicode \<times> range_order \<times> memstore"

definition mem_inv :: "mem_state \<Rightarrow> bool" where
  "mem_inv m = (case m of (U, ro, s) \<Rightarrow> store_inv U s \<and> range_of ro s)"

definition mem_rolls :: "memstore \<Rightarrow> id64 \<Rightarrow> id64 \<Rightarrow> bool" where
  "mem_rolls s metro state \<longleftrightarrow> metro \<in> set (mget_list (rollupByState s) state) \<and> live (regionsByID s) metro"

lemma orgs_for_hydrated:
  assumes "store_inv U s" and "\<forall>i\<in>set ids. live_region s i \<noteq> None"
  shows "OrgsForRegions s ids =
    filter (\<lambda>o1. \<exists>r\<in>set (org_Regions o1). reg_ID r \<in> set ids) (map (hydrated s) (orgs s))"
proof -
  have "(\<exists>rid\<in>set ids. serves s (org_ID o1) rid) \<longleftrightarrow>
      (\<exists>r\<in>set (org_Regions (hydrated s o1)). reg_ID r \<in> set ids)" if "o1 \<in> set (orgs s)" for o1
    using that assms(2) inv_region_ID [OF assms(1)]
    by (fastforce simp: serves_def hydrated_def set_regionsForOrg live_region_iff)
  then have "filter (\<lambda>o1. \<exists>rid\<in>set ids. serves s (org_ID o1) rid) (orgs s) =
      filter (\<lambda>o1. \<exists>r\<in>set (org_Regions (hydrated s o1)). reg_ID r \<in> set ids) (orgs s)"
    by (intro filter_cong) auto
  then show ?thesis
    using OrgsForRegions_spec [of s ids] by (simp add: filter_map o_def)
qed

interpretation mem: atlas_store
  "\<lambda>(U, ro, s). mem_ops U ro s" mem_inv "\<lambda>(U, ro, s). live_region s" "\<lambda>(U, ro, s). ancestor s"
  "\<lambda>(U, ro, s). mem_rolls s" "\<lambda>(U, ro, s). map (hydrated s) (orgs s)"
proof (unfold_locales, goal_cases)
  case (1 m i r)
  then show ?case by (auto simp: mem_inv_def live_region_iff dest: inv_region_ID)
next
  case (2 m i r)
  then show ?case by (auto simp: mem_inv_def live_region_iff)
next
  case (3 m i j)
  then show ?case by (auto simp: mem_inv_def dest: ancestor_live)
next
  case (4 m i j)
  then show ?case by (auto simp: mem_inv_def dest: ancestor_live)
next
  case (5 m i r)
  then show ?case by (auto simp: mem_inv_def intro: ancestor_refl)
next
  case (6 m i j)
  then show ?case by (auto simp: mem_inv_def mem_rolls_def live_region_live)
next
  case (7 m slug r)
  then show ?case
    by (auto simp: mem_inv_def mem_ops_def ResolveRegionBySlug_def live_region_iff
        split: option.splits if_splits dest: inv_region_ID)
next
  case (8 m slug e)
  then show ?case
    by (auto simp: mem_inv_def mem_ops_def ResolveRegionBySlug_def split: option.splits if_splits)
next
  case (9 m i)
  obtain U ro s where m: "m = (U, ro, s)" by (cases m)
  with 9 have "store_inv U s" by (simp add: mem_inv_def)
  from AncestorRegions_contract [OF this, of i] show ?case
    by (auto simp: m mem_ops_def neq_Nil_conv split: option.splits)
next
  case (10 m i)
  then show ?case
    by (auto simp: mem_inv_def mem_ops_def set_DescendantRegions split: prod.splits)
next
  case (11 m i)
  have "set (RollupMetrosFor s i) = {r. \<exists>j. mem_rolls s j i \<and> live_region s j = Some r}" for s
    unfolding RollupMetrosFor_def set_sort_slice mem_rolls_def live_region_live
    by (simp only: set_eq_iff set_collect) blast
  then show ?case by (auto simp: mem_ops_def split: prod.splits)
next
  case (12 m ids)
  then show ?case
    by (auto simp: mem_inv_def mem_ops_def orgs_for_hydrated)
qed

section \<open>Lookup and GetRegion on MemStore\<close>

lemma mem_inv_populated: "populated U s \<Longrightarrow> range_of ro s \<Longrightarrow> mem_inv (U, ro, s)"
  by (simp add: mem_inv_def populated_inv)

text \<open>
  C26. A lookup of a known postal code succeeds. Its ancestry is the leaf and its non-national
  ancestors, and each of the three lists is the bucket of its tier for the scope made of these
  regions: exactly the orgs of that tier attached to one of them, tagged with the slugs they
  match, ordered by sort priority and name.
\<close>

theorem Lookup_MemStore:
  assumes "populated U s" and "range_of ro s"
    and "ResolveLeafRegion U s (lq_Country q) (lq_PostalCode q) = Inr leaf"
  shows "\<exists>res. Lookup (mem_ops U ro s) q = Inr res \<and> lr_Query res = q \<and>
    set (lr_ResolvedAncestry res) = {r. \<exists>j. ancestor s (reg_ID leaf) j \<and> live_region s j = Some r} \<and>
    lr_ResolvedPlaceLabel res = placeLabel (lr_ResolvedAncestry res) \<and>
    (let scope = restrict_scope (ancestor s (reg_ID leaf)) (live_region s) in
       is_bucket scope Local (map (hydrated s) (orgs s)) (lr_Local res) \<and>
       is_bucket scope Regional (map (hydrated s) (orgs s)) (lr_Regional res) \<and>
       is_bucket scope Statewide (map (hydrated s) (orgs s)) (lr_Statewide res))"
  using mem.lookup_correct [OF mem_inv_populated [OF assms(1,2)], of q leaf] assms(3)
  by (simp add: mem_ops_def)

text \<open>An org is in one of the three buckets exactly when one of its regions is in scope.\<close>

lemma buckets_exact:
  assumes "is_bucket scope Local os a" "is_bucket scope Regional os b" "is_bucket scope Statewide os c"
  shows "set (a @ b @ c) = tagged scope ` {o1 \<in> set os. \<exists>r\<in>set (org_Regions o1). scope (reg_ID r) \<noteq> None}"
proof -
  have "mset (a @ b @ c) = mset (map (tagged scope) (filter (\<lambda>o1. matches scope o1 \<noteq> []) os))"
    using assms in_tier_partition [of scope os] by (simp add: is_bucket_def add.assoc)
  then have "set (a @ b @ c) = set (map (tagged scope) (filter (\<lambda>o1. matches scope o1 \<noteq> []) os))"
    by (rule mset_eq_setD)
  then show ?thesis by (auto simp: matches_Nil_iff)
qed

lemma org_ID_tagged [simp]: "org_ID (tagged scope o1) = org_ID o1"
  by (simp add: tagged_def)

lemma org_ID_hydrated [simp]: "org_ID (hydrated s o1) = org_ID o1"
  by (simp add: hydrated_def)

lemma hydrated_in_scope:
  assumes "store_inv U s"
  shows "(\<exists>r\<in>set (org_Regions (hydrated s o1)). restrict_scope P (live_region s) (reg_ID r) \<noteq> None) \<longleftrightarrow>
    (\<exists>rid\<in>set (mget_list (orgRegions s) (org_ID o1)). P rid \<and> live (regionsByID s) rid)"
  using inv_region_ID [OF assms]
  by (fastforce simp: hydrated_def set_regionsForOrg restrict_scope_def live_region_live live_region_iff
      split: if_splits)

text \<open>
  C27. An org is listed by a lookup exactly when it is attached to the leaf region of the postal
  code or to one of its ancestors.
\<close>

theorem Lookup_exact:
  assumes "populated U s" and "range_of ro s"
    and "ResolveLeafRegion U s (lq_Country q) (lq_PostalCode q) = Inr leaf"
  shows "\<exists>res. Lookup (mem_ops U ro s) q = Inr res \<and>
    org_ID ` set (lr_Local res @ lr_Regional res @ lr_Statewide res) =
      {oid. \<exists>rid. ancestor s (reg_ID leaf) rid \<and> serves s oid rid}"
proof -
  let ?scope = "restrict_scope (ancestor s (reg_ID leaf)) (live_region s)"
  have inv: "store_inv U s" using assms(1) by (rule populated_inv)
  from mem.lookup_correct [OF mem_inv_populated [OF assms(1,2)], of q leaf] assms(3)
  obtain res where res: "Lookup (mem_ops U ro s) q = Inr res"
    and "is_bucket ?scope Local (map (hydrated s) (orgs s)) (lr_Local res)"
    "is_bucket ?scope Regional (map (hydrated s) (orgs s)) (lr_Regional res)"
    "is_bucket ?scope Statewide (map (hydrated s) (orgs s)) (lr_Statewide res)"
    by (auto simp: Let_def)
  note exact = buckets_exact [OF this(2-4)]
  have "{o1 \<in> set (map (hydrated s) (orgs s)). \<exists>r\<in>set (org_Regions o1). ?scope (reg_ID r) \<noteq> None} =
      hydrated s ` {o1 \<in> set (orgs s). \<exists>r\<in>set (org_Regions (hydrated s o1)). ?scope (reg_ID r) \<noteq> None}"
    by auto
  then have "org_ID ` set (lr_Local res @ lr_Regional res @ lr_Statewide res) =
      org_ID ` {o1 \<in> set (orgs s). \<exists>r\<in>set (org_Regions (hydrated s o1)). ?scope (reg_ID r) \<noteq> None}"
    unfolding exact by (simp only: image_image org_ID_tagged org_ID_hydrated)
  also have "\<dots> = {oid. \<exists>rid. ancestor s (reg_ID leaf) rid \<and> serves s oid rid}"
    unfolding hydrated_in_scope [OF inv] serves_def
    using ancestor_live [of s "reg_ID leaf"] unfolding live_region_live by blast
  finally show ?thesis using res by blast
qed

text \<open>
  The rollup relation never feeds a postal-code lookup: recording that a metro rolls up to a
  state changes no lookup at all.
\<close>

theorem Lookup_ignores_rollups:
  "Lookup (mem_ops U ro (AddRollupState metro state s)) q = Lookup (mem_ops U ro s) q"
proof -
  have eqs: "regionsByID (AddRollupState metro state s) = regionsByID s"
    "parents (AddRollupState metro state s) = parents s" "orgs (AddRollupState metro state s) = orgs s"
    "orgRegions (AddRollupState metro state s) = orgRegions s"
    "postalToLeaf (AddRollupState metro state s) = postalToLeaf s"
    by (simp_all add: AddRollupState_def split: option.splits)
  have "ResolveLeafRegion U (AddRollupState metro state s) = ResolveLeafRegion U s"
    "AncestorRegions (AddRollupState metro state s) = AncestorRegions s"
    "OrgsForRegions (AddRollupState metro state s) = OrgsForRegions s"
    unfolding fun_eq_iff ResolveLeafRegion_def AncestorRegions_def region_at_def OrgsForRegions_def
      regionsForOrg_def eqs by simp_all
  then show ?thesis unfolding Lookup_def by (simp cong: sum.case_cong)
qed

text \<open>
  A lookup fails exactly when the postal code has no registered leaf, and the error it
  returns is recognised as \<open>ErrPostalCodeNotFound\<close>.
\<close>

theorem Lookup_error_iff:
  "case Lookup (mem_ops U ro s) q of
     Inl e \<Rightarrow> errors_is e ErrPostalCodeNotFound \<and>
       ResolveLeafRegion U s (lq_Country q) (lq_PostalCode q) = Inl (Sentinel ErrPostalCodeNotFound)
   | Inr res \<Rightarrow> \<exists>leaf. ResolveLeafRegion U s (lq_Country q) (lq_PostalCode q) = Inr leaf \<and>
       lr_ResolvedAncestry res = AncestorRegions s (reg_ID leaf)"
proof (cases "ResolveLeafRegion U s (lq_Country q) (lq_PostalCode q)")
  case (Inl e)
  then have "e = Sentinel ErrPostalCodeNotFound"
    by (auto simp: ResolveLeafRegion_def split: option.splits)
  with Inl show ?thesis by (simp add: Lookup_def mem_ops_def)
next
  case (Inr leaf)
  then show ?thesis by (auto simp: Lookup_def mem_ops_def Let_def split: prod.splits)
qed


text \<open>
  An unknown slug and the slug of a national region give no page and no error, for every store state.
\<close>

theorem GetRegion_not_found:
  "GetRegion rng (mem_ops U ro s) slug = Inr None \<longleftrightarrow>
     (\<forall>r. ResolveRegionBySlug U s slug \<noteq> Inr r)"
  by (auto simp: GetRegion_def mem_ops_def ResolveRegionBySlug_def Let_def
      split: option.splits if_splits prod.splits)

end
