(* ===== verification/Dev_Fixtures.thy ===== *)
theory Dev_Fixtures
  imports Lookup
begin

text \<open>
  The built-in demo store (\<open>api/pkg/atlas/devfixtures.go\<close>): NYC, San Francisco and Toronto. Loading
  it into an empty store succeeds; the resulting store instantiates the theorems about stores.
\<close>

section \<open>Definitions\<close>

definition fixture_region :: "id64 \<Rightarrow> region_kind \<Rightarrow> string \<Rightarrow> string \<Rightarrow> country \<Rightarrow> scope_tier \<Rightarrow> int \<Rightarrow>
    string list \<Rightarrow> region" where
  "fixture_region i kind name slug country tier prio ps =
     \<lparr>reg_ID = i, reg_Kind = kind, reg_Name = name, reg_Slug = slug, reg_Country = country,
      reg_ScopeTier = tier, reg_ParentSlugs = ps, reg_SortPriority = prio, reg_RollupStates = []\<rparr>"

definition fixture_org :: "id64 \<Rightarrow> string \<Rightarrow> string \<Rightarrow> string \<Rightarrow> string \<Rightarrow> tag list \<Rightarrow> org" where
  "fixture_org i slug name desc url tags =
     \<lparr>org_ID = i, org_Slug = slug, org_Name = name, org_ShortDesc = desc, org_WebsiteURL = url,
      org_ContactURL = [], org_Tags = tags, org_Regions = [], org_MatchedRegionSlugs = [], org_AddedAt = 0\<rparr>"

definition fixture_regions :: "region list" where
  "fixture_regions =
     [fixture_region 4 ''us:state'' ''NY'' ''ny'' CountryUS ScopeRegional 70 [],
      fixture_region 3 ''us:metro'' ''New York Metro'' ''nyc-metro'' CountryUS ScopeRegional 50 [''ny''],
      fixture_region 2 ''us:county'' ''Kings County, NY'' ''kings-county-ny'' CountryUS ScopeLocal 30 [''nyc-metro'', ''ny''],
      fixture_region 1 ''us:city'' ''Brooklyn'' ''brooklyn-ny'' CountryUS ScopeLocal 10 [''kings-county-ny''],
      fixture_region 13 ''us:state'' ''CA'' ''ca'' CountryUS ScopeRegional 70 [],
      fixture_region 12 ''us:metro'' ''SF Bay Area'' ''sf-bay-area'' CountryUS ScopeRegional 50 [''ca''],
      fixture_region 11 ''us:county'' ''San Francisco County'' ''san-francisco-county-ca'' CountryUS ScopeLocal 30 [''sf-bay-area'', ''ca''],
      fixture_region 10 ''us:city'' ''San Francisco'' ''san-francisco-ca'' CountryUS ScopeLocal 10 [''san-francisco-county-ca''],
      fixture_region 22 ''ca:province'' ''Ontario'' ''ontario'' CountryCA ScopeRegional 70 [],
      fixture_region 21 ''ca:cma'' ''Toronto CMA'' ''toronto-cma'' CountryCA ScopeRegional 50 [''ontario''],
      fixture_region 20 ''ca:city'' ''Toronto'' ''toronto-on'' CountryCA ScopeLocal 10 [''toronto-cma'']]"

definition fixture_postal :: "(country \<times> string \<times> id64) list" where
  "fixture_postal = [(CountryUS, ''11217'', 1), (CountryUS, ''11215'', 1), (CountryUS, ''94110'', 10), (CountryCA, ''M5V'', 20)]"

definition fixture_orgs :: "(org \<times> id64 list) list" where
  "fixture_orgs =
     [(fixture_org 1 ''transalt-brooklyn''
        (''Transportation Alternatives '' @ [CHR 0xE2, CHR 0x80, CHR 0x94] @ '' Brooklyn'')
        (''The Brooklyn committee of NYC'' @ [CHR 0x27] @ ''s largest streets-and-mobility advocacy organization.'')
        ''https://www.transalt.org'' [''safe-streets'', ''cycling'', ''vision-zero''], [1, 2]),
      (fixture_org 2 ''brooklyn-spoke''
        ''Brooklyn Spoke''
        ''Volunteer-led neighborhood group focused on traffic calming and pedestrian safety in central Brooklyn.''
        ''https://brooklynspoke.com'' [''safe-streets'', ''neighborhood''], [1]),
      (fixture_org 3 ''riders-alliance''
        ''Riders Alliance''
        ''Grassroots organization of NYC transit riders fighting for more reliable, affordable, and accessible subways and buses.''
        ''https://www.ridersny.org'' [''transit'', ''grassroots''], [3]),
      (fixture_org 4 ''tri-state-transportation-campaign''
        ''Tri-State Transportation Campaign''
        ''Policy-focused coalition advocating for sustainable transportation across New York, New Jersey, and Connecticut.''
        ''https://tstc.org'' [''transit'', ''policy''], [4]),
      (fixture_org 5 ''streetspac''
        ''StreetsPAC''
        ''Political action committee endorsing candidates for NYC offices based on their record on safe streets and transit.''
        ''https://streetspac.org'' [''political''], [3]),
      (fixture_org 10 ''sf-transit-riders''
        ''San Francisco Transit Riders''
        ''Member-driven advocacy organization fighting for excellent public transit in San Francisco.''
        ''https://www.sftransitriders.org'' [''transit'', ''grassroots''], [10, 11]),
      (fixture_org 11 ''walk-sf''
        ''Walk San Francisco''
        (''Pedestrian advocacy organization working to make San Francisco'' @ [CHR 0x27] @ ''s streets safer for people walking.'')
        ''https://walksf.org'' [''walking'', ''safe-streets'', ''vision-zero''], [10]),
      (fixture_org 12 ''spur''
        ''SPUR''
        ''Bay Area policy organization promoting good planning and good government.''
        ''https://www.spur.org'' [''policy''], [12]),
      (fixture_org 20 ''ttcriders''
        ''TTCriders''
        ''Grassroots membership-based organization advocating for better transit in Toronto.''
        ''https://ttcriders.ca'' [''transit'', ''grassroots''], [20]),
      (fixture_org 21 ''walk-toronto''
        ''Walk Toronto''
        ''Volunteer pedestrian advocacy group working for safer, more walkable streets across Toronto.''
        ''https://walktoronto.ca'' [''walking'', ''safe-streets''], [20])]"

text \<open>\<open>mustFixture\<close> panics on an error: the load stops with \<open>Inl\<close>.\<close>

fun add_regions :: "go_unicode \<Rightarrow> region list \<Rightarrow> memstore \<Rightarrow> memstore result" where
  "add_regions U [] s = Inr s"
| "add_regions U (r # rs) s = (case AddRegion U r s of Inl e \<Rightarrow> Inl e | Inr s' \<Rightarrow> add_regions U rs s')"

fun add_postal :: "go_unicode \<Rightarrow> (country \<times> string \<times> id64) list \<Rightarrow> memstore \<Rightarrow> memstore result" where
  "add_postal U [] s = Inr s"
| "add_postal U ((c, code, leaf) # ps) s =
     (case AddPostalCode U c code leaf s of Inl e \<Rightarrow> Inl e | Inr s' \<Rightarrow> add_postal U ps s')"

fun add_orgs :: "(org \<times> id64 list) list \<Rightarrow> memstore \<Rightarrow> memstore" where
  "add_orgs [] s = s"
| "add_orgs ((o1, ids) # os) s = add_orgs os (AddOrg o1 ids s)"

definition LoadDevFixtures :: "go_unicode \<Rightarrow> memstore \<Rightarrow> memstore result" where
  "LoadDevFixtures U s =
     (case add_regions U fixture_regions s of
        Inl e \<Rightarrow> Inl e
      | Inr s' \<Rightarrow> (case add_postal U fixture_postal s' of
          Inl e \<Rightarrow> Inl e
        | Inr s'' \<Rightarrow> Inr (add_orgs fixture_orgs s'')))"

section \<open>The demo store\<close>

lemma add_regions_populated: "populated U s \<Longrightarrow> add_regions U rs s = Inr s' \<Longrightarrow> populated U s'"
  by (induction rs arbitrary: s) (auto split: sum.splits intro: populated.region)

lemma add_postal_populated: "populated U s \<Longrightarrow> add_postal U ps s = Inr s' \<Longrightarrow> populated U s'"
  by (induction U ps s rule: add_postal.induct) (auto split: sum.splits intro: populated.postal)

lemma add_orgs_populated: "populated U s \<Longrightarrow> populated U (add_orgs os s)"
  by (induction os s rule: add_orgs.induct) (auto intro: populated.org)

lemma LoadDevFixtures_populated:
  "populated U s \<Longrightarrow> LoadDevFixtures U s = Inr s' \<Longrightarrow> populated U s'"
  by (auto simp: LoadDevFixtures_def split: sum.splits
      intro: add_orgs_populated add_postal_populated add_regions_populated)

lemma fixture_postal_codes:
  "NormalizePostalCode U CountryUS ''11217'' = ''11217''" "NormalizePostalCode U CountryUS ''11215'' = ''11215''"
  "NormalizePostalCode U CountryUS ''94110'' = ''94110''" "NormalizePostalCode U CountryCA ''M5V'' = ''M5V''"
proof -
  have "cleaned U ''M5V'' = ''M5V''"
    by (rule cleaned_clean; simp add: clean_byte_def ascii_spaces_def)
  then show "NormalizePostalCode U CountryCA ''M5V'' = ''M5V''"
    by (simp add: NormalizePostalCode_cleaned country_defs)
qed (rule normal_zip; simp add: isDigit_def)+

lemmas fixture_simps = LoadDevFixtures_def fixture_regions_def fixture_postal_def fixture_orgs_def
  AddRegion_def AddPostalCode_def AddOrg_def fixture_region_def fixture_org_def to_lower_id NewMemStore_def
  mget_def mput_def postalKey_def fixture_postal_codes country_defs

text \<open>Case tables that leave every rune above ASCII alone.\<close>

definition plain_unicode :: go_unicode where
  "plain_unicode = \<lparr>uc_lower = (\<lambda>r. r), uc_upper = (\<lambda>r. r), uc_print = (\<lambda>r. True),
     uc_fold = (\<lambda>a b. False)\<rparr>"

definition demo_store :: memstore where
  "demo_store = (case LoadDevFixtures plain_unicode NewMemStore of Inr s \<Rightarrow> s | Inl e \<Rightarrow> NewMemStore)"

definition demo_order :: range_order where
  "demo_order = \<lparr>ro_regions = regionsByID demo_store, ro_parents = parents demo_store,
     ro_slugs = regionsBySlug demo_store\<rparr>"

lemma range_of_demo: "range_of demo_order demo_store"
  by (simp add: range_of_def demo_order_def)

lemma LoadDevFixtures_ok: "\<exists>s. LoadDevFixtures U NewMemStore = Inr s"
  by (simp add: fixture_simps fixture_postal_codes [unfolded country_defs])

lemma demo_store_loaded: "LoadDevFixtures plain_unicode NewMemStore = Inr demo_store"
  using LoadDevFixtures_ok [of plain_unicode] by (auto simp: demo_store_def)

lemma demo_store_populated: "populated plain_unicode demo_store"
  using LoadDevFixtures_populated [OF populated.new demo_store_loaded] .

lemma demo_regionsByID: "regionsByID demo_store = map (\<lambda>r. (reg_ID r, r)) fixture_regions"
  by (simp add: demo_store_def fixture_simps fixture_postal_codes [unfolded country_defs])

lemma demo_regionsBySlug: "regionsBySlug demo_store = map (\<lambda>r. (reg_Slug r, reg_ID r)) fixture_regions"
  by (simp add: demo_store_def fixture_simps fixture_postal_codes [unfolded country_defs])

lemma demo_parents: "parents demo_store = [(3, [4]), (2, [3, 4]), (1, [2]), (12, [13]), (11, [12, 13]),
   (10, [11]), (21, [22]), (20, [21])]"
  by (simp add: demo_store_def fixture_simps fixture_postal_codes [unfolded country_defs])

lemma demo_postalToLeaf: "postalToLeaf demo_store =
   [(''US:11217'', 1), (''US:11215'', 1), (''US:94110'', 10), (''CA:M5V'', 20)]"
  by (simp add: demo_store_def fixture_simps fixture_postal_codes [unfolded country_defs])

section \<open>The theorems about stores at the demo store\<close>

definition brooklyn :: region where
  "brooklyn = fixture_regions ! 3"

definition new_york :: region where
  "new_york = fixture_regions ! 0"

lemma demo_inv: "store_inv plain_unicode demo_store"
  using demo_store_populated by (rule populated_inv)

lemma demo_leaf: "ResolveLeafRegion plain_unicode demo_store CountryUS ''11217'' = Inr brooklyn"
  unfolding ResolveLeafRegion_def demo_postalToLeaf demo_regionsByID brooklyn_def
  by (simp add: postalKey_def fixture_postal_codes [unfolded country_defs] mget_def fixture_regions_def
      fixture_region_def country_defs)

lemma demo_slug: "ResolveRegionBySlug plain_unicode demo_store ''ny'' = Inr new_york"
  unfolding ResolveRegionBySlug_def demo_regionsBySlug demo_regionsByID new_york_def
  by (simp add: to_lower_id mget_def fixture_regions_def fixture_region_def IsNational_def scope_defs)

lemma demo_live: "live_region demo_store 1 = Some brooklyn" "live_region demo_store 4 = Some new_york"
  unfolding live_region_def demo_regionsByID brooklyn_def new_york_def
  by (simp_all add: mget_def fixture_regions_def fixture_region_def IsNational_def scope_defs)

theorem AddRegion_ResolveRegionBySlug_witness:
  "\<exists>s'. AddRegion plain_unicode new_york NewMemStore = Inr s' \<and>
     ResolveRegionBySlug plain_unicode s' ''ny'' = Inr new_york"
proof -
  have "AddRegion plain_unicode new_york NewMemStore =
      Inr (NewMemStore\<lparr>regionsByID := [(4, new_york)], regionsBySlug := [(''ny'', 4)]\<rparr>)"
    by (simp add: new_york_def fixture_simps)
  moreover from AddRegion_ResolveRegionBySlug [OF this _ store_inv_New, of "''ny''"]
  have "ResolveRegionBySlug plain_unicode
      (NewMemStore\<lparr>regionsByID := [(4, new_york)], regionsBySlug := [(''ny'', 4)]\<rparr>) ''ny'' = Inr new_york"
    by (simp add: registered_def NewMemStore_def mkeys_def to_lower_id new_york_def fixture_regions_def
        fixture_region_def IsNational_def scope_defs)
  ultimately show ?thesis by blast
qed

theorem AncestorRegions_spec_witness:
  "distinct (map reg_ID (AncestorRegions demo_store 1)) \<and> hd (AncestorRegions demo_store 1) = brooklyn"
  using AncestorRegions_spec [OF demo_inv, of 1] by (simp add: demo_live)

theorem DescendantRegions_converse_witness:
  "brooklyn \<in> set (DescendantRegions demo_order demo_store 4) \<longleftrightarrow> new_york \<in> set (AncestorRegions demo_store 1)"
  using DescendantRegions_converse [OF demo_inv range_of_demo demo_live(2,1)] by simp

theorem ListRegions_spec_witness:
  "sorted_wrt (\<lambda>a b. \<not> summary_less b a) (ListRegions demo_order demo_store) \<and>
   distinct (map (reg_ID \<circ> rs_Region) (ListRegions demo_order demo_store))"
  using ListRegions_spec [OF demo_inv range_of_demo] by simp

theorem Stats_spec_witness:
  "st_TotalOrgCount (Stats demo_order demo_store) = length (filter (hasNonNational demo_store) (orgs demo_store)) \<and>
   st_TotalRegionCount (Stats demo_order demo_store) = card {i. live (regionsByID demo_store) i}"
  using Stats_spec [OF demo_inv range_of_demo] by simp

theorem SearchRegions_complete_witness:
  "set (map rsr_Region (SearchRegions plain_unicode demo_order demo_store ''ny'' 20)) =
    {r. (\<exists>i. live_region demo_store i = Some r) \<and>
        (contains (to_lower plain_unicode (reg_Name r)) ''ny'' \<or> contains (to_lower plain_unicode (reg_Slug r)) ''ny'')}"
proof -
  have trim: "to_lower plain_unicode (trim_space ''ny'') = ''ny''"
    using trim_space_solid [of "''ny''"] by (simp add: solid_byte_def ascii_spaces_def to_lower_id)
  have "length (ro_regions demo_order) = 11"
    by (simp add: demo_order_def demo_regionsByID fixture_regions_def)
  then have few: "length (collect (scored plain_unicode ''ny'') (ro_regions demo_order)) \<le> nat (clamp_limit 20)"
    using length_collect [of "scored plain_unicode ''ny''" "ro_regions demo_order"]
    by (simp add: clamp_limit_def limit_defs)
  show ?thesis
    using SearchRegions_complete [OF demo_inv range_of_demo, of "''ny''" 20] few unfolding trim by simp
qed

definition demo_query :: lookup_query where
  "demo_query = \<lparr>lq_PostalCode = ''11217'', lq_Country = CountryUS\<rparr>"

lemma demo_query_leaf:
  "ResolveLeafRegion plain_unicode demo_store (lq_Country demo_query) (lq_PostalCode demo_query) = Inr brooklyn"
  by (simp add: demo_query_def demo_leaf)

theorem Lookup_MemStore_witness:
  "\<exists>res. Lookup (mem_ops plain_unicode demo_order demo_store) demo_query = Inr res \<and>
     set (lr_ResolvedAncestry res) =
       {r. \<exists>j. ancestor demo_store (reg_ID brooklyn) j \<and> live_region demo_store j = Some r}"
  using Lookup_MemStore [OF demo_store_populated range_of_demo demo_query_leaf] by blast

theorem Lookup_exact_witness:
  "\<exists>res. Lookup (mem_ops plain_unicode demo_order demo_store) demo_query = Inr res \<and>
    org_ID ` set (lr_Local res @ lr_Regional res @ lr_Statewide res) =
      {oid. \<exists>rid. ancestor demo_store (reg_ID brooklyn) rid \<and> serves demo_store oid rid}"
  using Lookup_exact [OF demo_store_populated range_of_demo demo_query_leaf] .


end
