(* ===== verification/Cycle_Detect.thy ===== *)
theory Cycle_Detect
  imports Atlas_Types
begin

text \<open>
  Cycle detection over the parent graph (\<open>api/internal/seedfiles/regions.go\<close>): the white/gray/black
  depth-first search and its two callers. The recursion of the closure \<open>dfs\<close> is written with its
  call stack as data: a pending call is \<open>Enter\<close>, the assignment after the loop is \<open>Leave\<close>. The search
  reports an error exactly when a cycle is reachable, and the path it reports is a walk to a repeated slug.
\<close>

section \<open>Definitions\<close>

datatype color = White | Gray | Black

datatype dfs_task = Enter string "string list" | Leave string

definition color_of :: "(string, color) gomap \<Rightarrow> string \<Rightarrow> color" where
  "color_of c slug = (case mget c slug of None \<Rightarrow> White | Some k \<Rightarrow> k)"

definition arrow :: string where
  "arrow = [CHR '' '', CHR 0xE2, CHR 0x86, CHR 0x92, CHR '' '']"

definition cycle_error :: "string list \<Rightarrow> go_error" where
  "cycle_error path = Errorf
     (''seedfiles: cycle detected in parent graph:'' @ [CHR 0x0A] @ ''  %s'' @ [CHR 0x0A] @
      ''fix the parents field on one of these regions'') [join path arrow]"

text \<open>The number of keys of the parent map that are still white.\<close>

definition white_keys :: "(string, string list) gomap \<Rightarrow> (string, color) gomap \<Rightarrow> string set" where
  "white_keys parents c = {k \<in> mkeys parents. color_of c k = White}"

fun task_weight :: "dfs_task \<Rightarrow> nat" where
  "task_weight (Enter s p) = 2"
| "task_weight (Leave s) = 1"

function dfs_run :: "(string, string list) gomap \<Rightarrow> (string \<Rightarrow> bool) \<Rightarrow> dfs_task list \<Rightarrow> (string, color) gomap \<Rightarrow>
    go_error option" where
  "dfs_run parents keep [] c = None"
| "dfs_run parents keep (Leave slug # ts) c = dfs_run parents keep ts (mput slug Black c)"
| "dfs_run parents keep (Enter slug path # ts) c =
     (case color_of c slug of
        Black \<Rightarrow> dfs_run parents keep ts c
      | Gray \<Rightarrow> Some (cycle_error (path @ [slug]))
      | White \<Rightarrow> dfs_run parents keep
          (map (\<lambda>p. Enter p (path @ [slug])) (filter keep (mget_list parents slug)) @ Leave slug # ts)
          (mput slug Gray c))"
  by pat_completeness auto

lemma color_of_mput [simp]: "color_of (mput k v c) k' = (if k = k' then v else color_of c k')"
  by (simp add: color_of_def)

lemma white_keys_mput:
  "v \<noteq> White \<Longrightarrow> white_keys parents (mput k v c) = white_keys parents c - {k}"
  by (auto simp: white_keys_def)

lemma finite_white_keys [simp]: "finite (white_keys parents c)"
  by (simp add: white_keys_def)

lemma card_white_less:
  "k \<in> mkeys parents \<Longrightarrow> color_of c k = White \<Longrightarrow> card (white_keys parents c - {k}) < card (white_keys parents c)"
  by (rule psubset_card_mono) (auto simp: white_keys_def)

termination dfs_run
proof (relation "measures [\<lambda>(parents, keep, ts, c). card (white_keys parents c),
      \<lambda>(parents, keep, ts, c). sum_list (map task_weight ts)]", goal_cases)
  case (2 parents keep slug ts c)
  have "card (white_keys parents c - {slug}) \<le> card (white_keys parents c)" by (rule card_mono) auto
  then show ?case by (simp add: white_keys_mput le_less)
next
  case (3 parents keep slug path ts c)
  show ?case
  proof (cases "slug \<in> mkeys parents")
    case True
    with 3 show ?thesis by (simp add: white_keys_mput card_white_less)
  next
    case False
    then have "mget parents slug = None" "white_keys parents c - {slug} = white_keys parents c"
      by (auto simp: mkeys_conv_dom white_keys_def)
    then show ?thesis by (simp add: white_keys_mput mget_list_def)
  qed
qed simp_all

definition detectCycles3Color :: "string list \<Rightarrow> (string, string list) gomap \<Rightarrow> (string \<Rightarrow> bool) \<Rightarrow> go_error option" where
  "detectCycles3Color order parents keep = dfs_run parents keep (map (\<lambda>s. Enter s []) order) []"

definition string_less :: "string \<Rightarrow> string \<Rightarrow> bool" where
  "string_less a b \<longleftrightarrow> a < b"

fun put_parents :: "region list \<Rightarrow> (string, string list) gomap \<Rightarrow> (string, string list) gomap" where
  "put_parents [] m = m"
| "put_parents (r # rs) m = put_parents rs (mput (reg_Slug r) (reg_ParentSlugs r) m)"

definition DetectCycles :: "region list \<Rightarrow> go_error option" where
  "DetectCycles rs = detectCycles3Color (map reg_Slug rs) (put_parents rs []) (\<lambda>p. p \<in> set (map reg_Slug rs))"

text \<open>\<open>es\<close> is the order of the range over the map; the slugs are then sorted.\<close>

definition DetectCyclesGraph :: "(string \<times> string list) list \<Rightarrow> (string, string list) gomap \<Rightarrow> go_error option" where
  "DetectCyclesGraph es parents = detectCycles3Color (sort_slice string_less (map fst es)) parents (\<lambda>p. True)"

interpretation string_order: total_weak_order string_less
  unfolding string_less_def by unfold_locales auto

section \<open>Invariant of the search\<close>

definition edges :: "(string, string list) gomap \<Rightarrow> (string \<Rightarrow> bool) \<Rightarrow> (string \<times> string) set" where
  "edges parents keep = {(x, p). p \<in> set (mget_list parents x) \<and> keep p}"

text \<open>
  The stack under a call path: above the \<open>Leave\<close> of each open call are the calls its loop still has to
  make; what the loop has already done is black, except the call that is open now (\<open>cur\<close>).
\<close>

inductive stack :: "(string, string list) gomap \<Rightarrow> (string \<Rightarrow> bool) \<Rightarrow> (string, color) gomap \<Rightarrow>
    string set \<Rightarrow> string list \<Rightarrow> dfs_task list \<Rightarrow> bool" for parents keep c where
  root: "stack parents keep c cur [] (map (\<lambda>s. Enter s []) ss)"
| call: "stack parents keep c {x} path ts \<Longrightarrow> filter keep (mget_list parents x) = old @ ps \<Longrightarrow>
    (\<And>y. y \<in> set old \<Longrightarrow> y \<in> cur \<or> color_of c y = Black) \<Longrightarrow>
    (path \<noteq> [] \<Longrightarrow> (last path, x) \<in> edges parents keep) \<Longrightarrow>
    stack parents keep c cur (path @ [x]) (map (\<lambda>p. Enter p (path @ [x])) ps @ Leave x # ts)"

text \<open>The black slugs in the order in which they finished: all parents of each come before it.\<close>

definition finished :: "(string, string list) gomap \<Rightarrow> (string \<Rightarrow> bool) \<Rightarrow> (string, color) gomap \<Rightarrow> string list \<Rightarrow> bool" where
  "finished parents keep c bs \<longleftrightarrow> distinct bs \<and> (\<forall>x. x \<in> set bs \<longleftrightarrow> color_of c x = Black) \<and>
     (\<forall>i<length bs. \<forall>p. (bs ! i, p) \<in> edges parents keep \<longrightarrow> p \<in> set (take i bs))"

definition dfs_inv :: "(string, string list) gomap \<Rightarrow> (string \<Rightarrow> bool) \<Rightarrow> (string, color) gomap \<Rightarrow> string list \<Rightarrow>
    string list \<Rightarrow> dfs_task list \<Rightarrow> bool" where
  "dfs_inv parents keep c bs path ts \<longleftrightarrow> stack parents keep c {} path ts \<and> finished parents keep c bs \<and>
     distinct path \<and> (\<forall>x. x \<in> set path \<longleftrightarrow> color_of c x = Gray)"

lemma stack_mono:
  "stack parents keep c cur path ts \<Longrightarrow> (\<And>y. color_of c y = Black \<Longrightarrow> color_of c' y = Black) \<Longrightarrow>
   (\<And>y. y \<in> cur - cur' \<Longrightarrow> color_of c' y = Black) \<Longrightarrow> stack parents keep c' cur' path ts"
proof (induction arbitrary: cur' rule: stack.induct)
  case (call x path ts old ps cur)
  show ?case by (rule stack.call [where old = old]) (use call in auto)
qed (auto intro: stack.root)

lemma stack_Leave:
  "stack parents keep c {} path (Leave x # ts) \<Longrightarrow>
   \<exists>path'. path = path' @ [x] \<and> stack parents keep c {x} path' ts \<and>
     (\<forall>p. (x, p) \<in> edges parents keep \<longrightarrow> color_of c p = Black)"
proof (erule stack.cases, goal_cases)
  case (2 y path' ts' old ps cur)
  then have eqs: "ps = []" "y = x" "ts' = ts" by (auto simp: Cons_eq_append_conv)
  have "color_of c p = Black" if "(x, p) \<in> edges parents keep" for p
  proof -
    from that have "p \<in> set (filter keep (mget_list parents y))" by (simp add: edges_def eqs)
    then show ?thesis using 2 eqs by auto
  qed
  with 2 eqs show ?case by auto
qed (auto simp: Cons_eq_map_conv)

lemma stack_Enter:
  "stack parents keep c {} path (Enter s q # ts) \<Longrightarrow>
   q = path \<and> stack parents keep c {s} path ts \<and> (path \<noteq> [] \<longrightarrow> (last path, s) \<in> edges parents keep)"
proof (erule stack.cases, goal_cases)
  case (1 cur ss)
  then show ?case by (auto simp: Cons_eq_map_conv intro: stack.root)
next
  case (2 x path' ts' old ps cur)
  then obtain ps' where ps: "ps = s # ps'" "q = path" "ts = map (\<lambda>p. Enter p (path' @ [x])) ps' @ Leave x # ts'"
    by (auto simp: Cons_eq_append_conv Cons_eq_map_conv)
  have "s \<in> set (filter keep (mget_list parents x))" using 2 ps by simp
  then have "(x, s) \<in> edges parents keep" by (simp add: edges_def)
  moreover have "stack parents keep c {s} (path' @ [x]) (map (\<lambda>p. Enter p (path' @ [x])) ps' @ Leave x # ts')"
    by (rule stack.call [where old = "old @ [s]"]) (use 2 ps in auto)
  ultimately show ?case using 2 ps by simp
qed

lemma stack_chain: "stack parents keep c cur path ts \<Longrightarrow> successively (\<lambda>x y. (x, y) \<in> edges parents keep) path"
  by (induction rule: stack.induct) (auto simp: successively_append_iff)

lemma finished_gray: "finished parents keep c bs \<Longrightarrow> color_of c x \<noteq> Black \<Longrightarrow> v \<noteq> Black \<Longrightarrow>
    finished parents keep (mput x v c) bs"
  unfolding finished_def by auto

lemma finished_snoc:
  assumes "finished parents keep c bs" and "color_of c x \<noteq> Black"
    and "\<And>p. (x, p) \<in> edges parents keep \<Longrightarrow> color_of c p = Black"
  shows "finished parents keep (mput x Black c) (bs @ [x])"
  using assms unfolding finished_def by (auto simp: nth_append less_Suc_eq)

lemma dfs_inv_Leave:
  assumes "dfs_inv parents keep c bs path (Leave x # ts)"
  shows "\<exists>path'. dfs_inv parents keep (mput x Black c) (bs @ [x]) path' ts"
proof -
  from assms obtain path' where p: "path = path' @ [x]" "stack parents keep c {x} path' ts"
    "\<forall>p. (x, p) \<in> edges parents keep \<longrightarrow> color_of c p = Black"
    using stack_Leave unfolding dfs_inv_def by blast
  have gray: "color_of c x = Gray" and dist: "distinct (path' @ [x])"
    using assms p(1) unfolding dfs_inv_def by auto
  have "stack parents keep (mput x Black c) {} path' ts"
    using p(2) by (rule stack_mono) auto
  moreover have "finished parents keep (mput x Black c) (bs @ [x])"
    using assms p(3) gray unfolding dfs_inv_def by (intro finished_snoc) auto
  moreover have "\<forall>y. y \<in> set path' \<longleftrightarrow> color_of (mput x Black c) y = Gray"
    using assms p(1) dist unfolding dfs_inv_def by auto
  ultimately show ?thesis using dist unfolding dfs_inv_def by auto
qed

lemma dfs_inv_skip:
  assumes "dfs_inv parents keep c bs path (Enter s q # ts)" and "color_of c s = Black"
  shows "dfs_inv parents keep c bs path ts"
proof -
  have "stack parents keep c {s} path ts"
    using stack_Enter assms(1) unfolding dfs_inv_def by blast
  then have "stack parents keep c {} path ts" by (rule stack_mono) (use assms(2) in auto)
  with assms(1) show ?thesis unfolding dfs_inv_def by blast
qed

lemma dfs_inv_open:
  assumes inv: "dfs_inv parents keep c bs path (Enter s q # ts)" and white: "color_of c s = White"
  shows "dfs_inv parents keep (mput s Gray c) bs (path @ [s])
    (map (\<lambda>p. Enter p (q @ [s])) (filter keep (mget_list parents s)) @ Leave s # ts)"
proof -
  have e: "q = path" "stack parents keep c {s} path ts" "path \<noteq> [] \<longrightarrow> (last path, s) \<in> edges parents keep"
    using stack_Enter inv unfolding dfs_inv_def by blast+
  have "stack parents keep (mput s Gray c) {s} path ts"
    using e(2) by (rule stack_mono) (use white in auto)
  then have "stack parents keep (mput s Gray c) {} (path @ [s])
      (map (\<lambda>p. Enter p (path @ [s])) (filter keep (mget_list parents s)) @ Leave s # ts)"
    by (rule stack.call [where old = "[]"]) (use e(3) in auto)
  moreover have "finished parents keep (mput s Gray c) bs"
    using inv white unfolding dfs_inv_def by (intro finished_gray) auto
  moreover have "s \<notin> set path" using inv white unfolding dfs_inv_def by auto
  ultimately show ?thesis using inv e(1) unfolding dfs_inv_def by auto
qed

fun task_slug :: "dfs_task \<Rightarrow> string" where
  "task_slug (Enter s p) = s"
| "task_slug (Leave s) = s"

definition done_in :: "(string, color) gomap \<Rightarrow> dfs_task list \<Rightarrow> bool" where
  "done_in c ts \<longleftrightarrow> (\<forall>t\<in>set ts. color_of c (task_slug t) = Black)"

definition walk_to_repeat :: "(string, string list) gomap \<Rightarrow> (string \<Rightarrow> bool) \<Rightarrow> string list \<Rightarrow> bool" where
  "walk_to_repeat parents keep w \<longleftrightarrow> w \<noteq> [] \<and> last w \<in> set (butlast w) \<and>
     successively (\<lambda>x y. (x, y) \<in> edges parents keep) w"

lemma dfs_run_correct:
  "dfs_inv parents keep c bs path ts \<Longrightarrow>
   case dfs_run parents keep ts c of
     None \<Rightarrow> \<exists>c' bs'. finished parents keep c' bs' \<and> (\<forall>x. color_of c x = Black \<longrightarrow> color_of c' x = Black) \<and> done_in c' ts
   | Some e \<Rightarrow> \<exists>w. e = cycle_error w \<and> walk_to_repeat parents keep w"
proof (induction parents keep ts c arbitrary: bs path rule: dfs_run.induct)
  case (1 parents keep c)
  then show ?case by (auto simp: dfs_inv_def done_in_def)
next
  case (2 parents keep slug ts c)
  then obtain path' where "dfs_inv parents keep (mput slug Black c) (bs @ [slug]) path' ts"
    using dfs_inv_Leave by blast
  from "2.IH" [OF this] show ?case by (fastforce simp: done_in_def split: option.splits)
next
  case (3 parents keep slug q ts c)
  show ?case
  proof (cases "color_of c slug")
    case White
    let ?ts = "map (\<lambda>p. Enter p (q @ [slug])) (filter keep (mget_list parents slug)) @ Leave slug # ts"
    have run: "dfs_run parents keep (Enter slug q # ts) c = dfs_run parents keep ?ts (mput slug Gray c)"
      using White by simp
    have sub: "done_in c' (Enter slug q # ts)" if "done_in c' ?ts" for c'
      using that by (simp add: done_in_def)
    have blk: "color_of c' x = Black" if "\<forall>x. color_of (mput slug Gray c) x = Black \<longrightarrow> color_of c' x = Black"
        "color_of c x = Black" for c' x
      using that White by (metis color.distinct(3) color_of_mput)
    show ?thesis
    proof (cases "dfs_run parents keep ?ts (mput slug Gray c)")
      case None
      with "3.IH"(1) [OF White dfs_inv_open [OF "3.prems" White]]
      obtain c' bs' where c': "finished parents keep c' bs'" "done_in c' ?ts"
        "\<forall>x. color_of (mput slug Gray c) x = Black \<longrightarrow> color_of c' x = Black"
        by (simp only: option.case) blast
      show ?thesis unfolding run None option.case
        using c'(1) sub [OF c'(2)] blk [OF c'(3)] by blast
    next
      case (Some e)
      with "3.IH"(1) [OF White dfs_inv_open [OF "3.prems" White]] show ?thesis unfolding run by simp
    qed
  next
    case Gray
    have e: "q = path" "path \<noteq> [] \<longrightarrow> (last path, slug) \<in> edges parents keep"
      using stack_Enter "3.prems" unfolding dfs_inv_def by blast+
    have "successively (\<lambda>x y. (x, y) \<in> edges parents keep) path"
      using "3.prems" stack_chain unfolding dfs_inv_def by blast
    moreover have "slug \<in> set path" using "3.prems" Gray unfolding dfs_inv_def by blast
    ultimately have "walk_to_repeat parents keep (q @ [slug])"
      using e by (auto simp: walk_to_repeat_def successively_append_iff)
    with Gray show ?thesis by auto
  next
    case Black
    from "3.IH"(2) [OF Black dfs_inv_skip [OF "3.prems" Black]] Black show ?thesis
      by (auto simp: done_in_def split: option.splits)
  qed
qed

section \<open>What the search reports\<close>

lemma finished_rank:
  assumes "finished parents keep c bs" and "i < length bs" and "(bs ! i, y) \<in> (edges parents keep)\<^sup>+"
  shows "y \<in> set (take i bs)"
  using assms(3)
proof (induction rule: trancl_induct)
  case (base y)
  with assms(1,2) show ?case by (simp add: finished_def)
next
  case (step y z)
  then obtain j where j: "j < i" "j < length bs" "bs ! j = y"
    by (auto simp: in_set_conv_nth)
  with step(2) assms(1) have "z \<in> set (take j bs)" by (auto simp: finished_def)
  then show ?case using j(1) set_take_subset_set_take [of j i bs] by auto
qed

lemma finished_acyclic:
  assumes "finished parents keep c bs" and "x \<in> set bs"
  shows "(x, x) \<notin> (edges parents keep)\<^sup>+"
proof
  assume cyc: "(x, x) \<in> (edges parents keep)\<^sup>+"
  from assms(2) obtain i where i: "i < length bs" "bs ! i = x" by (auto simp: in_set_conv_nth)
  with finished_rank [OF assms(1)] cyc have "x \<in> set (take i bs)" by blast
  then obtain j where "j < i" "bs ! j = x" by (auto simp: in_set_conv_nth)
  with i assms(1) show False by (auto simp: finished_def distinct_conv_nth)
qed

lemma finished_closed:
  assumes "finished parents keep c bs" and "x \<in> set bs" and "(x, y) \<in> (edges parents keep)\<^sup>*"
  shows "y \<in> set bs"
  using assms(3)
proof (induction rule: rtrancl_induct)
  case (step y z)
  then obtain i where "i < length bs" "bs ! i = y" by (auto simp: in_set_conv_nth)
  with step(2) assms(1) show ?case by (auto simp: finished_def dest: in_set_takeD)
qed (rule assms(2))

lemma walk_path: "successively (\<lambda>x y. (x, y) \<in> E) (x # w) \<Longrightarrow> y \<in> set w \<Longrightarrow> (x, y) \<in> E\<^sup>+"
proof (induction w arbitrary: x)
  case (Cons z w)
  then have e: "(x, z) \<in> E" by simp
  show ?case
  proof (cases "y = z")
    case True
    with e show ?thesis by auto
  next
    case False
    have "(z, y) \<in> E\<^sup>+" by (rule Cons.IH) (use Cons.prems False in auto)
    with e show ?thesis by (rule trancl_into_trancl2)
  qed
qed simp

lemma walk_to_repeat_cycle:
  assumes "walk_to_repeat parents keep w"
  shows "(last w, last w) \<in> (edges parents keep)\<^sup>+"
proof -
  obtain v x where w: "w = v @ [x]"
    using assms unfolding walk_to_repeat_def by (metis append_butlast_last_id)
  with assms have "x \<in> set v" and walk: "successively (\<lambda>x y. (x, y) \<in> edges parents keep) (v @ [x])"
    by (simp_all add: walk_to_repeat_def)
  then obtain a b where v: "v = a @ x # b" by (meson split_list)
  have "successively (\<lambda>x y. (x, y) \<in> edges parents keep) (a @ (x # b @ [x]))"
    using walk by (simp add: v)
  then have "successively (\<lambda>x y. (x, y) \<in> edges parents keep) (x # b @ [x])"
    unfolding successively_append_iff by blast
  from walk_path [OF this, of x] show ?thesis by (simp add: w)
qed

lemma dfs_inv_start: "dfs_inv parents keep [] [] [] (map (\<lambda>s. Enter s []) order)"
  by (auto simp: dfs_inv_def finished_def color_of_def intro: stack.root)

lemma detect_sound:
  "detectCycles3Color order parents keep = Some e \<Longrightarrow>
   \<exists>w. e = cycle_error w \<and> walk_to_repeat parents keep w"
  using dfs_run_correct [OF dfs_inv_start, of parents keep order] by (simp add: detectCycles3Color_def)

lemma detect_complete:
  assumes "detectCycles3Color order parents keep = None" and "s \<in> set order" and "(s, x) \<in> (edges parents keep)\<^sup>*"
  shows "(x, x) \<notin> (edges parents keep)\<^sup>+"
proof -
  obtain c bs where fin: "finished parents keep c bs" and don: "done_in c (map (\<lambda>s. Enter s []) order)"
    using dfs_run_correct [OF dfs_inv_start, of parents keep order] assms(1)
    by (auto simp: detectCycles3Color_def)
  have "color_of c s = Black" using don assms(2) by (simp add: done_in_def)
  then have "s \<in> set bs" using fin by (simp add: finished_def)
  then have "x \<in> set bs" using finished_closed [OF fin _ assms(3)] by blast
  then show ?thesis by (rule finished_acyclic [OF fin])
qed

text \<open>An edge leaves only a key of the map.\<close>

lemma edges_keys: "(x, y) \<in> edges parents keep \<Longrightarrow> x \<in> mkeys parents"
  by (cases "mget parents x") (auto simp: edges_def mget_list_def mkeys_conv_dom)

lemma DetectCyclesGraph_correct:
  assumes "ranges_over es parents"
  shows "case DetectCyclesGraph es parents of
     None \<Rightarrow> acyclic (edges parents (\<lambda>_. True))
   | Some e \<Rightarrow> \<not> acyclic (edges parents (\<lambda>_. True)) \<and>
       (\<exists>w. e = cycle_error w \<and> walk_to_repeat parents (\<lambda>_. True) w)"
proof (cases "DetectCyclesGraph es parents")
  case None
  have "(x, x) \<notin> (edges parents (\<lambda>_. True))\<^sup>+" for x
  proof
    assume cyc: "(x, x) \<in> (edges parents (\<lambda>_. True))\<^sup>+"
    then obtain y where "(x, y) \<in> edges parents (\<lambda>_. True)" by (meson tranclD)
    then have "x \<in> set (map fst es)"
      using edges_keys ranges_over_set [OF assms] by (force simp: mkeys_def)
    with detect_complete [OF None [unfolded DetectCyclesGraph_def], of x x] cyc show False by simp
  qed
  with None show ?thesis by (simp add: acyclic_def)
next
  case (Some e)
  then obtain w where w: "e = cycle_error w" "walk_to_repeat parents (\<lambda>_. True) w"
    using detect_sound unfolding DetectCyclesGraph_def by blast
  then have "\<not> acyclic (edges parents (\<lambda>_. True))"
    using walk_to_repeat_cycle unfolding acyclic_def by blast
  with w Some show ?thesis by auto
qed

text \<open>
  C36. \<open>DetectCyclesGraph\<close> fails exactly when the parent graph has a cycle, whatever the order of
  the map range, and the path in its message is a walk along parent edges that ends in a slug it
  already visited. The search always ends.
\<close>

theorem DetectCyclesGraph_iff_cyclic:
  assumes "ranges_over es parents"
  shows "case DetectCyclesGraph es parents of
     None \<Rightarrow> acyclic (edges parents (\<lambda>_. True))
   | Some e \<Rightarrow> \<not> acyclic (edges parents (\<lambda>_. True)) \<and>
       (\<exists>w. e = cycle_error w \<and> walk_to_repeat parents (\<lambda>_. True) w)"
  by (rule DetectCyclesGraph_correct) (rule assms)

lemma put_parents_keys: "mkeys (put_parents rs m) = mkeys m \<union> reg_Slug ` set rs"
  by (induction rs arbitrary: m) auto

text \<open>
  The per-file check fails exactly when the file's own regions have a cycle among themselves:
  parents defined in other files are ignored.
\<close>

lemma DetectCycles_iff_cyclic:
  "DetectCycles rs = None \<longleftrightarrow> acyclic (edges (put_parents rs []) (\<lambda>p. p \<in> reg_Slug ` set rs))"
proof
  assume none: "DetectCycles rs = None"
  have "(x, x) \<notin> (edges (put_parents rs []) (\<lambda>p. p \<in> set (map reg_Slug rs)))\<^sup>+" for x
  proof
    assume cyc: "(x, x) \<in> (edges (put_parents rs []) (\<lambda>p. p \<in> set (map reg_Slug rs)))\<^sup>+"
    then obtain y where "(x, y) \<in> edges (put_parents rs []) (\<lambda>p. p \<in> set (map reg_Slug rs))" by (meson tranclD)
    then have "x \<in> set (map reg_Slug rs)"
      using edges_keys by (force simp: put_parents_keys mkeys_def [of "[]"])
    with detect_complete [OF none [unfolded DetectCycles_def], of x x] cyc show False by simp
  qed
  then show "acyclic (edges (put_parents rs []) (\<lambda>p. p \<in> reg_Slug ` set rs))" by (simp add: acyclic_def)
next
  assume ac: "acyclic (edges (put_parents rs []) (\<lambda>p. p \<in> reg_Slug ` set rs))"
  show "DetectCycles rs = None"
  proof (rule ccontr)
    assume "DetectCycles rs \<noteq> None"
    then obtain w where "walk_to_repeat (put_parents rs []) (\<lambda>p. p \<in> set (map reg_Slug rs)) w"
      using detect_sound unfolding DetectCycles_def by blast
    from walk_to_repeat_cycle [OF this] ac show False by (simp add: acyclic_def)
  qed
qed

theorem DetectCyclesGraph_iff_cyclic_witness:
  "case DetectCyclesGraph [(''a'', [''b'']), (''b'', [''a''])] [(''b'', [''a'']), (''a'', [''b''])] of
     None \<Rightarrow> acyclic (edges [(''b'', [''a'']), (''a'', [''b''])] (\<lambda>_. True))
   | Some e \<Rightarrow> \<not> acyclic (edges [(''b'', [''a'']), (''a'', [''b''])] (\<lambda>_. True)) \<and>
       (\<exists>w. e = cycle_error w \<and> walk_to_repeat [(''b'', [''a'']), (''a'', [''b''])] (\<lambda>_. True) w)"
  by (rule DetectCyclesGraph_iff_cyclic) (simp add: ranges_over_def)

end
