(* ===== verification/Submission.thy ===== *)
theory Submission
  imports Atlas_Types
begin

text \<open>
  Public submissions: the data of \<open>api/pkg/atlas/submission.go\<close>, the validation of
  submission_validate.go and the per-record checks of the seed loader (\<open>internal/seedfiles/orgs.go\<close>)
  that share its URL classifier. \<open>url.Parse\<close> is a parameter \<open>P\<close> giving scheme, opaque part and host
  or an error: every theorem here holds for any parser.
\<close>

section \<open>Data\<close>

type_synonym submission_status = string

definition SubmissionPending :: submission_status where "SubmissionPending = ''pending''"
definition SubmissionApproved :: submission_status where "SubmissionApproved = ''approved''"
definition SubmissionRejected :: submission_status where "SubmissionRejected = ''rejected''"

lemmas status_defs = SubmissionPending_def SubmissionApproved_def SubmissionRejected_def

record submission_payload =
  sp_Name :: string
  sp_ShortDesc :: string
  sp_WebsiteURL :: string
  sp_ContactURL :: string
  sp_Tags :: "string list"
  sp_RegionSlugs :: "string list"

record submission =
  sub_PublicID :: string
  sub_Payload :: submission_payload
  sub_SubmitterName :: string
  sub_SubmitterEmail :: string
  sub_SubmitterNote :: string
  sub_Status :: submission_status
  sub_CreatedAt :: instant
  sub_ProcessedAt :: "instant option"
  sub_PromotionPRURL :: string
  sub_PromotionError :: string
  sub_RejectionReason :: string

record new_submission_input =
  ni_Payload :: submission_payload
  ni_SubmitterName :: string
  ni_SubmitterEmail :: string
  ni_SubmitterNote :: string

record url_parts =
  u_Scheme :: string
  u_Opaque :: string
  u_Host :: string

type_synonym url_parser = "string \<Rightarrow> url_parts result"

definition MaxNameLen :: nat where "MaxNameLen = 200"
definition MaxShortDescLen :: nat where "MaxShortDescLen = 1000"
definition MaxURLLen :: nat where "MaxURLLen = 500"
definition MaxTagLen :: nat where "MaxTagLen = 50"
definition MaxTags :: nat where "MaxTags = 20"
definition MaxRegionSlugLen :: nat where "MaxRegionSlugLen = 100"
definition MaxRegionSlugs :: nat where "MaxRegionSlugs = 20"
definition MaxSubmitterNameLen :: nat where "MaxSubmitterNameLen = 200"
definition MaxSubmitterEmailLen :: nat where "MaxSubmitterEmailLen = 320"
definition MaxSubmitterNoteLen :: nat where "MaxSubmitterNoteLen = 2000"

lemmas cap_defs = MaxNameLen_def MaxShortDescLen_def MaxURLLen_def MaxTagLen_def MaxTags_def
  MaxRegionSlugLen_def MaxRegionSlugs_def MaxSubmitterNameLen_def MaxSubmitterEmailLen_def
  MaxSubmitterNoteLen_def

section \<open>URLs\<close>

datatype url_reason = URLOK | URLTooLong | URLParseFailed | URLBadScheme | URLMissingHost | URLMailtoNoAddress

definition ClassifyURL :: "go_unicode \<Rightarrow> url_parser \<Rightarrow> string \<Rightarrow> bool \<Rightarrow> url_reason \<times> go_error option" where
  "ClassifyURL U P raw allowMailto =
     (if length raw > MaxURLLen then (URLTooLong, None)
      else case P raw of
          Inl err \<Rightarrow> (URLParseFailed, Some err)
        | Inr u \<Rightarrow>
            (let scheme = to_lower U (u_Scheme u) in
             if scheme = ''http'' \<or> scheme = ''https'' then
               (if u_Host u = [] then (URLMissingHost, None) else (URLOK, None))
             else if scheme = ''mailto'' then
               (if \<not> allowMailto then (URLBadScheme, None)
                else if u_Opaque u = [] then (URLMailtoNoAddress, None)
                else (URLOK, None))
             else (URLBadScheme, None)))"

definition at_most :: "string \<Rightarrow> nat \<Rightarrow> string \<Rightarrow> string" where
  "at_most what n unit = what @ '' must be at most '' @ itoa (int n) @ unit"

definition checkHTTPURL :: "go_unicode \<Rightarrow> url_parser \<Rightarrow> string \<Rightarrow> string" where
  "checkHTTPURL U P raw =
     (case fst (ClassifyURL U P raw False) of
        URLOK \<Rightarrow> []
      | URLTooLong \<Rightarrow> at_most ''Website URL'' MaxURLLen '' characters.''
      | URLParseFailed \<Rightarrow> ''Website URL is not a valid URL.''
      | URLMissingHost \<Rightarrow> ''Website URL must include a host.''
      | _ \<Rightarrow> ''Website URL must use http or https.'')"

definition checkContactURL :: "go_unicode \<Rightarrow> url_parser \<Rightarrow> string \<Rightarrow> string" where
  "checkContactURL U P raw =
     (case fst (ClassifyURL U P raw True) of
        URLOK \<Rightarrow> []
      | URLTooLong \<Rightarrow> at_most ''Contact URL'' MaxURLLen '' characters.''
      | URLParseFailed \<Rightarrow> ''Contact URL is not a valid URL.''
      | URLMissingHost \<Rightarrow> ''Contact URL must include a host.''
      | URLMailtoNoAddress \<Rightarrow> ''Contact URL mailto: must include an address.''
      | URLBadScheme \<Rightarrow> ''Contact URL must use http, https, or mailto.'')"

section \<open>Validation of a submission\<close>

fun trimmed_slugs :: "string list \<Rightarrow> string list" where
  "trimmed_slugs [] = []"
| "trimmed_slugs (s # ss) =
     (let t = trim_space s in if t \<noteq> [] then t # trimmed_slugs ss else trimmed_slugs ss)"

definition normalizeSubmission :: "new_submission_input \<Rightarrow> new_submission_input" where
  "normalizeSubmission inp =
     \<lparr>ni_Payload =
        \<lparr>sp_Name = trim_space (sp_Name (ni_Payload inp)),
         sp_ShortDesc = trim_space (sp_ShortDesc (ni_Payload inp)),
         sp_WebsiteURL = trim_space (sp_WebsiteURL (ni_Payload inp)),
         sp_ContactURL = trim_space (sp_ContactURL (ni_Payload inp)),
         sp_Tags = sp_Tags (ni_Payload inp),
         sp_RegionSlugs = trimmed_slugs (sp_RegionSlugs (ni_Payload inp))\<rparr>,
      ni_SubmitterName = trim_space (ni_SubmitterName inp),
      ni_SubmitterEmail = trim_space (ni_SubmitterEmail inp),
      ni_SubmitterNote = ni_SubmitterNote inp\<rparr>"

text \<open>\<open>at <= 0\<close> covers a missing '@' (-1) and a leading one.\<close>

definition looksLikeEmail :: "string \<Rightarrow> bool" where
  "looksLikeEmail addr =
     (case index_byte addr CHR ''@'' of
        None \<Rightarrow> False
      | Some at \<Rightarrow>
          if at = 0 \<or> last_index_byte addr CHR ''@'' \<noteq> Some at \<or> at = length addr - 1 then False
          else CHR ''.'' \<in> set (drop (at + 1) addr))"

text \<open>The loop over the region slugs: the message for the first bad one.\<close>

fun slug_shape_error :: "nat \<Rightarrow> string list \<Rightarrow> string option" where
  "slug_shape_error i [] = None"
| "slug_shape_error i (slug # slugs) =
     (if slug = [] then Some (''Region slug at index '' @ itoa (int i) @ '' is empty.'')
      else if length slug > MaxRegionSlugLen
      then Some (at_most (''Region slug at index '' @ itoa (int i)) MaxRegionSlugLen '' characters.'')
      else slug_shape_error (i + 1) slugs)"

text \<open>\<open>set_if c k v\<close> is \<open>if c { errs[k] = v }\<close>.\<close>

definition set_err :: "string \<Rightarrow> string option \<Rightarrow> (string, string) gomap \<Rightarrow> (string, string) gomap" where
  "set_err k m errs = (case m of None \<Rightarrow> errs | Some v \<Rightarrow> mput k v errs)"

definition submissionShapeErrors :: "go_unicode \<Rightarrow> url_parser \<Rightarrow> new_submission_input \<Rightarrow> (string, string) gomap" where
  "submissionShapeErrors U P inp =
     (let p = ni_Payload inp;
          e1 = set_err ''name''
            (if sp_Name p = [] then Some ''Name is required.''
             else if rune_count (sp_Name p) > MaxNameLen then Some (at_most ''Name'' MaxNameLen '' characters.'')
             else None) [];
          e2 = set_err ''short_desc''
            (if sp_ShortDesc p = [] then Some ''A short description is required.''
             else if rune_count (sp_ShortDesc p) > MaxShortDescLen
             then Some (at_most ''Short description'' MaxShortDescLen '' characters.'')
             else None) e1;
          e3 = set_err ''website_url''
            (if sp_WebsiteURL p = [] then Some ''A website URL is required.''
             else if checkHTTPURL U P (sp_WebsiteURL p) \<noteq> [] then Some (checkHTTPURL U P (sp_WebsiteURL p))
             else None) e2;
          e4 = set_err ''contact_url''
            (if sp_ContactURL p \<noteq> [] \<and> checkContactURL U P (sp_ContactURL p) \<noteq> []
             then Some (checkContactURL U P (sp_ContactURL p)) else None) e3;
          e5 = set_err ''region_slugs''
            (if length (sp_RegionSlugs p) > MaxRegionSlugs
             then Some (''Region slugs must have at most '' @ itoa (int MaxRegionSlugs) @ '' entries.'')
             else slug_shape_error 0 (sp_RegionSlugs p)) e4;
          e6 = set_err ''submitter_name''
            (if rune_count (ni_SubmitterName inp) > MaxSubmitterNameLen
             then Some (at_most ''Submitter name'' MaxSubmitterNameLen '' characters.'') else None) e5;
          e7 = set_err ''submitter_email''
            (if length (ni_SubmitterEmail inp) > MaxSubmitterEmailLen
             then Some (at_most ''Submitter email'' MaxSubmitterEmailLen '' characters.'')
             else if ni_SubmitterEmail inp \<noteq> [] \<and> \<not> looksLikeEmail (ni_SubmitterEmail inp)
             then Some ''Submitter email is not a valid email address.'' else None) e6
      in set_err ''submitter_note''
            (if rune_count (ni_SubmitterNote inp) > MaxSubmitterNoteLen
             then Some (at_most ''Submitter note'' MaxSubmitterNoteLen '' characters.'') else None) e7)"

type_synonym resolver = "string \<Rightarrow> region result"

fun canonical_loop :: "go_unicode \<Rightarrow> resolver \<Rightarrow> string list \<Rightarrow> string list \<Rightarrow> string list + string" where
  "canonical_loop U res [] out = Inl out"
| "canonical_loop U res (slug # slugs) out =
     (case res slug of
        Inl err \<Rightarrow>
          if errors_is err ErrRegionNotFound
          then Inr (''Region slug '' @ quote U slug @ '' does not match any known region.'')
          else Inr (''Region lookup failed for '' @ quote U slug @ ''.'')
      | Inr r \<Rightarrow>
          if reg_Slug r \<in> set out
          then Inr (''Region slug '' @ quote U slug @ '' appears more than once.'')
          else canonical_loop U res slugs (out @ [reg_Slug r]))"

text \<open>\<open>regions == nil\<close> is \<open>None\<close>. The result is the slugs and the message, empty when all resolve.\<close>

definition canonicalRegionSlugs :: "go_unicode \<Rightarrow> resolver option \<Rightarrow> string list \<Rightarrow> string list \<times> string" where
  "canonicalRegionSlugs U regions slugs =
     (case regions of
        None \<Rightarrow> (slugs, ''Region resolver is unavailable; cannot verify region slugs.'')
      | Some res \<Rightarrow> (case canonical_loop U res slugs [] of Inl out \<Rightarrow> (out, []) | Inr msg \<Rightarrow> (slugs, msg)))"

definition ValidateSubmission :: "go_unicode \<Rightarrow> url_parser \<Rightarrow> resolver option \<Rightarrow> new_submission_input \<Rightarrow>
    new_submission_input result" where
  "ValidateSubmission U P regions inp0 =
     (let inp = normalizeSubmission inp0;
          errs = submissionShapeErrors U P inp;
          (errs', inp') =
            (if mget errs ''region_slugs'' = None then
               (let (canonical, msg) = canonicalRegionSlugs U regions (sp_RegionSlugs (ni_Payload inp))
                in (if msg \<noteq> [] then mput ''region_slugs'' msg errs else errs,
                    inp\<lparr>ni_Payload := (ni_Payload inp)\<lparr>sp_RegionSlugs := canonical\<rparr>\<rparr>))
             else (errs, inp))
      in if length errs' > 0 then Inl (FieldErrors errs') else Inr inp')"

definition CreateSubmission :: "go_unicode \<Rightarrow> url_parser \<Rightarrow> resolver option \<Rightarrow>
    (new_submission_input \<Rightarrow> 's \<Rightarrow> submission result \<times> 's) \<Rightarrow> new_submission_input \<Rightarrow> 's \<Rightarrow> submission result \<times> 's" where
  "CreateSubmission U P regions create inp s =
     (case ValidateSubmission U P regions inp of
        Inl err \<Rightarrow> (Inl err, s)
      | Inr inp' \<Rightarrow>
          (case create inp' s of
             (Inl err, s') \<Rightarrow> (Inl (Wrap ''atlas: create submission'' err), s')
           | (Inr sub, s') \<Rightarrow> (Inr sub, s')))"

text \<open>\<open>SubmissionValidationError.Error\<close>: the field names in order.\<close>

definition field_errors_text :: "(string, string) gomap \<Rightarrow> string" where
  "field_errors_text fs =
     ''atlas: invalid submission: '' @ join (sort_slice (\<lambda>a b. a < b) (map fst fs)) '', ''"

section \<open>The seed loader's checks of one org\<close>

definition validateHTTPURL :: "go_unicode \<Rightarrow> url_parser \<Rightarrow> string \<Rightarrow> string \<Rightarrow> go_error option" where
  "validateHTTPURL U P field raw =
     (case ClassifyURL U P raw False of
        (URLOK, _) \<Rightarrow> None
      | (URLTooLong, _) \<Rightarrow> Some (Errorf ''%s must be at most %d characters'' [field, itoa (int MaxURLLen)])
      | (URLParseFailed, Some perr) \<Rightarrow> Some (Wrap (field @ '' is not a valid URL'') perr)
      | (URLParseFailed, None) \<Rightarrow> Some (Errorf ''%s is not a valid URL: %w'' [field])
      | (URLMissingHost, _) \<Rightarrow> Some (Errorf ''%s must include a host'' [field])
      | _ \<Rightarrow> Some (Errorf ''%s must use http or https'' [field]))"

definition validateContactURL :: "go_unicode \<Rightarrow> url_parser \<Rightarrow> string \<Rightarrow> go_error option" where
  "validateContactURL U P raw =
     (case ClassifyURL U P raw True of
        (URLOK, _) \<Rightarrow> None
      | (URLTooLong, _) \<Rightarrow> Some (Errorf ''contact_url must be at most %d characters'' [itoa (int MaxURLLen)])
      | (URLParseFailed, Some perr) \<Rightarrow> Some (Wrap ''contact_url is not a valid URL'' perr)
      | (URLParseFailed, None) \<Rightarrow> Some (Errorf ''contact_url is not a valid URL: %w'' [])
      | (URLMissingHost, _) \<Rightarrow> Some (Errorf ''contact_url must include a host'' [])
      | (URLMailtoNoAddress, _) \<Rightarrow> Some (Errorf ''contact_url mailto: must include an address'' [])
      | (URLBadScheme, _) \<Rightarrow> Some (Errorf ''contact_url must use http, https, or mailto'' []))"

fun tag_error :: "go_unicode \<Rightarrow> nat \<Rightarrow> string list \<Rightarrow> go_error option" where
  "tag_error U i [] = None"
| "tag_error U i (t # ts) =
     (if t = [] then Some (Errorf ''tags[%d] empty'' [itoa (int i)])
      else if rune_count t > MaxTagLen
      then Some (Errorf ''tags[%d] must be at most %d characters'' [itoa (int i), itoa (int MaxTagLen)])
      else if t \<noteq> to_lower U t then Some (Errorf ''tags[%d] must be lowercase'' [itoa (int i)])
      else tag_error U (i + 1) ts)"

fun region_slug_error :: "nat \<Rightarrow> string list \<Rightarrow> go_error option" where
  "region_slug_error i [] = None"
| "region_slug_error i (s # ss) =
     (if s = [] then Some (Errorf ''region_slugs[%d] empty'' [itoa (int i)])
      else if length s > MaxRegionSlugLen
      then Some (Errorf ''region_slugs[%d] must be at most %d characters'' [itoa (int i), itoa (int MaxRegionSlugLen)])
      else region_slug_error (i + 1) ss)"

definition or_else :: "go_error option \<Rightarrow> go_error option \<Rightarrow> go_error option" where
  "or_else e f = (case e of Some x \<Rightarrow> Some x | None \<Rightarrow> f)"

definition fail_if :: "bool \<Rightarrow> go_error \<Rightarrow> go_error option" where
  "fail_if c e = (if c then Some e else None)"

text \<open>Each check of the source returns at the first failure.\<close>

definition ValidateOrgFields :: "go_unicode \<Rightarrow> url_parser \<Rightarrow> string \<Rightarrow> string \<Rightarrow> string \<Rightarrow> string \<Rightarrow>
    string list \<Rightarrow> string list \<Rightarrow> go_error option" where
  "ValidateOrgFields U P name shortDesc websiteURL contactURL tags regionSlugs =
     or_else (fail_if (name = []) (Errorf ''name required'' []))
    (or_else (fail_if (rune_count name > MaxNameLen)
        (Errorf ''name must be at most %d characters'' [itoa (int MaxNameLen)]))
    (or_else (fail_if (shortDesc = []) (Errorf ''short_desc required'' []))
    (or_else (fail_if (rune_count shortDesc > MaxShortDescLen)
        (Errorf ''short_desc must be at most %d characters'' [itoa (int MaxShortDescLen)]))
    (or_else (fail_if (websiteURL = []) (Errorf ''website_url required'' []))
    (or_else (validateHTTPURL U P ''website_url'' websiteURL)
    (or_else (if contactURL \<noteq> [] then validateContactURL U P contactURL else None)
    (or_else (fail_if (length tags > MaxTags) (Errorf ''tags must have at most %d entries'' [itoa (int MaxTags)]))
    (or_else (tag_error U 0 tags)
    (or_else (fail_if (regionSlugs = []) (Errorf ''region_slugs must have at least one entry'' []))
    (or_else (fail_if (length regionSlugs > MaxRegionSlugs)
        (Errorf ''region_slugs must have at most %d entries'' [itoa (int MaxRegionSlugs)]))
      (region_slug_error 0 regionSlugs)))))))))))"

section \<open>E-mail addresses\<close>

text \<open>
  The index arithmetic of \<open>looksLikeEmail\<close> accepts exactly the addresses with one '@', a
  non-empty local part and a dot in the domain.
\<close>

theorem looksLikeEmail_iff:
  "looksLikeEmail addr \<longleftrightarrow>
     (\<exists>l d. addr = l @ ''@'' @ d \<and> l \<noteq> [] \<and> CHR ''@'' \<notin> set l \<and> CHR ''@'' \<notin> set d \<and> CHR ''.'' \<in> set d)"
proof (cases "index_byte addr CHR ''@''")
  case None
  moreover from None have "CHR ''@'' \<notin> set addr" by (simp add: index_byte_None)
  ultimately show ?thesis by (auto simp: looksLikeEmail_def)
next
  case (Some i)
  then obtain p q where pq: "addr = p @ CHR ''@'' # q" "CHR ''@'' \<notin> set p" "length p = i"
    unfolding index_byte_Some by blast
  have last: "last_index_byte addr CHR ''@'' = Some i \<longleftrightarrow> CHR ''@'' \<notin> set q"
  proof (cases "last_index_byte q CHR ''@''")
    case None
    then have "CHR ''@'' \<notin> set q" by (simp add: last_index_byte_None)
    then show ?thesis using last_index_byte_split [of "CHR ''@''" q p] pq by simp
  next
    case (Some j)
    then have "CHR ''@'' \<in> set q" using last_index_byte_None [of q "CHR ''@''"] by auto
    moreover from Some have "last_index_byte (p @ CHR ''@'' # q) CHR ''@'' = Some (Suc (length p + j))"
      by (induction p) auto
    ultimately show ?thesis using pq by simp
  qed
  have uniq: "addr = l @ ''@'' @ d \<and> CHR ''@'' \<notin> set l \<longleftrightarrow> l = p \<and> d = q" for l d
    using pq(1,2) by (auto simp: append_eq_append_conv2 Cons_eq_append_conv append_eq_Cons_conv)
  have "(\<exists>l d. addr = l @ ''@'' @ d \<and> l \<noteq> [] \<and> CHR ''@'' \<notin> set l \<and> CHR ''@'' \<notin> set d \<and> CHR ''.'' \<in> set d) \<longleftrightarrow>
      (\<exists>l d. (addr = l @ ''@'' @ d \<and> CHR ''@'' \<notin> set l) \<and> l \<noteq> [] \<and> CHR ''@'' \<notin> set d \<and> CHR ''.'' \<in> set d)"
    by blast
  also have "\<dots> \<longleftrightarrow> p \<noteq> [] \<and> CHR ''@'' \<notin> set q \<and> CHR ''.'' \<in> set q"
    unfolding uniq by blast
  also have "\<dots> \<longleftrightarrow> looksLikeEmail addr"
    unfolding looksLikeEmail_def Some last option.case using pq by auto
  finally show ?thesis ..
qed

section \<open>Acceptance\<close>

lemma mput_not_Nil [simp]: "mput k v m \<noteq> []"
  by (metis mget_empty mget_mput option.distinct(1))

lemma set_err_Nil [simp]: "set_err k m errs = [] \<longleftrightarrow> m = None \<and> errs = []"
  by (auto simp: set_err_def split: option.splits)

lemma mget_set_err [simp]: "mget (set_err k m errs) k' = (if k = k' \<and> m \<noteq> None then m else mget errs k')"
  by (auto simp: set_err_def split: option.splits)

lemma wf_set_err [simp]: "wf_map errs \<Longrightarrow> wf_map (set_err k m errs)"
  by (auto simp: set_err_def split: option.splits)

lemma mkeys_set_err [simp]: "mkeys (set_err k m errs) = (if m = None then {} else {k}) \<union> mkeys errs"
  by (auto simp: set_err_def split: option.splits)

definition slug_ok :: "string \<Rightarrow> bool" where
  "slug_ok s \<longleftrightarrow> s \<noteq> [] \<and> length s \<le> MaxRegionSlugLen"

lemma slug_shape_error_None: "slug_shape_error i ss = None \<longleftrightarrow> list_all slug_ok ss"
  by (induction i ss rule: slug_shape_error.induct) (auto simp: slug_ok_def)

lemma region_slug_error_None: "region_slug_error i ss = None \<longleftrightarrow> list_all slug_ok ss"
  by (induction i ss rule: region_slug_error.induct) (auto simp: slug_ok_def)

lemma at_most_not_Nil [simp]: "at_most w n u \<noteq> []"
  by (simp add: at_most_def)

lemma checkHTTPURL_ok: "checkHTTPURL U P raw = [] \<longleftrightarrow> fst (ClassifyURL U P raw False) = URLOK"
  by (auto simp: checkHTTPURL_def split: url_reason.splits)

lemma checkContactURL_ok: "checkContactURL U P raw = [] \<longleftrightarrow> fst (ClassifyURL U P raw True) = URLOK"
  by (auto simp: checkContactURL_def split: url_reason.splits)

lemma validateHTTPURL_ok: "validateHTTPURL U P f raw = None \<longleftrightarrow> fst (ClassifyURL U P raw False) = URLOK"
  by (auto simp: validateHTTPURL_def split: url_reason.splits prod.splits option.splits)

lemma validateContactURL_ok: "validateContactURL U P raw = None \<longleftrightarrow> fst (ClassifyURL U P raw True) = URLOK"
  by (auto simp: validateContactURL_def split: url_reason.splits prod.splits option.splits)

lemma or_else_None [simp]: "or_else e f = None \<longleftrightarrow> e = None \<and> f = None"
  by (auto simp: or_else_def split: option.splits)

lemma fail_if_None [simp]: "fail_if c e = None \<longleftrightarrow> \<not> c"
  by (simp add: fail_if_def)

text \<open>The org part of a record that both validators accept.\<close>

definition org_fields_ok :: "go_unicode \<Rightarrow> url_parser \<Rightarrow> string \<Rightarrow> string \<Rightarrow> string \<Rightarrow> string \<Rightarrow> bool" where
  "org_fields_ok U P name desc web contact \<longleftrightarrow>
     name \<noteq> [] \<and> rune_count name \<le> MaxNameLen \<and> desc \<noteq> [] \<and> rune_count desc \<le> MaxShortDescLen \<and>
     web \<noteq> [] \<and> fst (ClassifyURL U P web False) = URLOK \<and>
     (contact = [] \<or> fst (ClassifyURL U P contact True) = URLOK)"

lemma ValidateOrgFields_None:
  "ValidateOrgFields U P name desc web contact tags slugs = None \<longleftrightarrow>
     org_fields_ok U P name desc web contact \<and> length tags \<le> MaxTags \<and> tag_error U 0 tags = None \<and>
     slugs \<noteq> [] \<and> length slugs \<le> MaxRegionSlugs \<and> list_all slug_ok slugs"
  by (auto simp: ValidateOrgFields_def org_fields_ok_def validateHTTPURL_ok validateContactURL_ok
      region_slug_error_None)

text \<open>The fields with a shape error, in the order of the source.\<close>

definition submitter_ok :: "new_submission_input \<Rightarrow> bool" where
  "submitter_ok inp \<longleftrightarrow> rune_count (ni_SubmitterName inp) \<le> MaxSubmitterNameLen \<and>
     length (ni_SubmitterEmail inp) \<le> MaxSubmitterEmailLen \<and>
     (ni_SubmitterEmail inp = [] \<or> looksLikeEmail (ni_SubmitterEmail inp)) \<and>
     rune_count (ni_SubmitterNote inp) \<le> MaxSubmitterNoteLen"

definition slugs_shape_ok :: "string list \<Rightarrow> bool" where
  "slugs_shape_ok slugs \<longleftrightarrow> length slugs \<le> MaxRegionSlugs \<and> list_all slug_ok slugs"

lemma shape_errors_region_slugs:
  "mget (submissionShapeErrors U P inp) ''region_slugs'' = None \<longleftrightarrow> slugs_shape_ok (sp_RegionSlugs (ni_Payload inp))"
  by (auto simp: submissionShapeErrors_def Let_def slug_shape_error_None slugs_shape_ok_def)

lemma shape_errors_Nil:
  "submissionShapeErrors U P inp = [] \<longleftrightarrow>
     org_fields_ok U P (sp_Name (ni_Payload inp)) (sp_ShortDesc (ni_Payload inp)) (sp_WebsiteURL (ni_Payload inp))
       (sp_ContactURL (ni_Payload inp)) \<and>
     slugs_shape_ok (sp_RegionSlugs (ni_Payload inp)) \<and> submitter_ok inp"
  by (auto simp: submissionShapeErrors_def Let_def slug_shape_error_None slugs_shape_ok_def org_fields_ok_def
      submitter_ok_def checkHTTPURL_ok checkContactURL_ok split: if_splits)

lemma canonical_loop_Inl:
  "canonical_loop U res slugs out = Inl out' \<longleftrightarrow>
     (\<exists>rs. map res slugs = map Inr rs \<and> out' = out @ map reg_Slug rs \<and>
        (distinct out \<longrightarrow> distinct out') \<and> distinct (map reg_Slug rs) \<and> set out \<inter> set (map reg_Slug rs) = {})"
proof (induction slugs arbitrary: out)
  case Nil
  then show ?case by auto
next
  case (Cons slug slugs)
  show ?case
  proof (cases "res slug")
    case (Inl e)
    then show ?thesis by (auto simp: map_eq_Cons_conv)
  next
    case (Inr r)
    show ?thesis
    proof (cases "reg_Slug r \<in> set out")
      case True
      with Inr show ?thesis by (auto simp: map_eq_Cons_conv Cons_eq_map_conv)
    next
      case False
      have "canonical_loop U res (slug # slugs) out = Inl out' \<longleftrightarrow>
          (\<exists>rs. map res slugs = map Inr rs \<and> out' = (out @ [reg_Slug r]) @ map reg_Slug rs \<and>
            (distinct (out @ [reg_Slug r]) \<longrightarrow> distinct out') \<and> distinct (map reg_Slug rs) \<and>
            set (out @ [reg_Slug r]) \<inter> set (map reg_Slug rs) = {})"
        using Inr False Cons.IH [of "out @ [reg_Slug r]"] by simp
      also have "\<dots> \<longleftrightarrow> (\<exists>rs. map res (slug # slugs) = map Inr rs \<and> out' = out @ map reg_Slug rs \<and>
          (distinct out \<longrightarrow> distinct out') \<and> distinct (map reg_Slug rs) \<and> set out \<inter> set (map reg_Slug rs) = {})"
        (is "?L \<longleftrightarrow> ?R")
      proof
        assume ?L
        then show ?R using Inr False by (elim exE, rule_tac x = "r # rs" in exI) auto
      next
        assume ?R
        then show ?L using Inr False by (auto simp: Cons_eq_map_conv)
      qed
      finally show ?thesis .
    qed
  qed
qed

lemma canonical_loop_msg: "canonical_loop U res slugs out \<noteq> Inr []"
  by (induction slugs arbitrary: out) (auto split: sum.splits)

lemma canonical_ok:
  "canonicalRegionSlugs U regions slugs = (out, []) \<longleftrightarrow>
     (\<exists>res rs. regions = Some res \<and> map res slugs = map Inr rs \<and> out = map reg_Slug rs \<and> distinct out)"
proof (cases regions)
  case None
  then show ?thesis by (simp add: canonicalRegionSlugs_def)
next
  case (Some res)
  have "canonicalRegionSlugs U regions slugs = (out, []) \<longleftrightarrow> canonical_loop U res slugs [] = Inl out"
    using Some canonical_loop_msg [of U res slugs "[]"]
    by (auto simp: canonicalRegionSlugs_def split: sum.splits)
  then show ?thesis using Some by (auto simp: canonical_loop_Inl)
qed

text \<open>
  Acceptance spelled out: the trimmed fields have the right shape and the region slugs resolve to
  distinct regions, whose canonical slugs replace them.
\<close>

definition acceptable :: "go_unicode \<Rightarrow> url_parser \<Rightarrow> new_submission_input \<Rightarrow> bool" where
  "acceptable U P inp \<longleftrightarrow>
     org_fields_ok U P (sp_Name (ni_Payload inp)) (sp_ShortDesc (ni_Payload inp)) (sp_WebsiteURL (ni_Payload inp))
       (sp_ContactURL (ni_Payload inp)) \<and>
     slugs_shape_ok (sp_RegionSlugs (ni_Payload inp)) \<and> submitter_ok inp"

lemma ValidateSubmission_Inr:
  "ValidateSubmission U P regions inp0 = Inr inp' \<longleftrightarrow>
     acceptable U P (normalizeSubmission inp0) \<and>
     (\<exists>res rs. regions = Some res \<and>
        map res (sp_RegionSlugs (ni_Payload (normalizeSubmission inp0))) = map Inr rs \<and>
        distinct (map reg_Slug rs) \<and>
        inp' = (normalizeSubmission inp0)\<lparr>ni_Payload :=
          (ni_Payload (normalizeSubmission inp0))\<lparr>sp_RegionSlugs := map reg_Slug rs\<rparr>\<rparr>)"
proof -
  let ?n = "normalizeSubmission inp0" and ?e = "submissionShapeErrors U P (normalizeSubmission inp0)"
  let ?slugs = "sp_RegionSlugs (ni_Payload ?n)"
  obtain out msg where c: "canonicalRegionSlugs U regions ?slugs = (out, msg)" by fastforce
  have "ValidateSubmission U P regions inp0 = Inr inp' \<longleftrightarrow>
      ?e = [] \<and> msg = [] \<and> inp' = ?n\<lparr>ni_Payload := (ni_Payload ?n)\<lparr>sp_RegionSlugs := out\<rparr>\<rparr>"
    by (auto simp: ValidateSubmission_def Let_def c)
  also have "\<dots> \<longleftrightarrow> acceptable U P ?n \<and> canonicalRegionSlugs U regions ?slugs = (out, []) \<and>
      inp' = ?n\<lparr>ni_Payload := (ni_Payload ?n)\<lparr>sp_RegionSlugs := out\<rparr>\<rparr>"
    unfolding acceptable_def shape_errors_Nil [symmetric] c by auto
  finally have eq: "ValidateSubmission U P regions inp0 = Inr inp' \<longleftrightarrow> \<dots>" .
  show ?thesis
  proof
    assume "ValidateSubmission U P regions inp0 = Inr inp'"
    then show "acceptable U P ?n \<and> (\<exists>res rs. regions = Some res \<and> map res ?slugs = map Inr rs \<and>
        distinct (map reg_Slug rs) \<and> inp' = ?n\<lparr>ni_Payload := (ni_Payload ?n)\<lparr>sp_RegionSlugs := map reg_Slug rs\<rparr>\<rparr>)"
      unfolding eq canonical_ok by blast
  next
    assume "acceptable U P ?n \<and> (\<exists>res rs. regions = Some res \<and> map res ?slugs = map Inr rs \<and>
        distinct (map reg_Slug rs) \<and> inp' = ?n\<lparr>ni_Payload := (ni_Payload ?n)\<lparr>sp_RegionSlugs := map reg_Slug rs\<rparr>\<rparr>)"
    then obtain res rs where R: "acceptable U P ?n" "regions = Some res" "map res ?slugs = map Inr rs"
      "distinct (map reg_Slug rs)" "inp' = ?n\<lparr>ni_Payload := (ni_Payload ?n)\<lparr>sp_RegionSlugs := map reg_Slug rs\<rparr>\<rparr>"
      by blast
    then have "canonicalRegionSlugs U regions ?slugs = (map reg_Slug rs, [])"
      unfolding canonical_ok by blast
    with R c show "ValidateSubmission U P regions inp0 = Inr inp'" unfolding eq by simp
  qed
qed

lemma ValidateSubmission_Inl:
  "ValidateSubmission U P regions inp0 = Inl e \<Longrightarrow> \<exists>errs. e = FieldErrors errs \<and> errs \<noteq> []"
  by (auto simp: ValidateSubmission_def Let_def split: if_splits prod.splits)

text \<open>
  C37. What a submission that was accepted stores passes the seed loader's checks of an org: with a
  resolver whose canonical slugs are non-empty and within the cap, and no tags (the wire has
  none), the only complaint left is a missing region slug.
\<close>

theorem accepted_submission_passes_seed_checks:
  assumes "ValidateSubmission U P (Some res) inp = Inr inp'" and "sp_Tags (ni_Payload inp) = []"
    and "\<And>slug r. res slug = Inr r \<Longrightarrow> slug_ok (reg_Slug r)"
  shows "ValidateOrgFields U P (sp_Name (ni_Payload inp')) (sp_ShortDesc (ni_Payload inp'))
      (sp_WebsiteURL (ni_Payload inp')) (sp_ContactURL (ni_Payload inp')) (sp_Tags (ni_Payload inp'))
      (sp_RegionSlugs (ni_Payload inp')) =
    fail_if (sp_RegionSlugs (ni_Payload inp') = []) (Errorf ''region_slugs must have at least one entry'' [])"
proof -
  let ?n = "normalizeSubmission inp"
  from assms(1) obtain rs where ok: "acceptable U P ?n"
    and rs: "map res (sp_RegionSlugs (ni_Payload ?n)) = map Inr rs" "distinct (map reg_Slug rs)"
    and inp': "inp' = ?n\<lparr>ni_Payload := (ni_Payload ?n)\<lparr>sp_RegionSlugs := map reg_Slug rs\<rparr>\<rparr>"
    unfolding ValidateSubmission_Inr by auto
  have fields: "org_fields_ok U P (sp_Name (ni_Payload inp')) (sp_ShortDesc (ni_Payload inp'))
      (sp_WebsiteURL (ni_Payload inp')) (sp_ContactURL (ni_Payload inp'))"
    using ok by (simp add: inp' acceptable_def)
  have tags: "sp_Tags (ni_Payload inp') = []"
    using assms(2) by (simp add: inp' normalizeSubmission_def)
  have "length rs = length (sp_RegionSlugs (ni_Payload ?n))" using rs(1) by (metis length_map)
  moreover have "slug_ok (reg_Slug r)" if "r \<in> set rs" for r
  proof -
    from that have "Inr r \<in> set (map res (sp_RegionSlugs (ni_Payload ?n)))" by (simp add: rs(1))
    then show ?thesis using assms(3) by (metis imageE list.set_map)
  qed
  ultimately have slugs: "slugs_shape_ok (sp_RegionSlugs (ni_Payload inp'))"
    using ok by (auto simp: inp' acceptable_def slugs_shape_ok_def list_all_iff)
  show ?thesis
  proof (cases "sp_RegionSlugs (ni_Payload inp') = []")
    case True
    have "(if sp_ContactURL (ni_Payload inp') \<noteq> [] then validateContactURL U P (sp_ContactURL (ni_Payload inp')) else None) = None"
      "validateHTTPURL U P ''website_url'' (sp_WebsiteURL (ni_Payload inp')) = None"
      using fields by (auto simp: org_fields_ok_def validateContactURL_ok validateHTTPURL_ok)
    then show ?thesis using True fields tags
      by (simp add: ValidateOrgFields_def org_fields_ok_def or_else_def fail_if_def del: if_split)
  next
    case False
    then have "ValidateOrgFields U P (sp_Name (ni_Payload inp')) (sp_ShortDesc (ni_Payload inp'))
      (sp_WebsiteURL (ni_Payload inp')) (sp_ContactURL (ni_Payload inp')) (sp_Tags (ni_Payload inp'))
      (sp_RegionSlugs (ni_Payload inp')) = None"
      using fields tags slugs by (simp add: ValidateOrgFields_None slugs_shape_ok_def)
    with False show ?thesis by (simp add: fail_if_def)
  qed
qed

text \<open>
  C38. Conversely, an org the seed loader accepts is accepted as a submission: on a trimmed record
  without tags whose region slugs are canonical and distinct, and with submitter fields in shape,
  the two validators agree.
\<close>

theorem submission_and_seed_agree:
  assumes "normalizeSubmission inp = inp" and "sp_Tags (ni_Payload inp) = []" and "submitter_ok inp"
    and "sp_RegionSlugs (ni_Payload inp) \<noteq> []" and "distinct (sp_RegionSlugs (ni_Payload inp))"
    and "list_all (\<lambda>slug. \<exists>r. res slug = Inr r \<and> reg_Slug r = slug) (sp_RegionSlugs (ni_Payload inp))"
  shows "ValidateSubmission U P (Some res) inp = Inr inp \<longleftrightarrow>
    ValidateOrgFields U P (sp_Name (ni_Payload inp)) (sp_ShortDesc (ni_Payload inp))
      (sp_WebsiteURL (ni_Payload inp)) (sp_ContactURL (ni_Payload inp)) (sp_Tags (ni_Payload inp))
      (sp_RegionSlugs (ni_Payload inp)) = None"
proof -
  have "\<exists>rs. map res slugs = map Inr rs \<and> map reg_Slug rs = slugs"
    if "list_all (\<lambda>slug. \<exists>r. res slug = Inr r \<and> reg_Slug r = slug) slugs" for slugs
    using that
  proof (induction slugs)
    case (Cons slug slugs)
    then obtain r rs where "res slug = Inr r" "reg_Slug r = slug" "map res slugs = map Inr rs" "map reg_Slug rs = slugs"
      by auto
    then show ?case by (intro exI [of _ "r # rs"]) simp
  qed simp
  with assms(6) obtain rs where rs: "map res (sp_RegionSlugs (ni_Payload inp)) = map Inr rs"
    "map reg_Slug rs = sp_RegionSlugs (ni_Payload inp)" by blast
  have "ValidateSubmission U P (Some res) inp = Inr inp \<longleftrightarrow> acceptable U P inp"
    unfolding ValidateSubmission_Inr assms(1) using rs assms(5) by (auto intro!: exI [of _ rs])
  then show ?thesis
    using assms(2-4) by (auto simp: acceptable_def ValidateOrgFields_None slugs_shape_ok_def)
qed

lemma trimmed_slugs_id: "list_all (\<lambda>s. s \<noteq> [] \<and> trim_space s = s) ss \<Longrightarrow> trimmed_slugs ss = ss"
  by (induction ss) auto

text \<open>
  Validation is a fixed point: what was accepted is accepted again, unchanged, when the
  resolver maps a canonical slug to the region it came from and canonical slugs are trimmed, non-empty
  and within the cap. So a re-check of a stored submission sees exactly what was stored.
\<close>

theorem ValidateSubmission_fixed_point:
  assumes "ValidateSubmission U P (Some res) inp = Inr inp'"
    and "\<And>slug r. res slug = Inr r \<Longrightarrow>
      res (reg_Slug r) = Inr r \<and> slug_ok (reg_Slug r) \<and> trim_space (reg_Slug r) = reg_Slug r"
  shows "ValidateSubmission U P (Some res) inp' = Inr inp'"
proof -
  let ?n = "normalizeSubmission inp"
  from assms(1) obtain rs where ok: "acceptable U P ?n"
    and rs: "map res (sp_RegionSlugs (ni_Payload ?n)) = map Inr rs" "distinct (map reg_Slug rs)"
    and inp': "inp' = ?n\<lparr>ni_Payload := (ni_Payload ?n)\<lparr>sp_RegionSlugs := map reg_Slug rs\<rparr>\<rparr>"
    unfolding ValidateSubmission_Inr by auto
  have good: "res (reg_Slug r) = Inr r \<and> slug_ok (reg_Slug r) \<and> trim_space (reg_Slug r) = reg_Slug r"
    if "r \<in> set rs" for r
  proof -
    from that have "Inr r \<in> set (map res (sp_RegionSlugs (ni_Payload ?n)))" by (simp add: rs(1))
    then show ?thesis using assms(2) by (metis imageE list.set_map)
  qed
  then have "trimmed_slugs (map reg_Slug rs) = map reg_Slug rs"
    by (intro trimmed_slugs_id) (auto simp: list_all_iff slug_ok_def)
  then have norm: "normalizeSubmission inp' = inp'"
    by (simp add: inp' normalizeSubmission_def)
  have "length rs = length (sp_RegionSlugs (ni_Payload ?n))" using rs(1) by (metis length_map)
  then have acc: "acceptable U P inp'"
    using ok good
    by (auto simp: inp' acceptable_def slugs_shape_ok_def list_all_iff submitter_ok_def)
  have "map res (map reg_Slug rs) = map Inr rs" using good by simp
  then show ?thesis
    unfolding ValidateSubmission_Inr norm using acc rs(2)
    by (intro conjI exI [of _ res] exI [of _ rs]) (simp_all add: inp')
qed

text \<open>The fields of a normalized input that are in error.\<close>

definition offending :: "go_unicode \<Rightarrow> url_parser \<Rightarrow> resolver option \<Rightarrow> new_submission_input \<Rightarrow> string \<Rightarrow> bool" where
  "offending U P regions inp f \<longleftrightarrow>
     f = ''name'' \<and> (sp_Name (ni_Payload inp) = [] \<or> rune_count (sp_Name (ni_Payload inp)) > MaxNameLen) \<or>
     f = ''short_desc'' \<and>
       (sp_ShortDesc (ni_Payload inp) = [] \<or> rune_count (sp_ShortDesc (ni_Payload inp)) > MaxShortDescLen) \<or>
     f = ''website_url'' \<and> (sp_WebsiteURL (ni_Payload inp) = [] \<or>
         fst (ClassifyURL U P (sp_WebsiteURL (ni_Payload inp)) False) \<noteq> URLOK) \<or>
     f = ''contact_url'' \<and> sp_ContactURL (ni_Payload inp) \<noteq> [] \<and>
         fst (ClassifyURL U P (sp_ContactURL (ni_Payload inp)) True) \<noteq> URLOK \<or>
     f = ''region_slugs'' \<and> (\<not> slugs_shape_ok (sp_RegionSlugs (ni_Payload inp)) \<or>
         snd (canonicalRegionSlugs U regions (sp_RegionSlugs (ni_Payload inp))) \<noteq> []) \<or>
     f = ''submitter_name'' \<and> rune_count (ni_SubmitterName inp) > MaxSubmitterNameLen \<or>
     f = ''submitter_email'' \<and> (length (ni_SubmitterEmail inp) > MaxSubmitterEmailLen \<or>
         ni_SubmitterEmail inp \<noteq> [] \<and> \<not> looksLikeEmail (ni_SubmitterEmail inp)) \<or>
     f = ''submitter_note'' \<and> rune_count (ni_SubmitterNote inp) > MaxSubmitterNoteLen"

lemma in_set_err: "f \<in> mkeys (set_err k m errs) \<longleftrightarrow> f = k \<and> m \<noteq> None \<or> f \<in> mkeys errs"
  by auto

lemma shape_errors_keys:
  "f \<in> mkeys (submissionShapeErrors U P inp) \<longleftrightarrow>
     (if f = ''region_slugs'' then \<not> slugs_shape_ok (sp_RegionSlugs (ni_Payload inp)) else offending U P regions inp f)"
proof -
  have no: "f \<notin> mkeys ([] :: (string, string) gomap)" by (simp add: mkeys_def)
  have if_Some: "(if c then Some x else None) \<noteq> None \<longleftrightarrow> c" for c and x :: string by simp
  have if_Some2: "(if c then Some x else if d then Some y else None) \<noteq> None \<longleftrightarrow> c \<or> d" for c d and x y :: string by simp
  have slugs: "(if c then Some x else slug_shape_error 0 ss) \<noteq> None \<longleftrightarrow> c \<or> \<not> list_all slug_ok ss" for c x ss
    using slug_shape_error_None [of 0 ss] by auto
  show ?thesis
    unfolding submissionShapeErrors_def Let_def in_set_err if_Some if_Some2 slugs offending_def
      checkHTTPURL_ok checkContactURL_ok slugs_shape_ok_def
    using no by (cases "f = ''region_slugs''") (simp_all add: not_le disj_ac)
qed

text \<open>
  C39. A rejected submission is told about every field in error and no other: the error carries one
  message for each, and a submission is accepted exactly when there is none.
\<close>

theorem ValidateSubmission_reports_offending:
  "case ValidateSubmission U P regions inp of
     Inl e \<Rightarrow> \<exists>errs. e = FieldErrors errs \<and> errs \<noteq> [] \<and>
       mkeys errs = {f. offending U P regions (normalizeSubmission inp) f}
   | Inr inp' \<Rightarrow> {f. offending U P regions (normalizeSubmission inp) f} = {}"
proof -
  let ?n = "normalizeSubmission inp" and ?e = "submissionShapeErrors U P (normalizeSubmission inp)"
  obtain out msg where c: "canonicalRegionSlugs U regions (sp_RegionSlugs (ni_Payload ?n)) = (out, msg)" by fastforce
  define errs where "errs = (if mget ?e ''region_slugs'' = None \<and> msg \<noteq> [] then mput ''region_slugs'' msg ?e else ?e)"
  have val: "case ValidateSubmission U P regions inp of Inl e \<Rightarrow> e = FieldErrors errs \<and> errs \<noteq> [] | Inr _ \<Rightarrow> errs = []"
    unfolding ValidateSubmission_def errs_def Let_def c by simp
  have region: "offending U P regions ?n ''region_slugs'' \<longleftrightarrow>
      \<not> slugs_shape_ok (sp_RegionSlugs (ni_Payload ?n)) \<or> msg \<noteq> []"
    by (simp add: offending_def c)
  have "f \<in> mkeys errs \<longleftrightarrow> offending U P regions ?n f" for f
    using region shape_errors_keys [of f U P ?n regions]
    unfolding errs_def shape_errors_region_slugs by auto
  then have keys: "mkeys errs = {f. offending U P regions ?n f}" by blast
  show ?thesis
    using val keys by (cases "ValidateSubmission U P regions inp") (auto simp: mkeys_def)
qed

section \<open>A concrete submission\<close>

definition demo_parser :: url_parser where
  "demo_parser raw = (if has_prefix raw ''https://'' then Inr \<lparr>u_Scheme = ''https'', u_Opaque = [], u_Host = drop 8 raw\<rparr>
     else Inl (Errorf ''first path segment in URL cannot contain colon'' []))"

definition demo_region :: region where
  "demo_region = \<lparr>reg_ID = 4, reg_Kind = ''us:state'', reg_Name = ''NY'', reg_Slug = ''ny'', reg_Country = CountryUS,
     reg_ScopeTier = ScopeRegional, reg_ParentSlugs = [], reg_SortPriority = 70, reg_RollupStates = []\<rparr>"

definition demo_resolver :: resolver where
  "demo_resolver slug = (if slug = ''ny'' \<or> slug = ''NY'' then Inr demo_region else Inl (Sentinel ErrRegionNotFound))"

definition demo_input :: "string \<Rightarrow> new_submission_input" where
  "demo_input slug = \<lparr>ni_Payload = \<lparr>sp_Name = ''TSTC'', sp_ShortDesc = ''Transit'', sp_WebsiteURL = ''https://tstc.org'',
     sp_ContactURL = [], sp_Tags = [], sp_RegionSlugs = [slug]\<rparr>, ni_SubmitterName = [], ni_SubmitterEmail = ''a@b.c'',
     ni_SubmitterNote = []\<rparr>"

lemma demo_normalized:
  "slug = ''ny'' \<or> slug = ''NY'' \<Longrightarrow> normalizeSubmission (demo_input slug) = demo_input slug"
proof -
  assume slug: "slug = ''ny'' \<or> slug = ''NY''"
  have "trim_space ''TSTC'' = ''TSTC''" "trim_space ''Transit'' = ''Transit''" "trim_space slug = slug"
    "trim_space ''https://tstc.org'' = ''https://tstc.org''" "trim_space ''a@b.c'' = ''a@b.c''"
    using slug by (auto intro!: trim_space_solid simp: solid_byte_def ascii_spaces_def)
  with slug show ?thesis by (auto simp: normalizeSubmission_def demo_input_def)
qed

lemma demo_acceptable: "slug = ''ny'' \<or> slug = ''NY'' \<Longrightarrow> acceptable U demo_parser (demo_input slug)"
proof -
  have "to_lower U ''https'' = ''https''" by (simp add: to_lower_def byte_lower_def)
  then show "slug = ''ny'' \<or> slug = ''NY'' \<Longrightarrow> acceptable U demo_parser (demo_input slug)"
    by (auto simp: acceptable_def demo_input_def org_fields_ok_def ClassifyURL_def demo_parser_def cap_defs
        rune_count_ascii slugs_shape_ok_def slug_ok_def submitter_ok_def looksLikeEmail_def)
qed

lemma demo_accepted:
  "slug = ''ny'' \<or> slug = ''NY'' \<Longrightarrow>
   ValidateSubmission U demo_parser (Some demo_resolver) (demo_input slug) = Inr (demo_input ''ny'')"
  unfolding ValidateSubmission_Inr demo_normalized
  by (auto intro!: exI [of _ "[demo_region]"] simp: demo_acceptable demo_normalized)
    (auto simp: demo_input_def demo_resolver_def demo_region_def)

lemma demo_resolver_ok:
  "demo_resolver slug = Inr r \<Longrightarrow>
   demo_resolver (reg_Slug r) = Inr r \<and> slug_ok (reg_Slug r) \<and> trim_space (reg_Slug r) = reg_Slug r"
proof -
  have "trim_space ''ny'' = ''ny''" by (rule trim_space_solid) (simp_all add: solid_byte_def ascii_spaces_def)
  then show "demo_resolver slug = Inr r \<Longrightarrow>
     demo_resolver (reg_Slug r) = Inr r \<and> slug_ok (reg_Slug r) \<and> trim_space (reg_Slug r) = reg_Slug r"
    by (auto simp: demo_resolver_def demo_region_def slug_ok_def cap_defs split: if_splits)
qed

theorem accepted_submission_passes_seed_checks_witness:
  "\<forall>U. ValidateOrgFields U demo_parser ''TSTC'' ''Transit'' ''https://tstc.org'' [] [] [''ny''] = None"
proof
  fix U
  have tags: "sp_Tags (ni_Payload (demo_input ''NY'')) = []" by (simp add: demo_input_def)
  have ok: "slug_ok (reg_Slug r)" if "demo_resolver slug = Inr r" for slug r
    using demo_resolver_ok [OF that] by simp
  from accepted_submission_passes_seed_checks [OF demo_accepted [of "''NY''" U] tags ok]
  show "ValidateOrgFields U demo_parser ''TSTC'' ''Transit'' ''https://tstc.org'' [] [] [''ny''] = None"
    by (simp add: demo_input_def fail_if_def)
qed

theorem submission_and_seed_agree_witness:
  "\<forall>U. ValidateSubmission U demo_parser (Some demo_resolver) (demo_input ''ny'') = Inr (demo_input ''ny'') \<longleftrightarrow>
    ValidateOrgFields U demo_parser ''TSTC'' ''Transit'' ''https://tstc.org'' [] [] [''ny''] = None"
proof
  fix U
  have sub: "submitter_ok (demo_input ''ny'')"
    using demo_acceptable [of "''ny''"] by (simp add: acceptable_def)
  have norm: "normalizeSubmission (demo_input ''ny'') = demo_input ''ny''" by (simp add: demo_normalized)
  from submission_and_seed_agree [OF norm _ sub, of demo_resolver U demo_parser]
  show "ValidateSubmission U demo_parser (Some demo_resolver) (demo_input ''ny'') = Inr (demo_input ''ny'') \<longleftrightarrow>
      ValidateOrgFields U demo_parser ''TSTC'' ''Transit'' ''https://tstc.org'' [] [] [''ny''] = None"
    by (simp add: demo_input_def demo_resolver_def demo_region_def)
qed

theorem ValidateSubmission_fixed_point_witness:
  "\<forall>U. ValidateSubmission U demo_parser (Some demo_resolver) (demo_input ''ny'') = Inr (demo_input ''ny'')"
  using ValidateSubmission_fixed_point [OF demo_accepted [of "''NY''"]] demo_resolver_ok by blast

end
