(* ===== verification/Go_Time.thy ===== *)
theory Go_Time
  imports Atlas_Types "HOL-Library.Monad_Syntax"
begin

text \<open>
  The parts of Go's \<open>time\<close> package the program uses. A \<open>time.Time\<close> in UTC is its distance in
  nanoseconds from 0001-01-01T00:00:00Z, Go's zero time, so that \<open>IsZero\<close> is equality with 0 and a
  \<open>time.Duration\<close> is a difference. \<open>civil_of_day\<close> is the calendar of \<open>Time.Date\<close> (400-, 100-, 4- and
  1-year cycles), \<open>time_date\<close> is \<open>time.Date\<close> in UTC. The main result is that the textual timestamps
  of the SQLite store sort as the instants they stand for and are read back to the millisecond.
\<close>

section \<open>Durations and the calendar\<close>

definition millisecond :: int where "millisecond = 1000000"
definition second :: int where "second = 1000000000"
definition minute :: int where "minute = 60 * second"
definition hour :: int where "hour = 60 * minute"
definition day :: int where "day = 24 * hour"

lemmas duration_defs = millisecond_def second_def minute_def hour_def day_def

definition is_leap :: "int \<Rightarrow> bool" where
  "is_leap y \<longleftrightarrow> y mod 4 = 0 \<and> (y mod 100 \<noteq> 0 \<or> y mod 400 = 0)"

definition days_in_year :: "int \<Rightarrow> int" where
  "days_in_year y = (if is_leap y then 366 else 365)"

text \<open>Days from 0001-01-01 to the first of January of a year.\<close>

definition days_before_year :: "int \<Rightarrow> int" where
  "days_before_year y = 365 * (y - 1) + (y - 1) div 4 - (y - 1) div 100 + (y - 1) div 400"

definition month_lengths :: "int \<Rightarrow> int list" where
  "month_lengths y = [31, if is_leap y then 29 else 28, 31, 30, 31, 30, 31, 31, 30, 31, 30, 31]"

text \<open>Month (from the given one on) and day of the month of a day of the year.\<close>

fun scan_months :: "int \<Rightarrow> int list \<Rightarrow> int \<Rightarrow> int \<times> int" where
  "scan_months m [] d = (m, d + 1)"
| "scan_months m (l # ls) d = (if d < l then (m, d + 1) else scan_months (m + 1) ls (d - l))"

definition year_of_day :: "int \<Rightarrow> int \<times> int" where
  "year_of_day n =
     (let n400 = n div 146097; r = n mod 146097;
          n100 = min (r div 36524) 3; r100 = r - 36524 * n100;
          n4 = r100 div 1461; r4 = r100 mod 1461;
          n1 = min (r4 div 365) 3
      in (400 * n400 + 100 * n100 + 4 * n4 + n1 + 1, r4 - 365 * n1))"

definition civil_of_day :: "int \<Rightarrow> int \<times> int \<times> int" where
  "civil_of_day n = (let (y, yday) = year_of_day n in (y, scan_months 1 (month_lengths y) yday))"

definition day_of_civil :: "int \<Rightarrow> int \<Rightarrow> int \<Rightarrow> int" where
  "day_of_civil y m d = days_before_year y + sum_list (take (nat (m - 1)) (month_lengths y)) + d - 1"

lemma days_before_year_cycle: "days_before_year (400 * q + y) = 146097 * q + days_before_year y"
proof -
  have "(400 * q + y - 1) div 4 = 100 * q + (y - 1) div 4"
    using div_mult_self4 [of 4 "100 * q" "y - 1"] by (simp add: algebra_simps)
  moreover have "(400 * q + y - 1) div 100 = 4 * q + (y - 1) div 100"
    using div_mult_self4 [of 100 "4 * q" "y - 1"] by (simp add: algebra_simps)
  moreover have "(400 * q + y - 1) div 400 = q + (y - 1) div 400"
    using div_mult_self4 [of 400 q "y - 1"] by (simp add: algebra_simps)
  ultimately show ?thesis by (simp add: days_before_year_def)
qed

lemma is_leap_cycle: "is_leap (400 * q + y) = is_leap y"
proof -
  have "(400 * q + y) mod 4 = y mod 4" using mod_mult_self4 [of 4 "100 * q" y] by simp
  moreover have "(400 * q + y) mod 100 = y mod 100" using mod_mult_self4 [of 100 "4 * q" y] by simp
  moreover have "(400 * q + y) mod 400 = y mod 400" by simp
  ultimately show ?thesis by (simp add: is_leap_def)
qed

lemma div_pred: "0 < k \<Longrightarrow> y div k = (y - 1) div k + (if y mod k = 0 then 1 else 0 :: int)" for k y :: int
proof -
  assume k: "0 < k"
  define q where "q = (y - 1) div k"
  define r where "r = (y - 1) mod k"
  have y: "y = k * q + (r + 1)" and r: "0 \<le> r" "r < k"
    using k by (simp_all add: q_def r_def algebra_simps)
  show ?thesis
  proof (cases "r + 1 = k")
    case True
    then have "y = k * (q + 1)" using y by (simp add: algebra_simps)
    then have "y div k = q + 1" "y mod k = 0" using k by simp_all
    then show ?thesis by (simp add: q_def)
  next
    case False
    with r have "r + 1 < k" by simp
    then have "y div k = q" "y mod k = r + 1"
      using y r int_div_pos_eq [of y k q "r + 1"] int_mod_pos_eq [of y k q "r + 1"] by auto
    with r show ?thesis by (simp add: q_def)
  qed
qed

lemma days_before_Suc: "days_before_year (y + 1) = days_before_year y + days_in_year y"
proof -
  have bool: "(if P then 1 else 0) - (if Q then 1 else 0) + (if R then 1 else 0) =
      (if P \<and> (\<not> Q \<or> R) then 1 else 0 :: int)" if "R \<longrightarrow> Q" "Q \<longrightarrow> P" for P Q R
    using that by (cases P; cases Q; cases R) simp_all
  have "y mod 400 = 0 \<longrightarrow> y mod 100 = 0" "y mod 100 = 0 \<longrightarrow> y mod 4 = 0"
    using dvd_trans [of 100 400 y] dvd_trans [of 4 100 y] by (simp_all add: dvd_eq_mod_eq_0)
  then have leap: "(if y mod 4 = 0 then 1 else 0) - (if y mod 100 = 0 then 1 else 0) + (if y mod 400 = 0 then 1 else 0)
      = (if is_leap y then 1 else 0 :: int)"
    unfolding is_leap_def by (rule bool)
  define A B C where "A = (y - 1) div 4" and "B = (y - 1) div 100" and "C = (y - 1) div 400"
  have "days_before_year (y + 1) = 365 * y + y div 4 - y div 100 + y div 400"
    by (simp add: days_before_year_def)
  also have "\<dots> = 365 * y + A - B + C + (if is_leap y then 1 else 0)"
    unfolding leap [symmetric] A_def B_def C_def
    using div_pred [of 4 y] div_pred [of 100 y] div_pred [of 400 y]
    by (simp only: zero_less_numeral algebra_simps)
  also have "\<dots> = days_before_year y + days_in_year y"
    unfolding days_before_year_def days_in_year_def A_def [symmetric] B_def [symmetric] C_def [symmetric]
    by simp
  finally show ?thesis .
qed

lemma days_before_year_mono: "y \<le> y' \<Longrightarrow> days_before_year y \<le> days_before_year y'"
proof (induction "nat (y' - y)" arbitrary: y')
  case (Suc k)
  then have "days_before_year y \<le> days_before_year (y' - 1)" by auto
  also have "\<dots> \<le> days_before_year (y' - 1 + 1)"
    unfolding days_before_Suc by (simp add: days_in_year_def)
  finally show ?case by simp
qed simp

text \<open>One 400-year cycle, as the digits \<open>a\<close>, \<open>b\<close>, \<open>c\<close> of the year.\<close>

lemma days_before_year_digits:
  assumes "0 \<le> a" "a \<le> 3" "0 \<le> b" "b \<le> 24" "0 \<le> c" "c \<le> 3"
  shows "days_before_year (100 * a + 4 * b + c + 1) = 36524 * a + 1461 * b + 365 * c"
proof -
  have "(100 * a + 4 * b + c) div 4 = 25 * a + b"
    by (rule int_div_pos_eq [where r = c]) (use assms in auto)
  moreover have "(100 * a + 4 * b + c) div 100 = a"
    by (rule int_div_pos_eq [where r = "4 * b + c"]) (use assms in auto)
  moreover have "(100 * a + 4 * b + c) div 400 = 0"
    by (rule div_pos_pos_trivial) (use assms in auto)
  ultimately show ?thesis by (simp add: days_before_year_def)
qed

lemma days_in_year_digits:
  assumes "0 \<le> a" "a \<le> 3" "0 \<le> b" "b \<le> 24" "0 \<le> c" "c \<le> 3"
  shows "days_in_year (100 * a + 4 * b + c + 1) = (if c = 3 \<and> (b \<noteq> 24 \<or> a = 3) then 366 else 365)"
proof -
  let ?y = "100 * a + 4 * b + c + 1"
  have d: "days_in_year ?y = days_before_year (?y + 1) - days_before_year ?y"
    unfolding days_before_Suc by simp
  consider "c < 3" | "c = 3" "b < 24" | "c = 3" "b = 24" "a < 3" | "c = 3" "b = 24" "a = 3"
    using assms by linarith
  then show ?thesis
  proof cases
    case 1
    then show ?thesis
      using d days_before_year_digits [OF assms] days_before_year_digits [of a b "c + 1"] assms
      by (simp add: algebra_simps)
  next
    case 2
    then show ?thesis
      using d days_before_year_digits [OF assms] days_before_year_digits [of a "b + 1" 0] assms
      by (simp add: algebra_simps)
  next
    case 3
    then show ?thesis
      using d days_before_year_digits [OF assms] days_before_year_digits [of "a + 1" 0 0] assms
      by (simp add: algebra_simps)
  next
    case 4
    then show ?thesis by (simp add: days_in_year_def is_leap_def)
  qed
qed

lemma year_of_day:
  assumes "year_of_day n = (y, yday)"
  shows "days_before_year y + yday = n" "0 \<le> yday" "yday < days_in_year y"
proof -
  define q where "q = n div 146097"
  define r where "r = n mod 146097"
  define a where "a = min (r div 36524) 3"
  define ra where "ra = r - 36524 * a"
  define b where "b = ra div 1461"
  define rb where "rb = ra mod 1461"
  define c where "c = min (rb div 365) 3"
  have n: "n = 146097 * q + r" by (simp add: q_def r_def)
  have r: "0 \<le> r" "r < 146097" by (simp_all add: r_def)
  have a: "0 \<le> a" "a \<le> 3" using r by (auto simp: a_def pos_imp_zdiv_nonneg_iff)
  have ra: "0 \<le> ra" "ra < (if a = 3 then 36525 else 36524)"
  proof -
    have m: "r = 36524 * (r div 36524) + r mod 36524" "0 \<le> r mod 36524" "r mod 36524 < 36524" by simp_all
    show "0 \<le> ra" "ra < (if a = 3 then 36525 else 36524)"
      using m r unfolding ra_def a_def min_def by (auto split: if_splits)
  qed
  have b: "0 \<le> b" "b \<le> 24" using ra unfolding b_def by (simp_all split: if_splits)
  have rb: "ra = 1461 * b + rb" "0 \<le> rb" "rb < 1461" by (simp_all add: rb_def b_def)
  have c: "0 \<le> c" "c \<le> 3" using rb by (auto simp: c_def pos_imp_zdiv_nonneg_iff)
  have "year_of_day n = (400 * q + 100 * a + 4 * b + c + 1, rb - 365 * c)"
    unfolding year_of_day_def Let_def q_def r_def a_def ra_def b_def rb_def c_def by (rule refl)
  with assms have y: "y = 400 * q + (100 * a + 4 * b + c + 1)" and yday: "yday = rb - 365 * c"
    by simp_all
  show "days_before_year y + yday = n"
    unfolding y days_before_year_cycle days_before_year_digits [OF a b c] n yday
    using rb(1) by (simp add: ra_def)
  show "0 \<le> yday" 
  proof -
    have "rb = 365 * (rb div 365) + rb mod 365" "0 \<le> rb mod 365" by simp_all
    then show ?thesis unfolding yday c_def min_def by (auto split: if_splits)
  qed
  have leap: "days_in_year y = days_in_year (100 * a + 4 * b + c + 1)"
    unfolding y days_in_year_def is_leap_cycle ..
  show "yday < days_in_year y"
  proof (cases "c = 3 \<and> (b \<noteq> 24 \<or> a = 3)")
    case True
    then show ?thesis using rb unfolding leap days_in_year_digits [OF a b c] yday by simp
  next
    case False
    have "rb - 365 * c < 365"
    proof (cases "c = 3")
      case True
      with False have "b = 24" "a \<noteq> 3" by auto
      with ra rb True show ?thesis by simp
    next
      case False
      then have "c = rb div 365" by (simp add: c_def min_def split: if_splits)
      then have "rb - 365 * c = rb mod 365" by (simp add: minus_mult_div_eq_mod)
      then show ?thesis by simp
    qed
    with False show ?thesis unfolding leap days_in_year_digits [OF a b c] yday by simp
  qed
qed

lemma scan_months:
  assumes "scan_months m ls d = (m', d')" "0 \<le> d" "d < sum_list ls"
  shows "\<exists>k < length ls. m' = m + int k \<and> d' = d - sum_list (take k ls) + 1 \<and> 1 \<le> d' \<and> d' \<le> ls ! k"
  using assms
proof (induction ls arbitrary: m d)
  case (Cons l ls)
  show ?case
  proof (cases "d < l")
    case True
    with Cons.prems show ?thesis by (intro exI [of _ 0]) auto
  next
    case False
    with Cons.prems have "scan_months (m + 1) ls (d - l) = (m', d')" "0 \<le> d - l" "d - l < sum_list ls"
      by auto
    from Cons.IH [OF this] obtain k where "k < length ls" "m' = m + 1 + int k"
      "d' = d - l - sum_list (take k ls) + 1" "1 \<le> d'" "d' \<le> ls ! k" by blast
    then show ?thesis by (intro exI [of _ "Suc k"]) auto
  qed
qed simp

lemma length_month_lengths [simp]: "length (month_lengths y) = 12"
  by (simp add: month_lengths_def)

lemma month_lengths_sum: "sum_list (month_lengths y) = days_in_year y"
  by (simp add: month_lengths_def days_in_year_def)

lemma month_lengths_pos: "l \<in> set (month_lengths y) \<Longrightarrow> 0 < l"
  by (auto simp: month_lengths_def)

definition valid_civil :: "int \<Rightarrow> int \<Rightarrow> int \<Rightarrow> bool" where
  "valid_civil y m d \<longleftrightarrow> 1 \<le> m \<and> m \<le> 12 \<and> 1 \<le> d \<and> d \<le> month_lengths y ! nat (m - 1)"

lemma civil_of_day:
  assumes "civil_of_day n = (y, m, d)"
  shows "valid_civil y m d" "day_of_civil y m d = n"
proof -
  obtain yday where y: "year_of_day n = (y, yday)" and sc: "scan_months 1 (month_lengths y) yday = (m, d)"
    using assms by (auto simp: civil_of_day_def Let_def split: prod.splits)
  note yd = year_of_day [OF y]
  from scan_months [OF sc] yd obtain k where k: "k < 12" "m = 1 + int k"
    "d = yday - sum_list (take k (month_lengths y)) + 1" "1 \<le> d" "d \<le> month_lengths y ! k"
    by (auto simp: month_lengths_sum)
  then show "valid_civil y m d" by (simp add: valid_civil_def)
  from k yd show "day_of_civil y m d = n" by (simp add: day_of_civil_def)
qed

lemma sum_take_month_le:
  assumes "k \<le> j" "j \<le> 12"
  shows "sum_list (take k (month_lengths y)) \<le> sum_list (take j (month_lengths y))"
proof -
  have "take j (month_lengths y) = take k (month_lengths y) @ drop k (take j (month_lengths y))"
    using assms by (metis append_take_drop_id min.absorb1 take_take)
  moreover have "0 \<le> sum_list (drop k (take j (month_lengths y)))"
    by (rule sum_list_nonneg) (meson in_set_dropD in_set_takeD less_le month_lengths_pos)
  ultimately show ?thesis by (metis add_increasing2 order_refl sum_list_append)
qed

lemma day_of_civil_month_end:
  assumes "valid_civil y m d"
  shows "day_of_civil y m d < days_before_year y + sum_list (take (nat m) (month_lengths y))"
proof -
  have "nat m = Suc (nat (m - 1))" "nat (m - 1) < length (month_lengths y)"
    using assms by (auto simp: valid_civil_def)
  then have "sum_list (take (nat m) (month_lengths y)) =
      sum_list (take (nat (m - 1)) (month_lengths y)) + month_lengths y ! nat (m - 1)"
    by (simp add: take_Suc_conv_app_nth)
  with assms show ?thesis by (simp add: day_of_civil_def valid_civil_def)
qed

text \<open>The calendar keeps the order of the days: years, then months, then days of the month.\<close>

definition civil_less :: "int \<times> int \<times> int \<Rightarrow> int \<times> int \<times> int \<Rightarrow> bool" where
  "civil_less a b = (case a of (y, m, d) \<Rightarrow> case b of (y', m', d') \<Rightarrow>
     y < y' \<or> y = y' \<and> (m < m' \<or> m = m' \<and> d < d'))"

lemma day_of_civil_less:
  assumes "valid_civil y m d" "valid_civil y' m' d'" "civil_less (y, m, d) (y', m', d')"
  shows "day_of_civil y m d < day_of_civil y' m' d'"
proof -
  have start: "days_before_year y' + sum_list (take (nat (m' - 1)) (month_lengths y')) \<le> day_of_civil y' m' d'"
    using assms(2) by (simp add: day_of_civil_def valid_civil_def)
  consider "y < y'" | "y = y'" "m < m'" | "y = y'" "m = m'" "d < d'"
    using assms(3) by (auto simp: civil_less_def)
  then show ?thesis
  proof cases
    case 1
    have "day_of_civil y m d < days_before_year y + sum_list (take 12 (month_lengths y))"
      using day_of_civil_month_end [OF assms(1)] sum_take_month_le [of "nat m" 12 y] assms(1)
      by (simp add: valid_civil_def nat_le_iff)
    also have "\<dots> = days_before_year (y + 1)" by (simp add: days_before_Suc month_lengths_sum)
    also have "\<dots> \<le> days_before_year y'" using 1 by (intro days_before_year_mono) simp
    also have "\<dots> \<le> days_before_year y' + sum_list (take (nat (m' - 1)) (month_lengths y'))"
      using sum_take_month_le [of 0 "nat (m' - 1)" y'] assms(2) by (simp add: valid_civil_def nat_le_iff)
    finally show ?thesis using start by simp
  next
    case 2
    have "sum_list (take (nat m) (month_lengths y)) \<le> sum_list (take (nat (m' - 1)) (month_lengths y))"
      using 2 assms(1,2) by (intro sum_take_month_le) (auto simp: valid_civil_def)
    then show ?thesis using day_of_civil_month_end [OF assms(1)] start 2 by simp
  next
    case 3
    then show ?thesis by (simp add: day_of_civil_def)
  qed
qed

lemma civil_of_day_less_iff: "civil_less (civil_of_day n) (civil_of_day n') \<longleftrightarrow> n < n'"
proof -
  obtain y m d where c: "civil_of_day n = (y, m, d)" by (metis prod.exhaust)
  obtain y' m' d' where c': "civil_of_day n' = (y', m', d')" by (metis prod.exhaust)
  note v = civil_of_day [OF c] and v' = civil_of_day [OF c']
  have "civil_less (y, m, d) (y', m', d') \<or> civil_less (y', m', d') (y, m, d) \<or> (y, m, d) = (y', m', d')"
    by (auto simp: civil_less_def)
  then show ?thesis
    using day_of_civil_less [OF v(1) v'(1)] day_of_civil_less [OF v'(1) v(1)] v(2) v'(2)
    unfolding c c' by (auto simp: civil_less_def)
qed

lemma civil_of_day_of_civil: "valid_civil y m d \<Longrightarrow> civil_of_day (day_of_civil y m d) = (y, m, d)"
proof -
  assume v: "valid_civil y m d"
  obtain y' m' d' where c: "civil_of_day (day_of_civil y m d) = (y', m', d')" by (metis prod.exhaust)
  note v' = civil_of_day [OF c]
  have "civil_less (y, m, d) (y', m', d') \<or> civil_less (y', m', d') (y, m, d) \<or> (y, m, d) = (y', m', d')"
    by (auto simp: civil_less_def)
  then show ?thesis
    using day_of_civil_less [OF v v'(1)] day_of_civil_less [OF v'(1) v] v'(2) c by auto
qed

section \<open>Fields of an instant\<close>

definition date_of :: "instant \<Rightarrow> int \<times> int \<times> int" where
  "date_of t = civil_of_day (t div day)"

definition time_date :: "int \<Rightarrow> int \<Rightarrow> int \<Rightarrow> instant" where
  "time_date y m d = (let m0 = m - 1; y' = y + m0 div 12; m' = m0 mod 12 + 1 in day_of_civil y' m' d * day)"

definition clock_of :: "instant \<Rightarrow> int \<times> int \<times> int" where
  "clock_of t = (t mod day div hour, t mod hour div minute, t mod minute div second)"

definition millis_of :: "instant \<Rightarrow> int" where
  "millis_of t = t mod second div millisecond"

text \<open>\<open>t.Truncate(time.Millisecond)\<close> for an instant in UTC\<close>

definition trunc_ms :: "instant \<Rightarrow> instant" where
  "trunc_ms t = t div millisecond * millisecond"

lemma mod_mult_div: "0 < a \<Longrightarrow> 0 < b \<Longrightarrow> t mod (a * b) div a = t div a mod b" for t :: int
  by (simp add: zmod_zmult2_eq)

lemma radix_less: "0 < k \<Longrightarrow> a < b \<longleftrightarrow> a div k < b div k \<or> a div k = b div k \<and> a mod k < b mod k" for a b k :: int
proof -
  assume k: "0 < k"
  then have "a < b \<Longrightarrow> a div k \<le> b div k" by (simp add: zdiv_mono1)
  moreover have "b \<le> a \<Longrightarrow> b div k \<le> a div k" using k by (simp add: zdiv_mono1)
  moreover have "a = k * (a div k) + a mod k" "b = k * (b div k) + b mod k" by simp_all
  ultimately show ?thesis by (metis add_less_cancel_left leD leI order_le_imp_less_or_eq)
qed

lemma radix_eq: "a = b \<longleftrightarrow> a div k = b div k \<and> a mod k = b mod k" for a b k :: int
  by (metis mult_div_mod_eq)

lemma millis_of_conv: "millis_of t = t div millisecond mod 1000"
  using mod_mult_div [of millisecond 1000 t] by (simp add: millis_of_def duration_defs)

lemma clock_of_conv:
  "clock_of t = (let T = t div millisecond in (T div 3600000 mod 24, T div 60000 mod 60, T div 1000 mod 60))"
proof -
  have "t div hour = t div millisecond div 3600000" "t div minute = t div millisecond div 60000"
    "t div second = t div millisecond div 1000"
    by (subst zdiv_zmult2_eq [symmetric]; simp add: duration_defs)+
  moreover have "t mod day div hour = t div hour mod 24" "t mod hour div minute = t div minute mod 60"
    "t mod minute div second = t div second mod 60"
    by (subst mod_mult_div [symmetric]; simp add: duration_defs)+
  ultimately show ?thesis by (simp only: clock_of_def Let_def)
qed

lemma date_of_conv: "date_of t = civil_of_day (t div millisecond div 86400000)"
  by (subst zdiv_zmult2_eq [symmetric]) (simp_all add: date_of_def duration_defs)

lemma ms_radix:
  "x div 1000 div 60 = x div 60000" "x div 60000 div 60 = x div 3600000"
  "x div 3600000 div 24 = x div 86400000" for x :: int
  by (subst zdiv_zmult2_eq [symmetric]; simp)+

text \<open>Instants compare as their fields, to the millisecond.\<close>

definition clock_less :: "int \<times> int \<times> int \<Rightarrow> int \<times> int \<times> int \<Rightarrow> bool" where
  "clock_less a b = (case a of (h, m, s) \<Rightarrow> case b of (h', m', s') \<Rightarrow>
     h < h' \<or> h = h' \<and> (m < m' \<or> m = m' \<and> s < s'))"

lemma fields_less_iff:
  "t div millisecond < t' div millisecond \<longleftrightarrow>
     civil_less (date_of t) (date_of t') \<or> date_of t = date_of t' \<and>
       (clock_less (clock_of t) (clock_of t') \<or> clock_of t = clock_of t' \<and> millis_of t < millis_of t')"
proof -
  define T where "T = t div millisecond"
  define T' where "T' = t' div millisecond"
  have eqd: "civil_of_day n = civil_of_day n' \<longleftrightarrow> n = n'" for n n'
    by (metis civil_of_day(2) prod.exhaust)
  have lt: "T < T' \<longleftrightarrow> T div 1000 < T' div 1000 \<or> T div 1000 = T' div 1000 \<and> T mod 1000 < T' mod 1000"
    "T div 1000 < T' div 1000 \<longleftrightarrow> T div 60000 < T' div 60000 \<or>
       T div 60000 = T' div 60000 \<and> T div 1000 mod 60 < T' div 1000 mod 60"
    "T div 60000 < T' div 60000 \<longleftrightarrow> T div 3600000 < T' div 3600000 \<or>
       T div 3600000 = T' div 3600000 \<and> T div 60000 mod 60 < T' div 60000 mod 60"
    "T div 3600000 < T' div 3600000 \<longleftrightarrow> T div 86400000 < T' div 86400000 \<or>
       T div 86400000 = T' div 86400000 \<and> T div 3600000 mod 24 < T' div 3600000 mod 24"
    using radix_less [of 1000 T T'] radix_less [of 60 "T div 1000" "T' div 1000"]
      radix_less [of 60 "T div 60000" "T' div 60000"] radix_less [of 24 "T div 3600000" "T' div 3600000"]
    unfolding ms_radix by (simp_all only: zero_less_numeral simp_thms)
  have eq: "T div 1000 = T' div 1000 \<longleftrightarrow> T div 60000 = T' div 60000 \<and> T div 1000 mod 60 = T' div 1000 mod 60"
    "T div 60000 = T' div 60000 \<longleftrightarrow> T div 3600000 = T' div 3600000 \<and> T div 60000 mod 60 = T' div 60000 mod 60"
    "T div 3600000 = T' div 3600000 \<longleftrightarrow> T div 86400000 = T' div 86400000 \<and> T div 3600000 mod 24 = T' div 3600000 mod 24"
    using radix_eq [of "T div 1000" "T' div 1000" 60] radix_eq [of "T div 60000" "T' div 60000" 60]
      radix_eq [of "T div 3600000" "T' div 3600000" 24]
    unfolding ms_radix by (simp_all only:)
  show ?thesis
    unfolding date_of_conv clock_of_conv millis_of_conv T_def [symmetric] T'_def [symmetric] Let_def
      civil_of_day_less_iff eqd clock_less_def prod.case prod.inject
    by (simp only: lt eq) blast
qed

section \<open>Formatting\<close>

text \<open>\<open>appendInt\<close> of the time package: zero-padded decimal, at least \<open>w\<close> digits.\<close>

definition pad :: "nat \<Rightarrow> nat \<Rightarrow> string" where
  "pad w n = replicate (w - length (nat_digits n)) CHR ''0'' @ nat_digits n"

definition append_int :: "nat \<Rightarrow> int \<Rightarrow> string" where
  "append_int w i = (if i < 0 then CHR ''-'' # pad w (nat (- i)) else pad w (nat i))"

text \<open>Layouts \<open>2006-01-02\<close> and \<open>15:04:05\<close>.\<close>

definition fmt_date :: "instant \<Rightarrow> string" where
  "fmt_date t = (case date_of t of (y, m, d) \<Rightarrow> append_int 4 y @ ''-'' @ append_int 2 m @ ''-'' @ append_int 2 d)"

definition fmt_clock :: "instant \<Rightarrow> string" where
  "fmt_clock t = (case clock_of t of (h, m, s) \<Rightarrow> append_int 2 h @ '':'' @ append_int 2 m @ '':'' @ append_int 2 s)"

text \<open>Layout \<open>2006-01-02T15:04:05.000Z\<close> and \<open>time.RFC3339\<close>, of an instant in UTC.\<close>

definition fmt_millis :: "instant \<Rightarrow> string" where
  "fmt_millis t = fmt_date t @ ''T'' @ fmt_clock t @ ''.'' @ append_int 3 (millis_of t) @ ''Z''"

definition fmt_rfc3339 :: "instant \<Rightarrow> string" where
  "fmt_rfc3339 t = fmt_date t @ ''T'' @ fmt_clock t @ ''Z''"

text \<open>Fixed-width decimal digits, in which strings compare as numbers.\<close>

fun dec :: "nat \<Rightarrow> nat \<Rightarrow> string" where
  "dec 0 n = []"
| "dec (Suc w) n = dec w (n div 10) @ [digit_char (n mod 10)]"

lemma length_dec [simp]: "length (dec w n) = w"
  by (induction w arbitrary: n) auto

lemma dec_0: "dec w 0 = replicate w CHR ''0''"
proof (induction w)
  case (Suc w)
  have "digit_char 0 = CHR ''0''" by (simp add: digit_char_def char_of_eq_iff)
  with Suc show ?case by (simp add: replicate_append_same)
qed simp

lemma pad_dec: "0 < w \<Longrightarrow> n < 10 ^ w \<Longrightarrow> pad w n = dec w n"
proof (induction w arbitrary: n)
  case (Suc w)
  show ?case
  proof (cases "n < 10")
    case True
    then show ?thesis by (simp add: pad_def nat_digits.simps [of n] dec_0)
  next
    case False
    with Suc.prems have w: "0 < w" by (cases w) auto
    from Suc.prems have "n div 10 < 10 ^ w" by (simp add: less_mult_imp_div_less mult.commute)
    from Suc.IH [OF w this] False show ?thesis by (simp add: pad_def nat_digits.simps [of n])
  qed
qed simp

lemma append_int_dec: "0 < w \<Longrightarrow> 0 \<le> i \<Longrightarrow> i < 10 ^ w \<Longrightarrow> append_int w i = dec w (nat i)"
  by (simp add: append_int_def pad_dec nat_less_iff)

lemma append_less_iff:
  fixes a b x y :: string
  assumes "length a = length b"
  shows "a @ x < b @ y \<longleftrightarrow> a < b \<or> a = b \<and> x < y"
  using assms by (induction a b rule: list_induct2) auto

lemma digit_char_less: "i < 10 \<Longrightarrow> j < 10 \<Longrightarrow> digit_char i < digit_char j \<longleftrightarrow> i < j"
  by (simp add: less_char_def digit_char_byte)

lemma digit_char_eq: "i < 10 \<Longrightarrow> j < 10 \<Longrightarrow> digit_char i = digit_char j \<longleftrightarrow> i = j"
  by (metis add_left_cancel digit_char_byte)

lemma dec_eq_iff: "m < 10 ^ w \<Longrightarrow> n < 10 ^ w \<Longrightarrow> dec w m = dec w n \<longleftrightarrow> m = n"
proof (induction w arbitrary: m n)
  case (Suc w)
  have "m div 10 < 10 ^ w" "n div 10 < 10 ^ w"
    using Suc.prems by (simp_all add: less_mult_imp_div_less mult.commute)
  then have "dec (Suc w) m = dec (Suc w) n \<longleftrightarrow> m div 10 = n div 10 \<and> m mod 10 = n mod 10"
    using Suc.IH by (simp add: digit_char_eq)
  then show ?case by (metis mult_div_mod_eq)
qed simp

lemma dec_less_iff: "m < 10 ^ w \<Longrightarrow> n < 10 ^ w \<Longrightarrow> dec w m < dec w n \<longleftrightarrow> m < n"
proof (induction w arbitrary: m n)
  case (Suc w)
  have q: "m div 10 < 10 ^ w" "n div 10 < 10 ^ w"
    using Suc.prems by (simp_all add: less_mult_imp_div_less mult.commute)
  have "dec (Suc w) m < dec (Suc w) n \<longleftrightarrow>
      m div 10 < n div 10 \<or> m div 10 = n div 10 \<and> m mod 10 < n mod 10"
    using Suc.IH [OF q] dec_eq_iff [OF q] by (simp add: append_less_iff digit_char_less)
  also have "\<dots> \<longleftrightarrow> m < n"
  proof -
    have c: "int k div 10 = int (k div 10)" "int k mod 10 = int (k mod 10)" for k
      by (simp_all add: zdiv_int zmod_int)
    show ?thesis using radix_less [of 10 "int m" "int n"] unfolding c by simp
  qed
  finally show ?case .
qed simp

lemma dec_int_iff:
  assumes "0 \<le> i" "i < 10 ^ w" "0 \<le> j" "j < 10 ^ w"
  shows "dec w (nat i) < dec w (nat j) \<longleftrightarrow> i < j" "dec w (nat i) = dec w (nat j) \<longleftrightarrow> i = j"
  using assms by (auto simp: dec_less_iff dec_eq_iff nat_less_iff eq_nat_nat_iff)

text \<open>Instants of the years 1 to 9999, in which the formats have a fixed width.\<close>

definition four_digit_year :: "instant \<Rightarrow> bool" where
  "four_digit_year t \<longleftrightarrow> (let y = fst (date_of t) in 0 \<le> y \<and> y \<le> 9999)"

lemma clock_bounds: "clock_of t = (h, m, s) \<Longrightarrow> 0 \<le> h \<and> h < 24 \<and> 0 \<le> m \<and> m < 60 \<and> 0 \<le> s \<and> s < 60"
proof -
  assume "clock_of t = (h, m, s)"
  then have "h = t div millisecond div 3600000 mod 24" "m = t div millisecond div 60000 mod 60"
    "s = t div millisecond div 1000 mod 60" by (simp_all only: clock_of_conv Let_def prod.inject)
  then show ?thesis by (simp only: pos_mod_sign pos_mod_bound zero_less_numeral simp_thms)
qed

lemma millis_bounds: "0 \<le> millis_of t" "millis_of t < 1000"
  by (simp_all add: millis_of_conv)

lemma date_bounds: "date_of t = (y, m, d) \<Longrightarrow> 1 \<le> m \<and> m \<le> 12 \<and> 1 \<le> d \<and> d \<le> 31"
proof -
  assume "date_of t = (y, m, d)"
  then have "valid_civil y m d" unfolding date_of_def by (rule civil_of_day)
  moreover from this have "month_lengths y ! nat (m - 1) \<in> set (month_lengths y)"
    by (intro nth_mem) (auto simp: valid_civil_def)
  then have "month_lengths y ! nat (m - 1) \<le> 31" by (auto simp: month_lengths_def split: if_splits)
  ultimately show ?thesis by (auto simp: valid_civil_def)
qed

lemma fmt_date_dec:
  "four_digit_year t \<Longrightarrow> date_of t = (y, m, d) \<Longrightarrow>
   fmt_date t = dec 4 (nat y) @ ''-'' @ dec 2 (nat m) @ ''-'' @ dec 2 (nat d)"
  using date_bounds [of t y m d] by (simp add: fmt_date_def four_digit_year_def append_int_dec)

lemma fmt_clock_dec:
  "clock_of t = (h, m, s) \<Longrightarrow> fmt_clock t = dec 2 (nat h) @ '':'' @ dec 2 (nat m) @ '':'' @ dec 2 (nat s)"
  using clock_bounds [of t h m s] by (simp add: fmt_clock_def append_int_dec)

lemma fmt_millis_dec: "append_int 3 (millis_of t) = dec 3 (nat (millis_of t))"
  using millis_bounds [of t] by (simp add: append_int_dec)

lemma length_fmt_date: "four_digit_year t \<Longrightarrow> length (fmt_date t) = 10"
  by (cases "date_of t") (simp add: fmt_date_dec)

lemma length_fmt_clock: "length (fmt_clock t) = 8"
  by (cases "clock_of t") (simp add: fmt_clock_dec)

lemma length_fmt_millis: "four_digit_year t \<Longrightarrow> length (fmt_millis t) = 24"
  by (simp add: fmt_millis_def length_fmt_date length_fmt_clock fmt_millis_dec)

lemma fmt_date_less:
  assumes "four_digit_year t" "four_digit_year t'"
  shows "fmt_date t < fmt_date t' \<longleftrightarrow> civil_less (date_of t) (date_of t')"
    and "fmt_date t = fmt_date t' \<longleftrightarrow> date_of t = date_of t'"
proof -
  obtain y m d where c: "date_of t = (y, m, d)" by (metis prod.exhaust)
  obtain y' m' d' where c': "date_of t' = (y', m', d')" by (metis prod.exhaust)
  have b: "0 \<le> y" "y \<le> 9999" "0 \<le> y'" "y' \<le> 9999" using assms c c' by (auto simp: four_digit_year_def)
  note e = fmt_date_dec [OF assms(1) c] fmt_date_dec [OF assms(2) c']
  note bb = date_bounds [OF c] date_bounds [OF c']
  show "fmt_date t < fmt_date t' \<longleftrightarrow> civil_less (date_of t) (date_of t')"
    unfolding e c c' civil_less_def using b bb
    by (simp add: append_less_iff dec_int_iff)
  show "fmt_date t = fmt_date t' \<longleftrightarrow> date_of t = date_of t'"
    unfolding e c c' using b bb by (simp add: dec_int_iff)
qed

lemma fmt_clock_less:
  "fmt_clock t < fmt_clock t' \<longleftrightarrow> clock_less (clock_of t) (clock_of t')"
  "fmt_clock t = fmt_clock t' \<longleftrightarrow> clock_of t = clock_of t'"
proof -
  obtain h m s where c: "clock_of t = (h, m, s)" by (metis prod.exhaust)
  obtain h' m' s' where c': "clock_of t' = (h', m', s')" by (metis prod.exhaust)
  note e = fmt_clock_dec [OF c] fmt_clock_dec [OF c'] and b = clock_bounds [OF c] clock_bounds [OF c']
  show "fmt_clock t < fmt_clock t' \<longleftrightarrow> clock_less (clock_of t) (clock_of t')"
    unfolding e c c' clock_less_def using b
    by (simp add: append_less_iff dec_int_iff)
  show "fmt_clock t = fmt_clock t' \<longleftrightarrow> clock_of t = clock_of t'"
    unfolding e c c' using b by (simp add: dec_int_iff)
qed

text \<open>Text order is time order, to the millisecond.\<close>

lemma fmt_millis_less_iff:
  assumes "four_digit_year t" "four_digit_year t'"
  shows "fmt_millis t < fmt_millis t' \<longleftrightarrow> t div millisecond < t' div millisecond"
proof -
  have "fmt_millis t < fmt_millis t' \<longleftrightarrow>
      fmt_date t < fmt_date t' \<or> fmt_date t = fmt_date t' \<and>
        (fmt_clock t < fmt_clock t' \<or> fmt_clock t = fmt_clock t' \<and> millis_of t < millis_of t')"
    unfolding fmt_millis_def fmt_millis_dec using millis_bounds [of t] millis_bounds [of t']
    by (simp add: append_less_iff length_fmt_date length_fmt_clock assms dec_int_iff)
  then show ?thesis unfolding fields_less_iff fmt_date_less [OF assms] fmt_clock_less .
qed

lemma fmt_millis_eq_iff:
  assumes "four_digit_year t" "four_digit_year t'"
  shows "fmt_millis t = fmt_millis t' \<longleftrightarrow> t div millisecond = t' div millisecond"
  using fmt_millis_less_iff [OF assms] fmt_millis_less_iff [OF assms(2) assms(1)]
  by (auto simp: order_eq_iff linorder_not_less [symmetric])

section \<open>Parsing\<close>

text \<open>
  \<open>time.Parse\<close> for the layout \<open>2006-01-02T15:04:05.000Z\<close>, with the helpers of the time package:
  \<open>getnum\<close> reads two digits (or, for the hour, one), \<open>atoi\<close> accepts a sign, the fraction may start
  with a comma.
\<close>

definition digit_of :: "char \<Rightarrow> nat option" where
  "digit_of c = (if 48 \<le> byte c \<and> byte c \<le> 57 then Some (byte c - 48) else None)"

fun getnum :: "bool \<Rightarrow> string \<Rightarrow> (int \<times> string) option" where
  "getnum fixed [] = None"
| "getnum fixed (a # s) = (case digit_of a of None \<Rightarrow> None
    | Some x \<Rightarrow> (case s of
        [] \<Rightarrow> if fixed then None else Some (int x, [])
      | b # s' \<Rightarrow> (case digit_of b of
          None \<Rightarrow> if fixed then None else Some (int x, s)
        | Some y \<Rightarrow> Some (int (10 * x + y), s'))))"

fun leading_int :: "nat \<Rightarrow> string \<Rightarrow> nat option" where
  "leading_int v [] = Some v"
| "leading_int v (c # s) = (case digit_of c of None \<Rightarrow> None | Some x \<Rightarrow> leading_int (10 * v + x) s)"

definition time_atoi :: "string \<Rightarrow> int option" where
  "time_atoi s = (case s of
      c # s' \<Rightarrow> if c = CHR ''-'' then map_option (\<lambda>v. - int v) (leading_int 0 s')
                else if c = CHR ''+'' then map_option int (leading_int 0 s')
                else map_option int (leading_int 0 s)
    | [] \<Rightarrow> Some 0)"

definition parse_year :: "string \<Rightarrow> (int \<times> string) option" where
  "parse_year s = (if length s < 4 \<or> digit_of (hd s) = None then None
     else map_option (\<lambda>v. (v, drop 4 s)) (time_atoi (take 4 s)))"

definition parse_frac3 :: "string \<Rightarrow> (int \<times> string) option" where
  "parse_frac3 s = (if length s < 4 \<or> hd s \<notin> {CHR ''.'', CHR '',''} then None
     else case time_atoi (take 3 (drop 1 s)) of
       None \<Rightarrow> None | Some v \<Rightarrow> if v < 0 then None else Some (v, drop 4 s))"

fun skip :: "char \<Rightarrow> string \<Rightarrow> string option" where
  "skip p [] = None"
| "skip p (c # s) = (if c = p then Some s else None)"

definition check :: "bool \<Rightarrow> unit option" where
  "check b = (if b then Some () else None)"

definition parse_millis :: "string \<Rightarrow> instant option" where
  "parse_millis s0 = do {
     (y, s1) \<leftarrow> parse_year s0;
     s2 \<leftarrow> skip CHR ''-'' s1;
     (m, s3) \<leftarrow> getnum True s2;
     check (1 \<le> m \<and> m \<le> 12);
     s4 \<leftarrow> skip CHR ''-'' s3;
     (d, s5) \<leftarrow> getnum True s4;
     s6 \<leftarrow> skip CHR ''T'' s5;
     (h, s7) \<leftarrow> getnum False s6;
     check (h < 24);
     s8 \<leftarrow> skip CHR '':'' s7;
     (mi, s9) \<leftarrow> getnum True s8;
     check (mi < 60);
     s10 \<leftarrow> skip CHR '':'' s9;
     (sec, s11) \<leftarrow> getnum True s10;
     check (sec < 60);
     (ms, s12) \<leftarrow> parse_frac3 s11;
     s13 \<leftarrow> skip CHR ''Z'' s12;
     check (s13 = []);
     check (1 \<le> d \<and> d \<le> month_lengths y ! nat (m - 1));
     Some (day_of_civil y m d * day + h * hour + mi * minute + sec * second + ms * millisecond)
   }"

lemma digit_of_digit_char [simp]: "d < 10 \<Longrightarrow> digit_of (digit_char d) = Some d"
  by (simp add: digit_of_def digit_char_byte)

lemma digit_char_not_sign: "d < 10 \<Longrightarrow> digit_char d \<noteq> CHR ''-'' \<and> digit_char d \<noteq> CHR ''+''"
  using digit_char_byte [of d] by (auto dest: arg_cong [of _ _ byte])

lemma getnum_dec: "n < 100 \<Longrightarrow> getnum f (dec 2 n @ s) = Some (int n, s)"
  by (simp add: numeral_2_eq_2)

lemma leading_int_append:
  "leading_int v (s @ s') = Option.bind (leading_int v s) (\<lambda>v'. leading_int v' s')"
  by (induction v s rule: leading_int.induct) (auto split: option.splits)

lemma leading_int_dec: "n < 10 ^ w \<Longrightarrow> leading_int v (dec w n) = Some (10 ^ w * v + n)"
proof (induction w arbitrary: n)
  case (Suc w)
  then have "n div 10 < 10 ^ w" by (simp add: less_mult_imp_div_less mult.commute)
  with Suc.IH [of "n div 10"] show ?case by (simp add: leading_int_append algebra_simps)
qed simp

lemma set_dec: "c \<in> set (dec w n) \<Longrightarrow> \<exists>d<10. c = digit_char d"
proof (induction w arbitrary: n)
  case (Suc w)
  then show ?case by (cases "c = digit_char (n mod 10)") (auto intro: exI [of _ "n mod 10"])
qed simp

lemma time_atoi_dec: "n < 10 ^ w \<Longrightarrow> time_atoi (dec w n) = Some (int n)"
proof (cases "dec w n")
  case Nil
  moreover assume "n < 10 ^ w"
  ultimately show ?thesis using length_dec [of w n] by (simp add: time_atoi_def)
next
  case (Cons c s)
  assume n: "n < 10 ^ w"
  obtain d where "d < 10" "c = digit_char d" using set_dec [of c w n] Cons by auto
  then have "c \<noteq> CHR ''-''" "c \<noteq> CHR ''+''" using digit_char_not_sign by auto
  with Cons have "time_atoi (dec w n) = map_option int (leading_int 0 (dec w n))"
    by (simp add: time_atoi_def)
  with leading_int_dec [OF n, of 0] show ?thesis by simp
qed

lemma parse_year_dec: "n < 10000 \<Longrightarrow> parse_year (dec 4 n @ s) = Some (int n, s)"
proof -
  assume n: "n < 10000"
  have "hd (dec 4 n @ s) \<in> set (dec 4 n)"
    by (metis hd_append2 hd_in_set length_dec list.size(3) zero_neq_numeral)
  then have "digit_of (hd (dec 4 n @ s)) \<noteq> None" using set_dec by fastforce
  then show ?thesis using n by (simp add: parse_year_def time_atoi_dec)
qed

lemma parse_frac3_dec: "n < 1000 \<Longrightarrow> parse_frac3 (CHR ''.'' # dec 3 n @ s) = Some (int n, s)"
  by (simp add: parse_frac3_def time_atoi_dec)

lemma check_True [simp]: "check True = Some ()"
  by (simp add: check_def)

text \<open>What the store writes it reads back, truncated to the millisecond.\<close>

lemma parse_fmt_millis:
  assumes "four_digit_year t"
  shows "parse_millis (fmt_millis t) = Some (trunc_ms t)"
proof -
  obtain y m d where c: "date_of t = (y, m, d)" by (metis prod.exhaust)
  obtain h mi s where k: "clock_of t = (h, mi, s)" by (metis prod.exhaust)
  define ms where "ms = millis_of t"
  note cb = date_bounds [OF c] and kb = clock_bounds [OF k] and mb = millis_bounds [of t, folded ms_def]
  have y: "0 \<le> y" "y \<le> 9999" using assms c by (auto simp: four_digit_year_def)
  have v: "valid_civil y m d" "day_of_civil y m d = t div day"
    using civil_of_day [of "t div day" y m d] c by (simp_all add: date_of_def)
  have "fmt_millis t = dec 4 (nat y) @ CHR ''-'' # dec 2 (nat m) @ CHR ''-'' # dec 2 (nat d) @ CHR ''T'' #
      dec 2 (nat h) @ CHR '':'' # dec 2 (nat mi) @ CHR '':'' # dec 2 (nat s) @ CHR ''.'' # dec 3 (nat ms) @ CHR ''Z'' # []"
    unfolding fmt_millis_def fmt_date_dec [OF assms c] fmt_clock_dec [OF k] fmt_millis_dec ms_def by simp
  then have "parse_millis (fmt_millis t) =
      Some (day_of_civil y m d * day + h * hour + mi * minute + s * second + ms * millisecond)"
    using y cb kb mb v(1)
    by (simp add: parse_millis_def parse_year_dec getnum_dec parse_frac3_dec nat_less_iff valid_civil_def)
  also have "day_of_civil y m d * day + h * hour + mi * minute + s * second + ms * millisecond = trunc_ms t"
  proof -
    define T where "T = t div millisecond"
    define A where "A = T div 1000"
    define B where "B = T div 60000"
    define C where "C = T div 3600000"
    have "T = 1000 * A + T mod 1000" unfolding A_def by (rule mult_div_mod_eq [symmetric])
    moreover have "A = 60 * B + A mod 60" unfolding A_def B_def
      by (metis mult_div_mod_eq ms_radix(1))
    moreover have "B = 60 * C + B mod 60" unfolding B_def C_def
      by (metis mult_div_mod_eq ms_radix(2))
    moreover have "C = 24 * (T div 86400000) + C mod 24" unfolding C_def
      by (metis mult_div_mod_eq ms_radix(3))
    moreover have "h = C mod 24" "mi = B mod 60" "s = A mod 60" "ms = T mod 1000"
      using k unfolding ms_def millis_of_conv clock_of_conv Let_def T_def A_def B_def C_def by (simp_all only: prod.inject)
    moreover have "t div day = T div 86400000"
      unfolding T_def by (subst zdiv_zmult2_eq [symmetric]) (simp_all add: duration_defs)
    ultimately have "T = 1000 * A + ms" "A = 60 * B + s" "B = 60 * C + mi" "C = 24 * (t div day) + h"
      by metis+
    then have "T = ((t div day * 24 + h) * 60 + mi) * 60 * 1000 + s * 1000 + ms"
      by (simp del: mult_div_mod_eq)
    then show ?thesis unfolding v(2) trunc_ms_def T_def [symmetric] by (simp add: duration_defs)
  qed
  finally show ?thesis .
qed

end
