(* ===== verification/Seed_Files.thy ===== *)
theory Seed_Files
  imports Cycle_Detect Submission Mem_Store Go_Time
begin

text \<open>
  The seed loader (\<open>api/internal/seedfiles\<close>): parsing with structural validation, and
  \<open>buildMemStore\<close> with its three stages and the two global checks. The file system, the TOML decoder
  and the CSV reader are parameters (a \<open>seed_env\<close>); everything the loader itself does is modelled.
  The lemmas show that a successful build is a well-formed store with an acyclic region graph in
  which every local-tier leaf is reachable, and that the global cycle check cannot fail.
\<close>

section \<open>Parsing\<close>

record local_date =
  ld_Year :: int
  ld_Month :: int
  ld_Day :: int

record org_entry =
  oe_Org :: org
  oe_RegionSlugs :: "string list"
  oe_AddedAt :: local_date

record postal_row =
  pr_PostalCode :: string
  pr_Country :: country
  pr_LeafRegionSlug :: string

text \<open>
  \<open>se_open\<close> is \<open>fs.FS.Open\<close>, \<open>se_read\<close> \<open>io.ReadAll\<close>, the \<open>se_toml\<close> fields the strict decoder, and \<open>se_csv\<close>
  the successive results of the CSV reader up to end of file, before the field count is checked.
\<close>

record 'f seed_env =
  se_open :: "string \<Rightarrow> 'f result"
  se_read :: "'f \<Rightarrow> string result"
  se_toml_regions :: "string \<Rightarrow> region list result"
  se_toml_orgs :: "string \<Rightarrow> org_entry list result"
  se_csv :: "'f \<Rightarrow> string list result list"

definition region_ctx :: "go_unicode \<Rightarrow> nat \<Rightarrow> string \<Rightarrow> string" where
  "region_ctx U i slug = ''region['' @ itoa (int i) @ ''] (slug='' @ quote U slug @ '')''"

definition quoted :: "string \<Rightarrow> string" where
  "quoted s = CHR 0x27 # s @ [CHR 0x27]"

fun validate_regions_loop :: "go_unicode \<Rightarrow> nat \<Rightarrow> string list \<Rightarrow> region list \<Rightarrow> go_error option" where
  "validate_regions_loop U i seen [] = None"
| "validate_regions_loop U i seen (r # rs) =
     (let ctx = region_ctx U i (reg_Slug r) in
      if reg_Slug r = [] then Some (Errorf ''%s: slug required'' [ctx])
      else if reg_Slug r \<in> set seen then Some (Errorf ''%s: duplicate slug'' [ctx])
      else if reg_Kind r = [] then Some (Errorf ''%s: kind required'' [ctx])
      else if reg_Name r = [] then Some (Errorf ''%s: name required'' [ctx])
      else if reg_ScopeTier r \<noteq> ScopeLocal \<and> reg_ScopeTier r \<noteq> ScopeRegional \<and> reg_ScopeTier r \<noteq> ScopeNational
      then Some (Errorf (''%s: scope_tier must be '' @ quoted ''local'' @ '', '' @ quoted ''regional'' @ '', or '' @
        quoted ''national'' @ '' (got %q)'') [ctx, reg_ScopeTier r])
      else if reg_SortPriority r < 0 then Some (Errorf ''%s: sort_priority must be non-negative'' [ctx])
      else validate_regions_loop U (i + 1) (reg_Slug r # seen) rs)"

definition validateRegions :: "go_unicode \<Rightarrow> region list \<Rightarrow> go_error option" where
  "validateRegions U rs =
     (if rs = [] then Some (Errorf ''seedfiles: no regions in file'' []) else validate_regions_loop U 0 [] rs)"

definition ParseRegions :: "go_unicode \<Rightarrow> 'f seed_env \<Rightarrow> 'f \<Rightarrow> region list result" where
  "ParseRegions U env f =
     (case se_read env f of
        Inl err \<Rightarrow> Inl (Wrap ''seedfiles: read regions'' err)
      | Inr data \<Rightarrow>
          if data = [] then Inl (Errorf ''seedfiles: empty regions file'' [])
          else case se_toml_regions env data of
              Inl err \<Rightarrow> Inl (Wrap ''seedfiles: parse regions toml'' err)
            | Inr rs \<Rightarrow> (case validateRegions U rs of Some err \<Rightarrow> Inl err | None \<Rightarrow> Inr rs))"

definition org_ctx :: "go_unicode \<Rightarrow> nat \<Rightarrow> string \<Rightarrow> string" where
  "org_ctx U i slug = ''orgs['' @ itoa (int i) @ ''] (slug='' @ quote U slug @ '')''"

fun validate_orgs_loop :: "go_unicode \<Rightarrow> url_parser \<Rightarrow> nat \<Rightarrow> string list \<Rightarrow> org_entry list \<Rightarrow> go_error option" where
  "validate_orgs_loop U P i seen [] = None"
| "validate_orgs_loop U P i seen (e # es) =
     (let o1 = oe_Org e; ctx = org_ctx U i (org_Slug o1) in
      if org_Slug o1 = [] then Some (Errorf ''%s: slug required'' [ctx])
      else if org_Slug o1 \<noteq> to_lower U (org_Slug o1) then Some (Errorf ''%s: slug must be lowercase'' [ctx])
      else if org_Slug o1 \<in> set seen then Some (Errorf ''%s: duplicate slug'' [ctx])
      else case ValidateOrgFields U P (org_Name o1) (org_ShortDesc o1) (org_WebsiteURL o1) (org_ContactURL o1)
                  (org_Tags o1) (oe_RegionSlugs e) of
          Some err \<Rightarrow> Some (Wrap ctx err)
        | None \<Rightarrow> validate_orgs_loop U P (i + 1) (org_Slug o1 # seen) es)"

definition validateOrgs :: "go_unicode \<Rightarrow> url_parser \<Rightarrow> org_entry list \<Rightarrow> go_error option" where
  "validateOrgs U P es =
     (if es = [] then Some (Errorf ''seedfiles: no orgs in file'' []) else validate_orgs_loop U P 0 [] es)"

definition ParseOrgs :: "go_unicode \<Rightarrow> url_parser \<Rightarrow> 'f seed_env \<Rightarrow> 'f \<Rightarrow> org_entry list result" where
  "ParseOrgs U P env f =
     (case se_read env f of
        Inl err \<Rightarrow> Inl (Wrap ''seedfiles: read orgs'' err)
      | Inr data \<Rightarrow>
          if data = [] then Inl (Errorf ''seedfiles: empty orgs file'' [])
          else case se_toml_orgs env data of
              Inl err \<Rightarrow> Inl (Wrap ''seedfiles: parse orgs toml'' err)
            | Inr es \<Rightarrow> (case validateOrgs U P es of Some err \<Rightarrow> Inl err | None \<Rightarrow> Inr es))"

definition postalHeader :: "string list" where
  "postalHeader = [''postal_code'', ''country'', ''leaf_region_slug'']"

text \<open>\<open>FieldsPerRecord\<close>: a record of another width is an error of the reader.\<close>

definition read_record :: "string list result \<Rightarrow> string list result" where
  "read_record r = (case r of Inl err \<Rightarrow> Inl err
     | Inr fs \<Rightarrow> if length fs \<noteq> length postalHeader then Inl (Errorf ''wrong number of fields'' []) else Inr fs)"

definition parsePostalRecord :: "go_unicode \<Rightarrow> string list \<Rightarrow> country \<Rightarrow> postal_row result" where
  "parsePostalRecord U rec expectedCountry =
     (let rowCountry = trim_space (rec ! 1) in
      if rowCountry \<noteq> expectedCountry
      then Inl (Errorf ''country %q does not match expected %q'' [rowCountry, expectedCountry])
      else let postal = NormalizePostalCode U rowCountry (trim_space (rec ! 0)) in
        if postal = [] then Inl (Errorf ''empty postal_code'' [])
        else case ValidatePostalCode rowCountry postal of
            Some err \<Rightarrow> Inl err
          | None \<Rightarrow>
              let slug = trim_space (rec ! 2) in
              if slug = [] then Inl (Errorf ''empty leaf_region_slug'' [])
              else Inr \<lparr>pr_PostalCode = postal, pr_Country = rowCountry, pr_LeafRegionSlug = slug\<rparr>)"

fun postal_loop :: "go_unicode \<Rightarrow> country \<Rightarrow> nat \<Rightarrow> string list result list \<Rightarrow> postal_row list result" where
  "postal_loop U country line [] = Inr []"
| "postal_loop U country line (r # rs) =
     (case read_record r of
        Inl err \<Rightarrow> Inl (Wrap (''seedfiles: postal line '' @ itoa (int line)) err)
      | Inr rec \<Rightarrow> (case parsePostalRecord U rec country of
          Inl err \<Rightarrow> Inl (Wrap (''seedfiles: postal line '' @ itoa (int line)) err)
        | Inr row \<Rightarrow> (case postal_loop U country (line + 1) rs of
            Inl err \<Rightarrow> Inl err
          | Inr rows \<Rightarrow> Inr (row # rows))))"

definition ParsePostal :: "go_unicode \<Rightarrow> 'f seed_env \<Rightarrow> 'f \<Rightarrow> country \<Rightarrow> postal_row list result" where
  "ParsePostal U env f country =
     (case se_csv env f of
        [] \<Rightarrow> Inl (Wrap ''seedfiles: read postal header'' (Errorf ''EOF'' []))
      | h # rest \<Rightarrow> (case read_record h of
          Inl err \<Rightarrow> Inl (Wrap ''seedfiles: read postal header'' err)
        | Inr got \<Rightarrow>
            if \<not> list_all2 (\<lambda>g w. equal_fold U (trim_space g) w) got postalHeader
            then Inl (Errorf ''seedfiles: unexpected postal header %v (want %v)'' [join got '' '', join postalHeader '' ''])
            else postal_loop U country 2 rest))"

definition openFile :: "'f seed_env \<Rightarrow> string \<Rightarrow> 'f result" where
  "openFile env path = (case se_open env path of
     Inl err \<Rightarrow> if errors_is err FsErrNotExist then Inl (Errorf ''seed file missing: %s'' [path]) else Inl err
   | Inr f \<Rightarrow> Inr f)"

definition readRegions :: "go_unicode \<Rightarrow> 'f seed_env \<Rightarrow> string \<Rightarrow> region list result" where
  "readRegions U env path = (case openFile env path of Inl err \<Rightarrow> Inl err | Inr f \<Rightarrow> ParseRegions U env f)"

definition readPostal :: "go_unicode \<Rightarrow> 'f seed_env \<Rightarrow> string \<Rightarrow> country \<Rightarrow> postal_row list result" where
  "readPostal U env path country = (case openFile env path of Inl err \<Rightarrow> Inl err | Inr f \<Rightarrow> ParsePostal U env f country)"

definition readOrgs :: "go_unicode \<Rightarrow> url_parser \<Rightarrow> 'f seed_env \<Rightarrow> string \<Rightarrow> org_entry list result" where
  "readOrgs U P env path = (case openFile env path of Inl err \<Rightarrow> Inl err | Inr f \<Rightarrow> ParseOrgs U P env f)"

section \<open>Building the store\<close>

record countrySpec =
  ct_Code :: string
  ct_RegionFiles :: "string list"
  ct_Postal :: string

definition countries :: "countrySpec list" where
  "countries =
     [\<lparr>ct_Code = ''US'', ct_RegionFiles = [''us_states'', ''us_multistate'', ''us_msas'', ''us''], ct_Postal = ''us''\<rparr>,
      \<lparr>ct_Code = ''CA'', ct_RegionFiles = [''ca_provinces'', ''ca_cmas'', ''ca''], ct_Postal = ''ca''\<rparr>]"

definition Countries :: "string list" where
  "Countries = map ct_Code countries"

text \<open>The local variables of stage 1; \<open>localTier\<close> holds only true entries, so it is a list of keys.\<close>

record build_state =
  bs_store :: memstore
  bs_regionIDBySlug :: "(string, id64) gomap"
  bs_parentSlugs :: "(string, string list) gomap"
  bs_childCount :: "(string, nat) gomap"
  bs_localTier :: "(string, bool) gomap"
  bs_kindBySlug :: "(string, region_kind) gomap"
  bs_rollupSources :: "region list"
  bs_nextRegionID :: id64

definition init_build :: build_state where
  "init_build = \<lparr>bs_store = NewMemStore, bs_regionIDBySlug = [], bs_parentSlugs = [], bs_childCount = [],
     bs_localTier = [], bs_kindBySlug = [], bs_rollupSources = [], bs_nextRegionID = 1\<rparr>"

fun count_children :: "(string, id64) gomap \<Rightarrow> string \<Rightarrow> string list \<Rightarrow> (string, nat) gomap \<Rightarrow> (string, nat) gomap result" where
  "count_children ids slug [] cc = Inr cc"
| "count_children ids slug (ps # rest) cc =
     (if mget ids ps = None
      then Inl (Errorf ''seedfiles: region %q references unknown parent slug %q (load the defining file first)'' [slug, ps])
      else count_children ids slug rest (bump ps cc))"

definition load_region :: "go_unicode \<Rightarrow> string \<Rightarrow> string \<Rightarrow> region \<Rightarrow> build_state \<Rightarrow> build_state result" where
  "load_region U code suffix r0 b =
     (if mget (bs_regionIDBySlug b) (reg_Slug r0) \<noteq> None
      then Inl (Errorf ''seedfiles: duplicate region slug %q across files'' [reg_Slug r0])
      else case count_children (bs_regionIDBySlug b) (reg_Slug r0) (reg_ParentSlugs r0) (bs_childCount b) of
          Inl err \<Rightarrow> Inl err
        | Inr cc \<Rightarrow>
            (let r = r0\<lparr>reg_ID := bs_nextRegionID b, reg_Country := code\<rparr> in
             case AddRegion U r (bs_store b) of
               Inl err \<Rightarrow> Inl (Wrap (''seedfiles: regions '' @ code @ ''/'' @ suffix) err)
             | Inr s \<Rightarrow> Inr \<lparr>bs_store = s,
                 bs_regionIDBySlug = mput (reg_Slug r) (bs_nextRegionID b) (bs_regionIDBySlug b),
                 bs_parentSlugs = mput (reg_Slug r) (reg_ParentSlugs r) (bs_parentSlugs b),
                 bs_childCount = cc,
                 bs_localTier = (if reg_ScopeTier r = ScopeLocal then mput (reg_Slug r) True (bs_localTier b) else bs_localTier b),
                 bs_kindBySlug = mput (reg_Slug r) (reg_Kind r) (bs_kindBySlug b),
                 bs_rollupSources = (if length (reg_RollupStates r) > 0 then bs_rollupSources b @ [r] else bs_rollupSources b),
                 bs_nextRegionID = bs_nextRegionID b + 1\<rparr>))"

fun load_regions :: "go_unicode \<Rightarrow> string \<Rightarrow> string \<Rightarrow> region list \<Rightarrow> build_state \<Rightarrow> build_state result" where
  "load_regions U code suffix [] b = Inr b"
| "load_regions U code suffix (r # rs) b =
     (case load_region U code suffix r b of Inl err \<Rightarrow> Inl err | Inr b' \<Rightarrow> load_regions U code suffix rs b')"

fun load_region_files :: "go_unicode \<Rightarrow> 'f seed_env \<Rightarrow> string \<Rightarrow> string list \<Rightarrow> build_state \<Rightarrow> build_state result" where
  "load_region_files U env code [] b = Inr b"
| "load_region_files U env code (suffix # suffixes) b =
     (case readRegions U env (''regions_'' @ suffix @ ''.toml'') of
        Inl err \<Rightarrow> Inl (Wrap (''seedfiles: regions '' @ code @ ''/'' @ suffix) err)
      | Inr rs \<Rightarrow> (case DetectCycles rs of
          Some err \<Rightarrow> Inl (Wrap (''seedfiles: regions '' @ code @ ''/'' @ suffix) err)
        | None \<Rightarrow> (case load_regions U code suffix rs b of
            Inl err \<Rightarrow> Inl err
          | Inr b' \<Rightarrow> load_region_files U env code suffixes b')))"

fun load_countries :: "go_unicode \<Rightarrow> 'f seed_env \<Rightarrow> countrySpec list \<Rightarrow> build_state \<Rightarrow> build_state result" where
  "load_countries U env [] b = Inr b"
| "load_countries U env (c # cs) b =
     (case load_region_files U env (ct_Code c) (ct_RegionFiles c) b of
        Inl err \<Rightarrow> Inl err
      | Inr b' \<Rightarrow> load_countries U env cs b')"

text \<open>Rollups: every target must be a loaded region of a rollup-target kind.\<close>

definition kind_at :: "(string, region_kind) gomap \<Rightarrow> string \<Rightarrow> region_kind" where
  "kind_at m slug = (case mget m slug of None \<Rightarrow> [] | Some k \<Rightarrow> k)"

fun load_targets :: "build_state \<Rightarrow> string \<Rightarrow> string list \<Rightarrow> memstore \<Rightarrow> memstore result" where
  "load_targets b slug [] s = Inr s"
| "load_targets b slug (t # ts) s =
     (if mget (bs_regionIDBySlug b) t = None
      then Inl (Errorf ''seedfiles: region %q rollup_states references unknown slug %q'' [slug, t])
      else if \<not> IsRollupTargetKind (kind_at (bs_kindBySlug b) t)
      then Inl (Errorf ''seedfiles: region %q rollup_states target %q must be a state-equivalent or us:federal-district kind (got %q)''
        [slug, t, kind_at (bs_kindBySlug b) t])
      else load_targets b slug ts (AddRollupState slug t s))"

fun load_rollups :: "build_state \<Rightarrow> region list \<Rightarrow> memstore \<Rightarrow> memstore result" where
  "load_rollups b [] s = Inr s"
| "load_rollups b (r # rs) s =
     (case load_targets b (reg_Slug r) (reg_RollupStates r) s of Inl err \<Rightarrow> Inl err | Inr s' \<Rightarrow> load_rollups b rs s')"

text \<open>Stage 2: the postal rows of one country, with the anchored slugs.\<close>

fun load_rows :: "go_unicode \<Rightarrow> (string, id64) gomap \<Rightarrow> string \<Rightarrow> postal_row list \<Rightarrow> memstore \<times> string list \<Rightarrow>
    (memstore \<times> string list) result" where
  "load_rows U ids code [] acc = Inr acc"
| "load_rows U ids code (row # rows) (s, anchored) =
     (case mget ids (pr_LeafRegionSlug row) of
        None \<Rightarrow> Inl (Errorf ''seedfiles: postal %s/%s: leaf_region_slug %q not found''
          [pr_Country row, pr_PostalCode row, pr_LeafRegionSlug row])
      | Some leafID \<Rightarrow> (case AddPostalCode U (pr_Country row) (pr_PostalCode row) leafID s of
          Inl err \<Rightarrow> Inl (Wrap (''seedfiles: postal '' @ code) err)
        | Inr s' \<Rightarrow> load_rows U ids code rows (s', List.insert (pr_LeafRegionSlug row) anchored)))"

fun load_postal :: "go_unicode \<Rightarrow> 'f seed_env \<Rightarrow> (string, id64) gomap \<Rightarrow> countrySpec list \<Rightarrow> memstore \<times> string list \<Rightarrow>
    (memstore \<times> string list) result" where
  "load_postal U env ids [] acc = Inr acc"
| "load_postal U env ids (c # cs) acc =
     (case readPostal U env (''postal_codes_'' @ ct_Postal c @ ''.csv'') (ct_Code c) of
        Inl err \<Rightarrow> Inl (Wrap (''seedfiles: postal '' @ ct_Code c) err)
      | Inr rows \<Rightarrow> (case load_rows U ids (ct_Code c) rows acc of
          Inl err \<Rightarrow> Inl err
        | Inr acc' \<Rightarrow> load_postal U env ids cs acc'))"

text \<open>Stage 3: orgs. \<open>resolve_loop\<close> collects ids and missing slugs; the result is sorted.\<close>

fun resolve_loop :: "(string, id64) gomap \<Rightarrow> string list \<Rightarrow> id64 list \<times> string list \<Rightarrow> id64 list \<times> string list" where
  "resolve_loop ids [] acc = acc"
| "resolve_loop ids (slug # slugs) (out, missing) =
     (case mget ids slug of
        None \<Rightarrow> resolve_loop ids slugs (out, missing @ [slug])
      | Some i \<Rightarrow> if i \<in> set out then resolve_loop ids slugs (out, missing) else resolve_loop ids slugs (out @ [i], missing))"

definition resolveOrgRegions :: "org_entry \<Rightarrow> (string, id64) gomap \<Rightarrow> id64 list result" where
  "resolveOrgRegions e ids =
     (let (out, missing) = resolve_loop ids (oe_RegionSlugs e) ([], [])
      in if length missing > 0
         then Inl (Errorf ''org %q references unknown region slug(s) %v'' [org_Slug (oe_Org e), join missing '' ''])
         else Inr (sort_slice (\<lambda>a b. a < b) out))"

text \<open>Midnight UTC of a date; \<open>time.Date\<close> normalizes months and days out of range.\<close>

definition date_utc :: "local_date \<Rightarrow> instant" where
  "date_utc d = time_date (ld_Year d) (ld_Month d) (ld_Day d)"

fun load_orgs :: "(string, id64) gomap \<Rightarrow> org_entry list \<Rightarrow> memstore \<times> string list \<times> id64 \<Rightarrow>
    (memstore \<times> string list \<times> id64) result" where
  "load_orgs ids [] acc = Inr acc"
| "load_orgs ids (e # es) (s, orgSlugs, nextOrgID) =
     (case resolveOrgRegions e ids of
        Inl err \<Rightarrow> Inl (Wrap ''seedfiles: orgs'' err)
      | Inr rids \<Rightarrow>
          if ld_Year (oe_AddedAt e) = 0
          then Inl (Errorf ''seedfiles: org %q: missing required added_at'' [org_Slug (oe_Org e)])
          else load_orgs ids es
            (AddOrg ((oe_Org e)\<lparr>org_ID := nextOrgID, org_AddedAt := date_utc (oe_AddedAt e)\<rparr>) rids s,
             fold List.insert (oe_RegionSlugs e) orgSlugs, nextOrgID + 1))"

definition assertReachableLeaves :: "(string \<times> bool) list \<Rightarrow> (string, nat) gomap \<Rightarrow> string list \<Rightarrow> string list \<Rightarrow> go_error option" where
  "assertReachableLeaves localTier childCount anchored orgSlugs =
     (let candidates = filter (\<lambda>slug. \<not> mcount childCount slug > 0 \<and> \<not> (slug \<in> set anchored \<or> slug \<in> set orgSlugs))
            (map fst localTier)
      in if length candidates = 0 then None
         else Some (Errorf ''seedfiles: %d orphan leaf region(s) with no postal anchor, no attached org, and no anchoring descendant: %v (add a postal row, attach an org, or remove the region)''
           [itoa (int (length candidates)), join (take 20 (sort_slice string_less candidates)) '' '']))"

text \<open>The orders of the two map ranges of a build.\<close>

record build_ranges =
  br_parents :: "(string, string list) gomap \<Rightarrow> (string \<times> string list) list"
  br_local :: "(string, bool) gomap \<Rightarrow> (string \<times> bool) list"

definition buildMemStore :: "go_unicode \<Rightarrow> url_parser \<Rightarrow> build_ranges \<Rightarrow> 'f seed_env \<Rightarrow> countrySpec list \<Rightarrow> memstore result" where
  "buildMemStore U P rg env countrySet =
     (case load_countries U env countrySet init_build of
        Inl err \<Rightarrow> Inl err
      | Inr b \<Rightarrow>
     (case DetectCyclesGraph (br_parents rg (bs_parentSlugs b)) (bs_parentSlugs b) of
        Some err \<Rightarrow> Inl (Wrap ''seedfiles: global region graph'' err)
      | None \<Rightarrow>
     (case load_rollups b (bs_rollupSources b) (bs_store b) of
        Inl err \<Rightarrow> Inl err
      | Inr s1 \<Rightarrow>
     (case load_postal U env (bs_regionIDBySlug b) countrySet (s1, []) of
        Inl err \<Rightarrow> Inl err
      | Inr (s2, anchored) \<Rightarrow>
     (case readOrgs U P env ''orgs.toml'' of
        Inl err \<Rightarrow> Inl (Wrap ''seedfiles: orgs'' err)
      | Inr es \<Rightarrow>
     (case load_orgs (bs_regionIDBySlug b) es (s2, [], 1) of
        Inl err \<Rightarrow> Inl err
      | Inr (s3, orgSlugs, _) \<Rightarrow>
     (case assertReachableLeaves (br_local rg (bs_localTier b)) (bs_childCount b) anchored orgSlugs of
        Some err \<Rightarrow> Inl err
      | None \<Rightarrow> Inr s3)))))))"

definition BuildMemStore :: "go_unicode \<Rightarrow> url_parser \<Rightarrow> build_ranges \<Rightarrow> 'f seed_env \<Rightarrow> memstore result" where
  "BuildMemStore U P rg env = buildMemStore U P rg env countries"

section \<open>Stage 1 builds an acyclic graph\<close>

text \<open>
  What holds after every region: ids are assigned upward, slugs and ids name each other, every
  parent has a smaller id, and the side tables agree with the store.
\<close>

definition slugs_exact :: "memstore \<Rightarrow> bool" where
  "slugs_exact s \<longleftrightarrow>
     (\<forall>i r. mget (regionsByID s) i = Some r \<longrightarrow> mget (regionsBySlug s) (reg_Slug r) = Some i) \<and>
     (\<forall>sl i. mget (regionsBySlug s) sl = Some i \<longrightarrow> (\<exists>r. mget (regionsByID s) i = Some r \<and> reg_Slug r = sl))"

definition parents_exact :: "memstore \<Rightarrow> bool" where
  "parents_exact s \<longleftrightarrow>
     (\<forall>i r. mget (regionsByID s) i = Some r \<longrightarrow>
        map Some (mget_list (parents s) i) = map (mget (regionsBySlug s)) (reg_ParentSlugs r)) \<and>
     (\<forall>i. \<forall>p\<in>set (mget_list (parents s) i). p < i)"

definition tables_agree :: "build_state \<Rightarrow> bool" where
  "tables_agree b \<longleftrightarrow> bs_regionIDBySlug b = regionsBySlug (bs_store b) \<and>
     mkeys (bs_parentSlugs b) = mkeys (regionsBySlug (bs_store b)) \<and>
     (\<forall>i r. mget (regionsByID (bs_store b)) i = Some r \<longrightarrow>
        i < bs_nextRegionID b \<and> mget_list (bs_parentSlugs b) (reg_Slug r) = reg_ParentSlugs r)"

definition leaf_tables_agree :: "build_state \<Rightarrow> bool" where
  "leaf_tables_agree b \<longleftrightarrow>
     (\<forall>sl. sl \<in> mkeys (bs_localTier b) \<longleftrightarrow>
        (\<exists>i r. mget (regionsByID (bs_store b)) i = Some r \<and> reg_Slug r = sl \<and> reg_ScopeTier r = ScopeLocal)) \<and>
     (\<forall>sl. mcount (bs_childCount b) sl > 0 \<longleftrightarrow>
        (\<exists>i r. mget (regionsByID (bs_store b)) i = Some r \<and> sl \<in> set (reg_ParentSlugs r)))"

definition build_inv :: "go_unicode \<Rightarrow> build_state \<Rightarrow> bool" where
  "build_inv U b \<longleftrightarrow> populated U (bs_store b) \<and> orgs (bs_store b) = [] \<and> slugs_exact (bs_store b) \<and>
     parents_exact (bs_store b) \<and> tables_agree b \<and> leaf_tables_agree b"

lemma slugs_exactD:
  assumes "slugs_exact s"
  shows slug_of_region: "mget (regionsByID s) i = Some r \<Longrightarrow> mget (regionsBySlug s) (reg_Slug r) = Some i"
    and region_of_slug: "mget (regionsBySlug s) sl = Some i \<Longrightarrow> \<exists>r. mget (regionsByID s) i = Some r \<and> reg_Slug r = sl"
  using assms unfolding slugs_exact_def by blast+

lemma build_inv_init: "build_inv U init_build"
  by (simp add: build_inv_def init_build_def populated.new slugs_exact_def parents_exact_def tables_agree_def
      leaf_tables_agree_def)
    (simp add: NewMemStore_def mkeys_def mcount_def)

lemma count_children_Inr:
  "count_children ids slug ps cc = Inr cc' \<Longrightarrow>
   (\<forall>p\<in>set ps. mget ids p \<noteq> None) \<and> (\<forall>sl. mcount cc' sl = mcount cc sl + count_list ps sl)"
proof (induction ids slug ps cc rule: count_children.induct)
  case (2 ids slug p ps cc)
  then show ?case by (cases "mget ids p = None") (auto simp: mcount_bump)
qed simp

lemma load_region_Inr:
  assumes "load_region U code suffix r0 b = Inr b'"
  obtains cc s r where "mget (bs_regionIDBySlug b) (reg_Slug r0) = None"
    and "count_children (bs_regionIDBySlug b) (reg_Slug r0) (reg_ParentSlugs r0) (bs_childCount b) = Inr cc"
    and "r = r0\<lparr>reg_ID := bs_nextRegionID b, reg_Country := code\<rparr>"
    and "AddRegion U r (bs_store b) = Inr s"
    and "bs_store b' = s" "bs_regionIDBySlug b' = mput (reg_Slug r) (bs_nextRegionID b) (bs_regionIDBySlug b)"
      "bs_parentSlugs b' = mput (reg_Slug r) (reg_ParentSlugs r) (bs_parentSlugs b)" "bs_childCount b' = cc"
      "bs_localTier b' = (if reg_ScopeTier r = ScopeLocal then mput (reg_Slug r) True (bs_localTier b) else bs_localTier b)"
      "bs_nextRegionID b' = bs_nextRegionID b + 1"
      "bs_kindBySlug b' = mput (reg_Slug r) (reg_Kind r) (bs_kindBySlug b)"
  using assms unfolding load_region_def Let_def by (auto split: if_splits sum.splits)

lemma ex_mput_fresh:
  "mget m k = None \<Longrightarrow> (\<exists>i x. mget (mput k v m) i = Some x \<and> Q x) \<longleftrightarrow> Q v \<or> (\<exists>i x. mget m i = Some x \<and> Q x)"
  by (auto split: if_splits) (metis option.distinct(1))+

lemma map_mget_fresh:
  "map (mget m) ks = map Some vs \<Longrightarrow> mget m k = None \<Longrightarrow> map (mget (mput k v m)) ks = map Some vs"
  by (metis (no_types, lifting) map_cong map_mget_in mget_mput in_set_conv_nth length_map nth_map option.distinct(1))

text \<open>What one new region does to the store, when its id and its slug are new.\<close>

lemma fresh_region:
  assumes "AddRegion U r s = Inr s'" and "mget (regionsByID s) (reg_ID r) = None" and "store_inv U s"
  obtains ids where "map (mget (regionsBySlug s)) (reg_ParentSlugs r) = map Some ids"
    "regionsByID s' = mput (reg_ID r) r (regionsByID s)"
    "regionsBySlug s' = mput (reg_Slug r) (reg_ID r) (regionsBySlug s)"
    "\<And>i. mget_list (parents s') i = (if i = reg_ID r then ids else mget_list (parents s) i)"
    "orgs s' = orgs s"
proof -
  from assms(1) obtain ids where ids: "map (mget (regionsBySlug s)) (reg_ParentSlugs r) = map Some ids"
    and s': "s' = s\<lparr>regionsByID := mput (reg_ID r) r (regionsByID s),
        regionsBySlug := mput (reg_Slug r) (reg_ID r) (regionsBySlug s),
        parents := (if ids \<noteq> [] then mput (reg_ID r) ids (parents s) else parents s)\<rparr>"
    unfolding AddRegion_Inr by blast
  have "mget_list (parents s) (reg_ID r) = []"
  proof (rule ccontr)
    assume "mget_list (parents s) (reg_ID r) \<noteq> []"
    then obtain p where "p \<in> set (mget_list (parents s) (reg_ID r))" by (cases "mget_list (parents s) (reg_ID r)") auto
    from inv_parent [OF assms(3) this] assms(2) show False by (auto simp: registered_def mkeys_conv_dom)
  qed
  with ids s' show ?thesis by (intro that [of ids]) auto
qed

lemma load_region_inv:
  assumes inv: "build_inv U b" and load: "load_region U code suffix r0 b = Inr b'"
  shows "build_inv U b'"
proof -
  from load obtain cc s r where new: "mget (bs_regionIDBySlug b) (reg_Slug r0) = None"
    and cc: "count_children (bs_regionIDBySlug b) (reg_Slug r0) (reg_ParentSlugs r0) (bs_childCount b) = Inr cc"
    and r: "r = r0\<lparr>reg_ID := bs_nextRegionID b, reg_Country := code\<rparr>"
    and add: "AddRegion U r (bs_store b) = Inr s"
    and b': "bs_store b' = s" "bs_regionIDBySlug b' = mput (reg_Slug r) (bs_nextRegionID b) (bs_regionIDBySlug b)"
      "bs_parentSlugs b' = mput (reg_Slug r) (reg_ParentSlugs r) (bs_parentSlugs b)" "bs_childCount b' = cc"
      "bs_localTier b' = (if reg_ScopeTier r = ScopeLocal then mput (reg_Slug r) True (bs_localTier b) else bs_localTier b)"
      "bs_nextRegionID b' = bs_nextRegionID b + 1"
    by (rule load_region_Inr)
  have pop: "populated U (bs_store b)" and ex: "slugs_exact (bs_store b)" and pex: "parents_exact (bs_store b)"
    and ta: "tables_agree b" and la: "leaf_tables_agree b" and os: "orgs (bs_store b) = []"
    using inv by (simp_all add: build_inv_def)
  have rid: "reg_ID r = bs_nextRegionID b" "reg_Slug r = reg_Slug r0" "reg_ParentSlugs r = reg_ParentSlugs r0"
    by (simp_all add: r)
  have bound: "i < bs_nextRegionID b" if "mget (regionsByID (bs_store b)) i = Some x" for i x
    using ta that by (simp add: tables_agree_def)
  then have fresh: "mget (regionsByID (bs_store b)) (reg_ID r) = None"
    using rid(1) by (cases "mget (regionsByID (bs_store b)) (reg_ID r)") fastforce+
  have slug_new: "mget (regionsBySlug (bs_store b)) (reg_Slug r) = None"
    using new ta rid(2) by (simp add: tables_agree_def)
  from fresh_region [OF add fresh populated_inv [OF pop]] obtain ids where
      ids: "map (mget (regionsBySlug (bs_store b))) (reg_ParentSlugs r) = map Some ids"
    and s: "regionsByID s = mput (reg_ID r) r (regionsByID (bs_store b))"
      "regionsBySlug s = mput (reg_Slug r) (reg_ID r) (regionsBySlug (bs_store b))"
      "\<And>i. mget_list (parents s) i = (if i = reg_ID r then ids else mget_list (parents (bs_store b)) i)"
      "orgs s = orgs (bs_store b)"
    by blast
  have slug_other: "reg_Slug x \<noteq> reg_Slug r" if "mget (regionsByID (bs_store b)) i = Some x" for i x
    using slug_of_region [OF ex that] slug_new by auto
  have known: "sl \<noteq> reg_Slug r" if "mget (regionsBySlug (bs_store b)) sl = Some i" for sl i
    using that slug_new by auto
  have "slugs_exact s"
    using ex slug_other known unfolding slugs_exact_def s
    by (auto simp: fresh) (metis fresh option.distinct(1))+
  moreover have "parents_exact s" unfolding parents_exact_def
  proof (intro conjI allI impI ballI)
    fix i x assume x: "mget (regionsByID s) i = Some x"
    show "map Some (mget_list (parents s) i) = map (mget (regionsBySlug s)) (reg_ParentSlugs x)"
    proof (cases "i = reg_ID r")
      case True
      with x have "x = r" by (simp add: s)
      then show ?thesis using True map_mget_fresh [OF ids slug_new] by (simp add: s)
    next
      case False
      with x have old: "mget (regionsByID (bs_store b)) i = Some x" by (simp add: s)
      with pex have "map (mget (regionsBySlug (bs_store b))) (reg_ParentSlugs x) =
          map Some (mget_list (parents (bs_store b)) i)" by (simp add: parents_exact_def)
      from map_mget_fresh [OF this slug_new] show ?thesis using False by (simp add: s)
    qed
  next
    fix i p assume p: "p \<in> set (mget_list (parents s) i)"
    show "p < i"
    proof (cases "i = reg_ID r")
      case True
      with p have "p \<in> set ids" by (simp add: s)
      then obtain sl where "mget (regionsBySlug (bs_store b)) sl = Some p" using map_mget_in [OF ids] by blast
      then obtain x where "mget (regionsByID (bs_store b)) p = Some x" using region_of_slug [OF ex] by blast
      then show ?thesis using bound True rid(1) by simp
    next
      case False
      with p pex show ?thesis by (simp add: s parents_exact_def)
    qed
  qed
  moreover have "tables_agree b'"
  proof -
    have "i < bs_nextRegionID b + 1 \<and> mget_list (bs_parentSlugs b') (reg_Slug x) = reg_ParentSlugs x"
      if x: "mget (regionsByID s) i = Some x" for i x
    proof (cases "i = reg_ID r")
      case True
      with x have "x = r" by (simp add: s)
      with True rid(1) show ?thesis by (simp add: b')
    next
      case False
      with x have old: "mget (regionsByID (bs_store b)) i = Some x" by (simp add: s)
      have "i < bs_nextRegionID b + 1" using bound [OF old] by linarith
      with old show ?thesis using ta slug_other [OF old] by (simp add: b' tables_agree_def)
    qed
    then show ?thesis using ta unfolding tables_agree_def by (simp add: b' s rid(1))
  qed
  moreover have "leaf_tables_agree b'"
  proof -
    have cnt: "mcount cc sl > 0 \<longleftrightarrow> mcount (bs_childCount b) sl > 0 \<or> sl \<in> set (reg_ParentSlugs r)" for sl
      using count_children_Inr [OF cc] rid(3) by (auto simp: count_list_0_iff)
    show ?thesis
      using la unfolding leaf_tables_agree_def b' s ex_mput_fresh [OF fresh] cnt by auto
  qed
  ultimately show ?thesis
    using populated.region [OF pop add] os s(4) unfolding build_inv_def b'(1) by simp
qed

lemma load_regions_inv:
  "build_inv U b \<Longrightarrow> load_regions U code suffix rs b = Inr b' \<Longrightarrow> build_inv U b'"
  by (induction rs arbitrary: b) (auto split: sum.splits dest: load_region_inv)

lemma load_region_files_inv:
  "build_inv U b \<Longrightarrow> load_region_files U env code suffixes b = Inr b' \<Longrightarrow> build_inv U b'"
  by (induction suffixes arbitrary: b) (auto split: sum.splits option.splits dest: load_regions_inv)

lemma load_countries_inv:
  "build_inv U b \<Longrightarrow> load_countries U env cs b = Inr b' \<Longrightarrow> build_inv U b'"
  by (induction cs arbitrary: b) (auto split: sum.splits dest: load_region_files_inv)

lemma build_edges_decrease:
  assumes "build_inv U b" and "(x, p) \<in> edges (bs_parentSlugs b) keep"
  obtains i j where "mget (regionsBySlug (bs_store b)) x = Some i" "mget (regionsBySlug (bs_store b)) p = Some j" "j < i"
proof -
  let ?s = "bs_store b"
  have ex: "slugs_exact ?s" and pex: "parents_exact ?s" and ta: "tables_agree b"
    using assms(1) by (simp_all add: build_inv_def)
  have "x \<in> mkeys (regionsBySlug ?s)" using edges_keys [OF assms(2)] ta by (simp add: tables_agree_def)
  then obtain i where i: "mget (regionsBySlug ?s) x = Some i" by (auto simp: mkeys_conv_dom)
  then obtain r where r: "mget (regionsByID ?s) i = Some r" "reg_Slug r = x" using region_of_slug [OF ex] by blast
  have "p \<in> set (reg_ParentSlugs r)"
    using assms(2) ta r by (auto simp: edges_def tables_agree_def)
  moreover have "map (mget (regionsBySlug ?s)) (reg_ParentSlugs r) = map Some (mget_list (parents ?s) i)"
    using pex r(1) by (simp add: parents_exact_def)
  ultimately have "mget (regionsBySlug ?s) p \<in> set (map Some (mget_list (parents ?s) i))"
    by (metis imageI list.set_map)
  then obtain j where j: "mget (regionsBySlug ?s) p = Some j" "j \<in> set (mget_list (parents ?s) i)" by auto
  then have "j < i" using pex by (simp add: parents_exact_def)
  with i j show ?thesis using that by blast
qed

lemma build_acyclic:
  assumes "build_inv U b"
  shows "acyclic (edges (bs_parentSlugs b) keep)"
proof (rule acyclicI_order)
  fix x p assume "(x, p) \<in> edges (bs_parentSlugs b) keep"
  then show "the (mget (regionsBySlug (bs_store b)) p) < the (mget (regionsBySlug (bs_store b)) x)"
    by (rule build_edges_decrease [OF assms]) simp
qed

definition good_build_ranges :: "build_ranges \<Rightarrow> bool" where
  "good_build_ranges rg \<longleftrightarrow> (\<forall>m. ranges_over (br_parents rg m) m) \<and> (\<forall>m. ranges_over (br_local rg m) m)"

text \<open>
  The global cycle check is redundant, as its comment says: after the regions have loaded
  without error it cannot fail, because every parent edge points to a region loaded before.
\<close>

theorem global_cycle_check_redundant:
  assumes "good_build_ranges rg" and "load_countries U env countrySet init_build = Inr b"
  shows "DetectCyclesGraph (br_parents rg (bs_parentSlugs b)) (bs_parentSlugs b) = None"
proof -
  have "acyclic (edges (bs_parentSlugs b) (\<lambda>_. True))"
    using build_acyclic [OF load_countries_inv [OF build_inv_init assms(2)]] .
  then show ?thesis
    using DetectCyclesGraph_correct [of "br_parents rg (bs_parentSlugs b)" "bs_parentSlugs b"] assms(1)
    by (auto simp: good_build_ranges_def split: option.splits)
qed

section \<open>The later stages keep the graph\<close>

definition same_graph :: "memstore \<Rightarrow> memstore \<Rightarrow> bool" where
  "same_graph s s' \<longleftrightarrow> regionsByID s' = regionsByID s \<and> regionsBySlug s' = regionsBySlug s \<and> parents s' = parents s"

lemma same_graph_refl [simp]: "same_graph s s"
  by (simp add: same_graph_def)

lemma same_graph_trans: "same_graph s s' \<Longrightarrow> same_graph s' s'' \<Longrightarrow> same_graph s s''"
  by (simp add: same_graph_def)

lemma AddRollupState_frame:
  "same_graph s (AddRollupState m t s)" "orgs (AddRollupState m t s) = orgs s"
  by (simp_all add: AddRollupState_def same_graph_def split: option.splits)

lemma load_targets_frame:
  "load_targets b slug ts s = Inr s' \<Longrightarrow> populated U s \<Longrightarrow> populated U s' \<and> same_graph s s' \<and> orgs s' = orgs s"
  by (induction b slug ts s rule: load_targets.induct)
    (auto split: if_splits dest: AddRollupState_frame(1) [THEN same_graph_trans] intro: populated.rollup
      simp: AddRollupState_frame(2))

lemma load_rollups_frame:
  "load_rollups b rs s = Inr s' \<Longrightarrow> populated U s \<Longrightarrow> populated U s' \<and> same_graph s s' \<and> orgs s' = orgs s"
proof (induction b rs s rule: load_rollups.induct)
  case (2 b r rs s)
  then obtain t where t: "load_targets b (reg_Slug r) (reg_RollupStates r) s = Inr t" by (auto split: sum.splits)
  from load_targets_frame [OF t 2(3)] have "populated U t" "same_graph s t" "orgs t = orgs s" by auto
  moreover from 2 t have "load_rollups b rs t = Inr s'" by simp
  ultimately show ?case using "2.IH" [OF t] same_graph_trans by metis
qed simp

text \<open>Every anchored slug names a region some postal key maps to.\<close>

definition anchors :: "(string, id64) gomap \<Rightarrow> memstore \<Rightarrow> string list \<Rightarrow> bool" where
  "anchors ids s anchored \<longleftrightarrow> (\<forall>sl\<in>set anchored. \<exists>i key. mget ids sl = Some i \<and> mget (postalToLeaf s) key = Some i)"

lemma load_rows_frame:
  "load_rows U ids code rows (s, anchored) = Inr (s', anchored') \<Longrightarrow> populated U s \<Longrightarrow> anchors ids s anchored \<Longrightarrow>
   populated U s' \<and> same_graph s s' \<and> orgs s' = orgs s \<and> anchors ids s' anchored'"
proof (induction rows arbitrary: s anchored)
  case (Cons row rows)
  from Cons.prems(1) obtain leaf t where leaf: "mget ids (pr_LeafRegionSlug row) = Some leaf"
    and t: "AddPostalCode U (pr_Country row) (pr_PostalCode row) leaf s = Inr t"
    and rest: "load_rows U ids code rows (t, List.insert (pr_LeafRegionSlug row) anchored) = Inr (s', anchored')"
    by (auto split: option.splits sum.splits)
  let ?key = "postalKey U (pr_Country row) (pr_PostalCode row)"
  have teq: "t = s\<lparr>postalToLeaf := mput ?key leaf (postalToLeaf s)\<rparr>"
    and old: "mget (postalToLeaf s) ?key \<in> {None, Some leaf}" using t by (auto simp: AddPostalCode_Inr)
  have keep: "mget (postalToLeaf t) k = Some i" if "mget (postalToLeaf s) k = Some i" for k i
    using that old by (auto simp: teq)
  have "anchors ids t (List.insert (pr_LeafRegionSlug row) anchored)" unfolding anchors_def
  proof
    fix sl assume "sl \<in> set (List.insert (pr_LeafRegionSlug row) anchored)"
    then consider "sl = pr_LeafRegionSlug row" | "sl \<in> set anchored" by auto
    then show "\<exists>i key. mget ids sl = Some i \<and> mget (postalToLeaf t) key = Some i"
    proof cases
      case 1
      then show ?thesis using leaf by (intro exI [of _ leaf] exI [of _ ?key]) (simp add: teq)
    next
      case 2
      then show ?thesis using Cons.prems(3) keep unfolding anchors_def by blast
    qed
  qed
  moreover have "populated U t" using populated.postal [OF Cons.prems(2) t] .
  moreover have "same_graph s t" "orgs t = orgs s" by (simp_all add: teq same_graph_def)
  ultimately show ?case using Cons.IH [OF rest] same_graph_trans by metis
qed simp

lemma load_postal_frame:
  "load_postal U env ids cs (s, anchored) = Inr (s', anchored') \<Longrightarrow> populated U s \<Longrightarrow> anchors ids s anchored \<Longrightarrow>
   populated U s' \<and> same_graph s s' \<and> orgs s' = orgs s \<and> anchors ids s' anchored'"
proof (induction cs arbitrary: s anchored)
  case (Cons c cs)
  from Cons.prems(1) obtain rows t anchored1 where
      rows: "load_rows U ids (ct_Code c) rows (s, anchored) = Inr (t, anchored1)"
    and rest: "load_postal U env ids cs (t, anchored1) = Inr (s', anchored')"
    by (auto split: sum.splits)
  from load_rows_frame [OF rows Cons.prems(2,3)] have t: "populated U t" "same_graph s t" "orgs t = orgs s" "anchors ids t anchored1"
    by auto
  from Cons.IH [OF rest t(1,4)] t show ?case using same_graph_trans by metis
qed simp

lemma resolve_loop_spec:
  "resolve_loop ids slugs (out, missing) = (out', missing') \<Longrightarrow> distinct out \<Longrightarrow>
   distinct out' \<and> set out' = set out \<union> {i. \<exists>sl\<in>set slugs. mget ids sl = Some i} \<and>
   set missing' = set missing \<union> {sl \<in> set slugs. mget ids sl = None}"
proof (induction slugs arbitrary: out missing)
  case (Cons slug slugs)
  show ?case
  proof (cases "mget ids slug")
    case None
    with Cons.prems have "resolve_loop ids slugs (out, missing @ [slug]) = (out', missing')" by simp
    from Cons.IH [OF this Cons.prems(2)] None show ?thesis by auto
  next
    case (Some i)
    define out1 where "out1 = (if i \<in> set out then out else out @ [i])"
    have "resolve_loop ids slugs (out1, missing) = (out', missing')"
      using Cons.prems Some by (simp add: out1_def split: if_splits)
    moreover have "distinct out1" "set out1 = insert i (set out)"
      using Cons.prems(2) by (auto simp: out1_def)
    ultimately show ?thesis using Cons.IH [of out1 missing] Some by auto
  qed
qed simp

interpretation int_order: total_weak_order "\<lambda>a b. a < (b :: int)"
  by unfold_locales auto

lemma resolveOrgRegions_Inr:
  assumes "resolveOrgRegions e ids = Inr rids"
  shows "sorted_wrt (<) rids \<and> set rids = {i. \<exists>sl\<in>set (oe_RegionSlugs e). mget ids sl = Some i} \<and>
    (\<forall>sl\<in>set (oe_RegionSlugs e). mget ids sl \<noteq> None)"
proof -
  obtain out missing where r: "resolve_loop ids (oe_RegionSlugs e) ([], []) = (out, missing)" by fastforce
  from assms r have m: "missing = []" and rids: "rids = sort_slice (\<lambda>a b. a < b) out"
    by (auto simp: resolveOrgRegions_def split: if_splits)
  from resolve_loop_spec [OF r] have "distinct out" "set out = {i. \<exists>sl\<in>set (oe_RegionSlugs e). mget ids sl = Some i}"
    "{sl \<in> set (oe_RegionSlugs e). mget ids sl = None} = {}" using m by auto
  moreover have "sorted rids" using int_order.sort_ordered [of out] by (simp add: rids not_less)
  ultimately show ?thesis by (auto simp: rids strict_sorted_iff)
qed

text \<open>Every slug recorded for an org names a region some org is attached to; org ids count upward.\<close>

definition org_anchors :: "(string, id64) gomap \<Rightarrow> memstore \<Rightarrow> string list \<Rightarrow> id64 \<Rightarrow> bool" where
  "org_anchors ids s orgSlugs n \<longleftrightarrow> (\<forall>o1\<in>set (orgs s). org_ID o1 < n) \<and> distinct (map org_ID (orgs s)) \<and>
     (\<forall>o1\<in>set (orgs s). \<forall>i\<in>set (mget_list (orgRegions s) (org_ID o1)). \<exists>sl. mget ids sl = Some i) \<and>
     (\<forall>sl\<in>set orgSlugs. \<exists>i oid. mget ids sl = Some i \<and> serves s oid i)"

lemma set_fold_insert: "set (fold List.insert xs ys) = set xs \<union> set ys"
  by (induction xs arbitrary: ys) auto

lemma AddOrg_anchors:
  assumes "org_anchors ids s orgSlugs n" and "resolveOrgRegions e ids = Inr rids" and "org_ID o1 = n"
  shows "org_anchors ids (AddOrg o1 rids s) (fold List.insert (oe_RegionSlugs e) orgSlugs) (n + 1)"
proof -
  note r = resolveOrgRegions_Inr [OF assms(2)]
  have old: "serves (AddOrg o1 rids s) oid i" if "serves s oid i" for oid i
    using that assms(1,3) unfolding serves_def org_anchors_def by (auto simp: AddOrg_def)
  have new: "serves (AddOrg o1 rids s) n i" if "i \<in> set rids" for i
    using that assms(3) by (simp add: serves_def AddOrg_def)
  have slugs: "\<exists>i oid. mget ids sl = Some i \<and> serves (AddOrg o1 rids s) oid i"
    if "sl \<in> set (fold List.insert (oe_RegionSlugs e) orgSlugs)" for sl
  proof (cases "sl \<in> set (oe_RegionSlugs e)")
    case True
    then obtain i where "mget ids sl = Some i" "i \<in> set rids" using r by blast
    with new show ?thesis by blast
  next
    case False
    with that have "sl \<in> set orgSlugs" by (simp add: set_fold_insert)
    with old assms(1) show ?thesis unfolding org_anchors_def by blast
  qed
  have "\<forall>x\<in>set (orgs s). org_ID x \<noteq> n" using assms(1) unfolding org_anchors_def by auto
  then show ?thesis
    using assms(1,3) r slugs unfolding org_anchors_def by (auto simp: AddOrg_def)
qed

lemma load_orgs_frame:
  "load_orgs ids es (s, orgSlugs, n) = Inr (s', orgSlugs', n') \<Longrightarrow> populated U s \<Longrightarrow> org_anchors ids s orgSlugs n \<Longrightarrow>
   populated U s' \<and> same_graph s s' \<and> postalToLeaf s' = postalToLeaf s \<and> org_anchors ids s' orgSlugs' n'"
proof (induction es arbitrary: s orgSlugs n)
  case (Cons e es)
  let ?o = "(oe_Org e)\<lparr>org_ID := n, org_AddedAt := date_utc (oe_AddedAt e)\<rparr>"
  from Cons.prems(1) obtain rids where rids: "resolveOrgRegions e ids = Inr rids"
    and rest: "load_orgs ids es (AddOrg ?o rids s, fold List.insert (oe_RegionSlugs e) orgSlugs, n + 1) = Inr (s', orgSlugs', n')"
    by (auto split: sum.splits if_splits)
  have "org_anchors ids (AddOrg ?o rids s) (fold List.insert (oe_RegionSlugs e) orgSlugs) (n + 1)"
    by (rule AddOrg_anchors [OF Cons.prems(3) rids]) simp
  moreover have "same_graph s (AddOrg ?o rids s)" "postalToLeaf (AddOrg ?o rids s) = postalToLeaf s"
    by (simp_all add: AddOrg_def same_graph_def)
  ultimately show ?case
    using Cons.IH [OF rest populated.org [OF Cons.prems(2)]] same_graph_trans by metis
qed simp

lemma assertReachableLeaves_None:
  "assertReachableLeaves es cc anchored orgSlugs = None \<longleftrightarrow>
     (\<forall>sl\<in>fst ` set es. mcount cc sl > 0 \<or> sl \<in> set anchored \<or> sl \<in> set orgSlugs)"
  by (auto simp: assertReachableLeaves_def Let_def filter_empty_conv)

section \<open>A successful build\<close>

text \<open>What a store built from seed files is.\<close>

definition seed_store :: "go_unicode \<Rightarrow> memstore \<Rightarrow> bool" where
  "seed_store U s \<longleftrightarrow> populated U s \<and> slugs_exact s \<and> parents_exact s \<and> distinct (map org_ID (orgs s)) \<and>
     (\<forall>o1\<in>set (orgs s). \<forall>i\<in>set (mget_list (orgRegions s) (org_ID o1)). registered s i)"

definition local_leaf :: "memstore \<Rightarrow> id64 \<Rightarrow> bool" where
  "local_leaf s i \<longleftrightarrow> (\<exists>r. mget (regionsByID s) i = Some r \<and> reg_ScopeTier r = ScopeLocal) \<and>
     (\<forall>c. i \<notin> set (mget_list (parents s) c))"

lemma buildMemStore_Inr:
  assumes "buildMemStore U P rg env cs = Inr s"
  obtains b s1 s2 anchored es orgSlugs n where
    "load_countries U env cs init_build = Inr b"
    "load_rollups b (bs_rollupSources b) (bs_store b) = Inr s1"
    "load_postal U env (bs_regionIDBySlug b) cs (s1, []) = Inr (s2, anchored)"
    "load_orgs (bs_regionIDBySlug b) es (s2, [], 1) = Inr (s, orgSlugs, n)"
    "assertReachableLeaves (br_local rg (bs_localTier b)) (bs_childCount b) anchored orgSlugs = None"
  using assms unfolding buildMemStore_def by (auto split: sum.splits option.splits)

lemma childless_uncounted:
  assumes inv: "build_inv U b" and r: "mget (regionsByID (bs_store b)) i = Some r"
    and childless: "\<forall>c. i \<notin> set (mget_list (parents (bs_store b)) c)"
  shows "\<not> mcount (bs_childCount b) (reg_Slug r) > 0"
proof
  let ?s = "bs_store b"
  have ex: "slugs_exact ?s" and pex: "parents_exact ?s" and la: "leaf_tables_agree b"
    using inv by (simp_all add: build_inv_def)
  assume "mcount (bs_childCount b) (reg_Slug r) > 0"
  then obtain c x where x: "mget (regionsByID ?s) c = Some x" "reg_Slug r \<in> set (reg_ParentSlugs x)"
    using la unfolding leaf_tables_agree_def by blast
  have "map Some (mget_list (parents ?s) c) = map (mget (regionsBySlug ?s)) (reg_ParentSlugs x)"
    using pex x(1) by (simp add: parents_exact_def)
  then have "mget (regionsBySlug ?s) (reg_Slug r) \<in> set (map Some (mget_list (parents ?s) c))"
    using x(2) by (metis imageI list.set_map)
  with slug_of_region [OF ex r] have "i \<in> set (mget_list (parents ?s) c)" by auto
  with childless show False by blast
qed

lemma build_result:
  assumes rg: "good_build_ranges rg" and build: "buildMemStore U P rg env cs = Inr s"
  shows "seed_store U s \<and>
    (\<forall>i. local_leaf s i \<longrightarrow> (\<exists>key. mget (postalToLeaf s) key = Some i) \<or> (\<exists>oid. serves s oid i))"
proof -
  from build obtain b s1 s2 anchored es orgSlugs n where st:
    "load_countries U env cs init_build = Inr b"
    "load_rollups b (bs_rollupSources b) (bs_store b) = Inr s1"
    "load_postal U env (bs_regionIDBySlug b) cs (s1, []) = Inr (s2, anchored)"
    "load_orgs (bs_regionIDBySlug b) es (s2, [], 1) = Inr (s, orgSlugs, n)"
    "assertReachableLeaves (br_local rg (bs_localTier b)) (bs_childCount b) anchored orgSlugs = None"
    by (rule buildMemStore_Inr)
  have inv: "build_inv U b" by (rule load_countries_inv [OF build_inv_init st(1)])
  then have b: "populated U (bs_store b)" "orgs (bs_store b) = []" "slugs_exact (bs_store b)"
    "parents_exact (bs_store b)" "bs_regionIDBySlug b = regionsBySlug (bs_store b)" "leaf_tables_agree b"
    by (simp_all add: build_inv_def tables_agree_def)
  let ?ids = "bs_regionIDBySlug b"
  have s1: "populated U s1" "same_graph (bs_store b) s1" "orgs s1 = []"
    using load_rollups_frame [OF st(2) b(1)] b(2) by auto
  have s2: "populated U s2" "same_graph s1 s2" "orgs s2 = []" "anchors ?ids s2 anchored"
    using load_postal_frame [OF st(3) s1(1)] s1(3) by (auto simp: anchors_def)
  have "org_anchors ?ids s2 [] 1" by (simp add: org_anchors_def s2(3))
  from load_orgs_frame [OF st(4) s2(1) this]
  have s: "populated U s" "same_graph s2 s" "postalToLeaf s = postalToLeaf s2" "org_anchors ?ids s orgSlugs n" by auto
  have g: "same_graph (bs_store b) s" using s1(2) s2(2) s(2) same_graph_trans by blast
  then have eqs: "regionsByID s = regionsByID (bs_store b)" "regionsBySlug s = regionsBySlug (bs_store b)"
    "parents s = parents (bs_store b)" by (simp_all add: same_graph_def)
  have exact: "slugs_exact s" "parents_exact s"
    using b(3,4) by (simp_all add: slugs_exact_def parents_exact_def eqs)
  have reg: "registered s i" if "mget ?ids sl = Some i" for sl i
    using region_of_slug [OF b(3), of sl i] that by (auto simp: registered_def eqs b(5) mkeys_conv_dom)
  have "seed_store U s"
    using s(1,4) exact reg unfolding seed_store_def org_anchors_def by blast
  moreover have "(\<exists>key. mget (postalToLeaf s) key = Some i) \<or> (\<exists>oid. serves s oid i)" if leaf: "local_leaf s i" for i
  proof -
    from leaf obtain r where r: "mget (regionsByID (bs_store b)) i = Some r" "reg_ScopeTier r = ScopeLocal"
      and none: "\<forall>c. i \<notin> set (mget_list (parents (bs_store b)) c)"
      by (auto simp: local_leaf_def eqs)
    have "reg_Slug r \<in> mkeys (bs_localTier b)" using b(6) r unfolding leaf_tables_agree_def by blast
    then have "reg_Slug r \<in> fst ` set (br_local rg (bs_localTier b))"
      using rg ranges_over_set unfolding good_build_ranges_def mkeys_def by metis
    moreover have "\<not> mcount (bs_childCount b) (reg_Slug r) > 0" by (rule childless_uncounted [OF inv r(1) none])
    ultimately have "reg_Slug r \<in> set anchored \<or> reg_Slug r \<in> set orgSlugs"
      using st(5) unfolding assertReachableLeaves_None by (metis (no_types, lifting))
    moreover have "mget ?ids (reg_Slug r) = Some i" using slug_of_region [OF b(3) r(1)] b(5) by simp
    ultimately show ?thesis
      using s2(4) s(3,4) unfolding anchors_def org_anchors_def by force
  qed
  ultimately show ?thesis by blast
qed

text \<open>
  C34. A build that succeeds yields a well-formed store: populated only through the store's own
  operations, with slugs and ids naming each other one to one, the parents of a region resolved
  from its parent slugs and loaded before it, unique org ids and every org attached to registered
  regions only.
\<close>

theorem BuildMemStore_well_formed:
  assumes "good_build_ranges rg" and "BuildMemStore U P rg env = Inr s"
  shows "seed_store U s"
  using build_result [OF assms(1)] assms(2) unfolding BuildMemStore_def by blast

text \<open>
  C35. In a built store every local-tier region without children can be reached: some postal code
  maps to it or some org is attached to it.
\<close>

theorem BuildMemStore_leaves_reachable:
  assumes "good_build_ranges rg" and "BuildMemStore U P rg env = Inr s" and "local_leaf s i"
  shows "(\<exists>key. mget (postalToLeaf s) key = Some i) \<or> (\<exists>oid. serves s oid i)"
  using build_result [OF assms(1)] assms(2,3) unfolding BuildMemStore_def by blast

lemma ancestor_smaller:
  assumes "seed_store U s" and "ancestor s x y"
  shows "y \<le> x"
  using assms(2) unfolding ancestor_def
proof (induction rule: reaches_induct)
  case (step y z)
  then have "z < y" using assms(1) by (simp add: seed_store_def parents_exact_def)
  with step show ?case by simp
qed simp

text \<open>
  The region graph of a built store is a partial order: no two different regions are ancestors of
  each other.
\<close>

lemma seed_store_antisym:
  assumes "seed_store U s" and "ancestor s x y" and "ancestor s y x"
  shows "x = y"
  using ancestor_smaller [OF assms(1,2)] ancestor_smaller [OF assms(1,3)] by simp

section \<open>A tiny bundle\<close>

text \<open>
  One region per file, named after it, empty postal files and one org: a bundle the loader accepts.
\<close>

definition tiny_region :: "string \<Rightarrow> region" where
  "tiny_region path = \<lparr>reg_ID = 0, reg_Kind = ''us:city'', reg_Name = path, reg_Slug = path, reg_Country = [],
     reg_ScopeTier = (if path = ''regions_us.toml'' then ScopeLocal else ScopeRegional), reg_ParentSlugs = [],
     reg_SortPriority = 10, reg_RollupStates = []\<rparr>"

definition tiny_org :: org_entry where
  "tiny_org = \<lparr>oe_Org = \<lparr>org_ID = 0, org_Slug = ''tstc'', org_Name = ''TSTC'', org_ShortDesc = ''Transit'',
     org_WebsiteURL = ''https://tstc.org'', org_ContactURL = [], org_Tags = [], org_Regions = [],
     org_MatchedRegionSlugs = [], org_AddedAt = 0\<rparr>, oe_RegionSlugs = [''regions_us.toml''],
     oe_AddedAt = \<lparr>ld_Year = 2026, ld_Month = 1, ld_Day = 2\<rparr>\<rparr>"

definition tiny_env :: "string seed_env" where
  "tiny_env = \<lparr>se_open = Inr, se_read = Inr, se_toml_regions = (\<lambda>path. Inr [tiny_region path]),
     se_toml_orgs = (\<lambda>_. Inr [tiny_org]), se_csv = (\<lambda>_. [Inr postalHeader])\<rparr>"

definition tiny_ranges :: build_ranges where
  "tiny_ranges = \<lparr>br_parents = (\<lambda>m. m), br_local = (\<lambda>m. m)\<rparr>"

lemma tiny_ranges_good: "good_build_ranges tiny_ranges"
  by (simp add: good_build_ranges_def tiny_ranges_def)

lemma tiny_detect: "DetectCycles [tiny_region path] = None"
  by (simp add: DetectCycles_def detectCycles3Color_def tiny_region_def color_of_def)

lemma tiny_read: "path \<noteq> [] \<Longrightarrow> readRegions U tiny_env path = Inr [tiny_region path]"
  by (simp add: readRegions_def openFile_def tiny_env_def ParseRegions_def validateRegions_def tiny_region_def Let_def)

lemma tiny_postal: "readPostal U tiny_env path c = Inr []"
proof -
  have "trim_space ''postal_code'' = ''postal_code''" "trim_space ''country'' = ''country''"
    "trim_space ''leaf_region_slug'' = ''leaf_region_slug''"
    by (auto intro!: trim_space_solid simp: solid_byte_def ascii_spaces_def)
  moreover have "equal_fold U w w" for w by (simp add: equal_fold_def fold_eq_def list.rel_refl)
  ultimately show ?thesis
    by (simp add: readPostal_def openFile_def tiny_env_def ParsePostal_def read_record_def postalHeader_def)
qed

lemma tiny_orgs: "path \<noteq> [] \<Longrightarrow> readOrgs U demo_parser tiny_env path = Inr [tiny_org]"
proof -
  have "to_lower U ''https'' = ''https''" "to_lower U ''tstc'' = ''tstc''" by (simp_all add: to_lower_id)
  moreover from this have "ValidateOrgFields U demo_parser ''TSTC'' ''Transit'' ''https://tstc.org'' [] [] [''regions_us.toml''] = None"
    by (simp add: ValidateOrgFields_None org_fields_ok_def ClassifyURL_def demo_parser_def cap_defs rune_count_ascii slug_ok_def)
  ultimately have "validateOrgs U demo_parser [tiny_org] = None"
    by (simp add: validateOrgs_def tiny_org_def Let_def)
  then show "path \<noteq> [] \<Longrightarrow> readOrgs U demo_parser tiny_env path = Inr [tiny_org]"
    by (simp add: readOrgs_def openFile_def tiny_env_def ParseOrgs_def)
qed

lemma tiny_load:
  assumes "to_lower U path = path" and "mget (bs_regionIDBySlug b) path = None"
  shows "load_region U code suffix (tiny_region path) b = Inr \<lparr>
      bs_store = (bs_store b)\<lparr>
        regionsByID := mput (bs_nextRegionID b) ((tiny_region path)\<lparr>reg_ID := bs_nextRegionID b, reg_Country := code\<rparr>) (regionsByID (bs_store b)),
        regionsBySlug := mput path (bs_nextRegionID b) (regionsBySlug (bs_store b))\<rparr>,
      bs_regionIDBySlug = mput path (bs_nextRegionID b) (bs_regionIDBySlug b),
      bs_parentSlugs = mput path [] (bs_parentSlugs b), bs_childCount = bs_childCount b,
      bs_localTier = (if path = ''regions_us.toml'' then mput path True (bs_localTier b) else bs_localTier b),
      bs_kindBySlug = mput path ''us:city'' (bs_kindBySlug b), bs_rollupSources = bs_rollupSources b,
      bs_nextRegionID = bs_nextRegionID b + 1\<rparr>"
  using assms by (simp add: load_region_def tiny_region_def Let_def AddRegion_def scope_defs)

lemma tiny_stage1:
  "\<exists>b. load_countries U tiny_env countries init_build = Inr b \<and> bs_rollupSources b = [] \<and>
     bs_localTier b = [(''regions_us.toml'', True)] \<and> mget (bs_regionIDBySlug b) ''regions_us.toml'' = Some 4 \<and>
     (\<exists>r. mget (regionsByID (bs_store b)) 4 = Some r \<and> reg_ScopeTier r = ScopeLocal) \<and>
     parents (bs_store b) = []"
  unfolding countries_def
  by (simp add: tiny_read tiny_detect tiny_load to_lower_id init_build_def NewMemStore_def mget_def mput_def)
    (simp add: tiny_region_def)

lemma tiny_build: "\<exists>s. BuildMemStore U demo_parser tiny_ranges tiny_env = Inr s \<and> local_leaf s 4"
proof -
  from tiny_stage1 [of U] obtain b r where b: "load_countries U tiny_env countries init_build = Inr b"
    "bs_rollupSources b = []" "bs_localTier b = [(''regions_us.toml'', True)]"
    "mget (bs_regionIDBySlug b) ''regions_us.toml'' = Some 4"
    "mget (regionsByID (bs_store b)) 4 = Some r" "reg_ScopeTier r = ScopeLocal" "parents (bs_store b) = []"
    by blast
  have inv: "build_inv U b" by (rule load_countries_inv [OF build_inv_init b(1)])
  have cyc: "DetectCyclesGraph (br_parents tiny_ranges (bs_parentSlugs b)) (bs_parentSlugs b) = None"
    using DetectCyclesGraph_correct [of "bs_parentSlugs b" "bs_parentSlugs b"] build_acyclic [OF inv]
    by (auto simp: tiny_ranges_def split: option.splits)
  have post: "load_postal U tiny_env ids countries acc = Inr acc" for ids acc
    by (simp add: countries_def tiny_postal)
  have orgs: "load_orgs (bs_regionIDBySlug b) [tiny_org] (s, [], 1) =
      Inr (AddOrg ((oe_Org tiny_org)\<lparr>org_ID := 1, org_AddedAt := date_utc (oe_AddedAt tiny_org)\<rparr>) [4] s,
        [''regions_us.toml''], 2)" for s
    using b(4) by (simp add: tiny_org_def resolveOrgRegions_def)
  have leaves: "assertReachableLeaves (br_local tiny_ranges (bs_localTier b)) cc [] [''regions_us.toml''] = None" for cc
    by (simp add: assertReachableLeaves_None tiny_ranges_def b(3))
  have "local_leaf (AddOrg o1 ids (bs_store b)) 4" for o1 ids
    using b(5-7) by (simp add: local_leaf_def AddOrg_def)
  then show ?thesis
    unfolding BuildMemStore_def buildMemStore_def by (simp add: b(1,2) cyc post tiny_orgs orgs leaves del: load_orgs.simps)
qed

theorem global_cycle_check_redundant_witness:
  "\<forall>U. \<exists>b. load_countries U tiny_env countries init_build = Inr b \<and>
     DetectCyclesGraph (br_parents tiny_ranges (bs_parentSlugs b)) (bs_parentSlugs b) = None"
  using global_cycle_check_redundant [OF tiny_ranges_good] tiny_stage1 by metis

theorem BuildMemStore_well_formed_witness:
  "\<forall>U. \<exists>s. BuildMemStore U demo_parser tiny_ranges tiny_env = Inr s \<and> seed_store U s"
  using BuildMemStore_well_formed [OF tiny_ranges_good] tiny_build by metis

theorem BuildMemStore_leaves_reachable_witness:
  "\<forall>U. \<exists>s. BuildMemStore U demo_parser tiny_ranges tiny_env = Inr s \<and>
     ((\<exists>key. mget (postalToLeaf s) key = Some 4) \<or> (\<exists>oid. serves s oid 4))"
  using BuildMemStore_leaves_reachable [OF tiny_ranges_good] tiny_build by metis

end
