(* ===== verification/Go_Base64.thy ===== *)
theory Go_Base64
  imports Go_Strings
begin

text \<open>
  Go's \<open>encoding/base64\<close> for the two encodings the program uses: \<open>RawURLEncoding\<close> (no padding, for the
  pagination cursors) and \<open>StdEncoding\<close> (padded, for file contents in the GitHub API). Decoding skips
  carriage returns and line feeds and does not check the unused trailing bits, as Go's non-strict
  decoder does.
\<close>

datatype alphabet = StdAlphabet | URLAlphabet

definition b64_char :: "alphabet \<Rightarrow> nat \<Rightarrow> char" where
  "b64_char al v =
     (if v < 26 then char_of (65 + v) else if v < 52 then char_of (71 + v)
      else if v < 62 then char_of (v - 4)
      else if v = 62 then (case al of StdAlphabet \<Rightarrow> CHR ''+'' | URLAlphabet \<Rightarrow> CHR ''-'')
      else (case al of StdAlphabet \<Rightarrow> CHR ''/'' | URLAlphabet \<Rightarrow> CHR ''_''))"

definition b64_val :: "alphabet \<Rightarrow> char \<Rightarrow> nat option" where
  "b64_val al c =
     (let b = byte c in
      if 65 \<le> b \<and> b \<le> 90 then Some (b - 65) else if 97 \<le> b \<and> b \<le> 122 then Some (b - 71)
      else if 48 \<le> b \<and> b \<le> 57 then Some (b + 4)
      else if c = (case al of StdAlphabet \<Rightarrow> CHR ''+'' | URLAlphabet \<Rightarrow> CHR ''-'') then Some 62
      else if c = (case al of StdAlphabet \<Rightarrow> CHR ''/'' | URLAlphabet \<Rightarrow> CHR ''_'') then Some 63
      else None)"

fun b64_encode :: "alphabet \<Rightarrow> string \<Rightarrow> nat list \<Rightarrow> string" where
  "b64_encode al p [] = []"
| "b64_encode al p [a] = [b64_char al (a div 4), b64_char al (a mod 4 * 16)] @ p @ p"
| "b64_encode al p [a, b] =
     [b64_char al (a div 4), b64_char al (a mod 4 * 16 + b div 16), b64_char al (b mod 16 * 4)] @ p"
| "b64_encode al p (a # b # c # bs) =
     [b64_char al (a div 4), b64_char al (a mod 4 * 16 + b div 16),
      b64_char al (b mod 16 * 4 + c div 64), b64_char al (c mod 64)] @ b64_encode al p bs"

definition one_byte :: "nat option \<Rightarrow> nat option \<Rightarrow> nat list option" where
  "one_byte x y = (case (x, y) of (Some u, Some v) \<Rightarrow> Some [u * 4 + v div 16] | _ \<Rightarrow> None)"

definition two_bytes :: "nat option \<Rightarrow> nat option \<Rightarrow> nat option \<Rightarrow> nat list option" where
  "two_bytes x y z = (case (x, y, z) of
     (Some u, Some v, Some w) \<Rightarrow> Some [u * 4 + v div 16, v mod 16 * 16 + w div 4] | _ \<Rightarrow> None)"

definition three_bytes :: "nat option \<Rightarrow> nat option \<Rightarrow> nat option \<Rightarrow> nat option \<Rightarrow> nat list option" where
  "three_bytes x y z q = (case (x, y, z, q) of
     (Some u, Some v, Some w, Some t) \<Rightarrow> Some [u * 4 + v div 16, v mod 16 * 16 + w div 4, w mod 4 * 64 + t] | _ \<Rightarrow> None)"

definition append_opt :: "nat list option \<Rightarrow> nat list option \<Rightarrow> nat list option" where
  "append_opt x y = (case (x, y) of (Some a, Some b) \<Rightarrow> Some (a @ b) | _ \<Rightarrow> None)"

fun raw_decode :: "alphabet \<Rightarrow> string \<Rightarrow> nat list option" where
  "raw_decode al [] = Some []"
| "raw_decode al [x] = None"
| "raw_decode al [x, y] = one_byte (b64_val al x) (b64_val al y)"
| "raw_decode al [x, y, z] = two_bytes (b64_val al x) (b64_val al y) (b64_val al z)"
| "raw_decode al (x # y # z # q # s) =
     append_opt (three_bytes (b64_val al x) (b64_val al y) (b64_val al z) (b64_val al q)) (raw_decode al s)"

fun padded_decode :: "alphabet \<Rightarrow> string \<Rightarrow> nat list option" where
  "padded_decode al [] = Some []"
| "padded_decode al (x # y # z # q # s) =
     (if z = CHR ''='' then (if q = CHR ''='' \<and> s = [] then one_byte (b64_val al x) (b64_val al y) else None)
      else if q = CHR ''='' then (if s = [] then two_bytes (b64_val al x) (b64_val al y) (b64_val al z) else None)
      else append_opt (three_bytes (b64_val al x) (b64_val al y) (b64_val al z) (b64_val al q)) (padded_decode al s))"
| "padded_decode al _ = None"

definition drop_newlines :: "string \<Rightarrow> string" where
  "drop_newlines s = filter (\<lambda>c. byte c \<noteq> 10 \<and> byte c \<noteq> 13) s"

text \<open>\<open>base64.RawURLEncoding\<close> and \<open>base64.StdEncoding\<close>\<close>

definition RawURLEncode :: "string \<Rightarrow> string" where
  "RawURLEncode s = b64_encode URLAlphabet [] (map byte s)"

definition RawURLDecode :: "string \<Rightarrow> string option" where
  "RawURLDecode s = map_option (map char_of) (raw_decode URLAlphabet (drop_newlines s))"

definition StdEncode :: "string \<Rightarrow> string" where
  "StdEncode s = b64_encode StdAlphabet ''='' (map byte s)"

definition StdDecode :: "string \<Rightarrow> string option" where
  "StdDecode s = map_option (map char_of) (padded_decode StdAlphabet (drop_newlines s))"

section \<open>Round trips\<close>

lemma byte_b64_char:
  "v < 64 \<Longrightarrow> byte (b64_char al v) =
     (if v < 26 then 65 + v else if v < 52 then 71 + v else if v < 62 then v - 4
      else if v = 62 then (case al of StdAlphabet \<Rightarrow> 43 | URLAlphabet \<Rightarrow> 45)
      else (case al of StdAlphabet \<Rightarrow> 47 | URLAlphabet \<Rightarrow> 95))"
  by (cases al) (auto simp: b64_char_def)

lemma b64_val_char: "v < 64 \<Longrightarrow> b64_val al (b64_char al v) = Some v"
proof -
  assume v: "v < 64"
  then consider "v < 26" | "26 \<le> v" "v < 52" | "52 \<le> v" "v < 62" | "v = 62" | "v = 63" by linarith
  then show ?thesis
    using byte_b64_char [OF v, of al]
    by cases (cases al; auto simp: b64_val_def b64_char_def Let_def)+
qed

lemma b64_char_not:
  "v < 64 \<Longrightarrow> b64_char al v \<noteq> CHR ''='' \<and> byte (b64_char al v) \<noteq> 10 \<and> byte (b64_char al v) \<noteq> 13"
  using byte_b64_char [of v al] by (cases al) (auto dest: arg_cong [of _ _ byte] split: if_splits)

text \<open>The six-bit groups of one, two and three bytes, and the bytes they stand for.\<close>

lemma sextet_bounds:
  "a < 256 \<Longrightarrow> a div 4 < 64" "a mod 4 * 16 < 64" "b < 256 \<Longrightarrow> a mod 4 * 16 + b div 16 < 64"
  "b mod 16 * 4 < 64" "c < 256 \<Longrightarrow> b mod 16 * 4 + c div 64 < 64" "c mod 64 < 64" for a b c :: nat
proof -
  have m: "a mod 4 \<le> 3" "b mod 16 \<le> 15" using mod_less_divisor [of 4 a] mod_less_divisor [of 16 b] by simp_all
  show "a mod 4 * 16 < 64" "b mod 16 * 4 < 64" using m by linarith+
  show "a < 256 \<Longrightarrow> a div 4 < 64" "c mod 64 < 64" by simp_all
  show "a mod 4 * 16 + b div 16 < 64" if "b < 256"
  proof -
    from that have "b div 16 < 16" by simp
    with m show ?thesis by linarith
  qed
  show "b mod 16 * 4 + c div 64 < 64" if "c < 256"
  proof -
    from that have "c div 64 < 4" by simp
    with m show ?thesis by linarith
  qed
qed

lemma regroup:
  fixes a b c :: nat
  shows "b < 256 \<Longrightarrow> (a mod 4 * 16 + b div 16) div 16 = a mod 4"
    and "b < 256 \<Longrightarrow> (a mod 4 * 16 + b div 16) mod 16 = b div 16"
    and "c < 256 \<Longrightarrow> (b mod 16 * 4 + c div 64) div 4 = b mod 16"
    and "c < 256 \<Longrightarrow> (b mod 16 * 4 + c div 64) mod 4 = c div 64"
  by (simp_all add: less_mult_imp_div_less)

lemma groups:
  "a < 256 \<Longrightarrow> one_byte (b64_val al (b64_char al (a div 4))) (b64_val al (b64_char al (a mod 4 * 16))) = Some [a]"
  "a < 256 \<Longrightarrow> b < 256 \<Longrightarrow>
   two_bytes (b64_val al (b64_char al (a div 4))) (b64_val al (b64_char al (a mod 4 * 16 + b div 16)))
     (b64_val al (b64_char al (b mod 16 * 4))) = Some [a, b]"
  "a < 256 \<Longrightarrow> b < 256 \<Longrightarrow> c < 256 \<Longrightarrow>
   three_bytes (b64_val al (b64_char al (a div 4))) (b64_val al (b64_char al (a mod 4 * 16 + b div 16)))
     (b64_val al (b64_char al (b mod 16 * 4 + c div 64))) (b64_val al (b64_char al (c mod 64))) = Some [a, b, c]"
  by (simp_all add: one_byte_def two_bytes_def three_bytes_def b64_val_char sextet_bounds regroup)

lemma drop_newlines_encode:
  "list_all (\<lambda>b. b < 256) bs \<Longrightarrow> list_all (\<lambda>c. byte c \<noteq> 10 \<and> byte c \<noteq> 13) p \<Longrightarrow>
   drop_newlines (b64_encode al p bs) = b64_encode al p bs"
proof (induction al p bs rule: b64_encode.induct)
  case (4 al p a b c bs)
  then show ?case by (simp add: drop_newlines_def b64_char_not sextet_bounds)
qed (simp_all add: drop_newlines_def b64_char_not sextet_bounds list_all_iff filter_id_conv)

lemma raw_decode_encode: "list_all (\<lambda>b. b < 256) bs \<Longrightarrow> raw_decode al (b64_encode al [] bs) = Some bs"
  by (induction al "[] :: string" bs rule: b64_encode.induct) (simp_all add: groups append_opt_def)

lemma padded_decode_encode:
  "list_all (\<lambda>b. b < 256) bs \<Longrightarrow> padded_decode al (b64_encode al ''='' bs) = Some bs"
  by (induction al "''=''" bs rule: b64_encode.induct)
    (simp_all add: groups append_opt_def b64_char_not sextet_bounds)

lemma bytes_256: "list_all (\<lambda>b. b < 256) (map byte s)"
  by (induction s) auto

lemma RawURL_roundtrip: "RawURLDecode (RawURLEncode s) = Some s"
  by (simp add: RawURLDecode_def RawURLEncode_def drop_newlines_encode bytes_256 raw_decode_encode comp_def)

lemma Std_roundtrip: "StdDecode (StdEncode s) = Some s"
  by (simp add: StdDecode_def StdEncode_def drop_newlines_encode bytes_256 padded_decode_encode comp_def)

lemma RawURLEncode_Nil [simp]: "RawURLEncode s = [] \<longleftrightarrow> s = []"
  using RawURL_roundtrip [of s] by (auto simp: RawURLEncode_def RawURLDecode_def drop_newlines_def)

end
