(* ===== verification/Submission_Store.thy ===== *)
theory Submission_Store
  imports Submission Go_Time Go_Base64
begin

text \<open>
  The SQLite submission store: \<open>api/internal/store/sqlite/store.go\<close> over the generated queries of
  gen/submissions.sql.go and the table of migration 0001, behind the interface
  \<open>atlas.SubmissionStore\<close> (submission.go).

  The table is the list of its rows in insertion order with the AUTOINCREMENT counter. A query is a
  function on the table that performs the SQL statement of the generated code; TEXT compares bytewise
  (BINARY collation). What lies outside the repository is a parameter: \<open>payload_codec\<close> has
  \<open>json.Marshal\<close> and \<open>json.Unmarshal\<close> at the payload type and \<open>time.Parse\<close> at the two RFC 3339 layouts;
  \<open>call_env\<close> has what one call sees of its surroundings, the clock, the id generator and the driver.
  The driver may fail any statement (\<open>ce_fault\<close> by statement name), which then has no effect; when
  COMMIT fails, \<open>ce_landed\<close> says whether the transaction nevertheless reached the disk.
\<close>

section \<open>Rows, queries and parameters\<close>

record sub_row =
  row_ID :: int
  row_PublicID :: string
  row_PayloadJson :: string
  row_SubmitterName :: string
  row_SubmitterEmail :: string
  row_SubmitterNote :: string
  row_Status :: string
  row_RejectionReason :: string
  row_CreatedAt :: string
  row_ProcessedAt :: "string option"
  row_PromotionPrUrl :: string
  row_PromotionError :: string

record sub_db =
  db_rows :: "sub_row list"
  db_seq :: int

record payload_codec =
  js_marshal :: "submission_payload \<Rightarrow> string result"
  js_unmarshal :: "string \<Rightarrow> submission_payload result"
  tm_parse :: "string \<Rightarrow> string \<Rightarrow> instant option"

record call_env =
  ce_now :: instant
  ce_newid :: "string result"
  ce_fault :: "string \<Rightarrow> go_error option"
  ce_landed :: bool

definition with_fault :: "call_env \<Rightarrow> string \<Rightarrow> 'a result \<times> 's \<Rightarrow> 's \<Rightarrow> 'a result \<times> 's" where
  "with_fault E stmt ok s = (case ce_fault E stmt of Some e \<Rightarrow> (Inl e, s) | None \<Rightarrow> ok)"

text \<open>\<open>Row.Scan\<close>: the first row of the result, or \<open>sql.ErrNoRows\<close>.\<close>

definition scan_one :: "'r list \<Rightarrow> 'r result" where
  "scan_one rs = (case rs of [] \<Rightarrow> Inl (Sentinel SqlErrNoRows) | r # _ \<Rightarrow> Inr r)"

definition update_where :: "('r \<Rightarrow> bool) \<Rightarrow> ('r \<Rightarrow> 'r) \<Rightarrow> 'r list \<Rightarrow> 'r list" where
  "update_where P f rs = map (\<lambda>r. if P r then f r else r) rs"

definition q_CreateSubmission :: "call_env \<Rightarrow> string \<Rightarrow> string \<Rightarrow> string \<Rightarrow> string \<Rightarrow> string \<Rightarrow> string \<Rightarrow> sub_db \<Rightarrow>
    sub_row result \<times> sub_db" where
  "q_CreateSubmission E pid payload name email note created db =
     with_fault E ''CreateSubmission''
       (if pid \<in> row_PublicID ` set (db_rows db)
        then (Inl (Errorf ''UNIQUE constraint failed: submissions.public_id'' []), db)
        else let row = \<lparr>row_ID = db_seq db + 1, row_PublicID = pid, row_PayloadJson = payload,
                  row_SubmitterName = name, row_SubmitterEmail = email, row_SubmitterNote = note,
                  row_Status = ''pending'', row_RejectionReason = [], row_CreatedAt = created,
                  row_ProcessedAt = None, row_PromotionPrUrl = [], row_PromotionError = []\<rparr>
             in (Inr row, db\<lparr>db_rows := db_rows db @ [row], db_seq := db_seq db + 1\<rparr>)) db"

definition q_GetSubmissionByPublicID :: "call_env \<Rightarrow> string \<Rightarrow> sub_db \<Rightarrow> sub_row result" where
  "q_GetSubmissionByPublicID E pid db =
     fst (with_fault E ''GetSubmissionByPublicID''
       (scan_one (filter (\<lambda>r. row_PublicID r = pid) (db_rows db)), db) db)"

text \<open>ORDER BY created_at DESC, public_id DESC\<close>

definition row_newer :: "sub_row \<Rightarrow> sub_row \<Rightarrow> bool" where
  "row_newer a b =
     (if row_CreatedAt a \<noteq> row_CreatedAt b then row_CreatedAt a > row_CreatedAt b
      else row_PublicID a > row_PublicID b)"

text \<open>The keyset predicate: created_at < ts OR (created_at = ts AND public_id < pid)\<close>

definition row_after :: "string \<Rightarrow> string \<Rightarrow> sub_row \<Rightarrow> bool" where
  "row_after ts pid r \<longleftrightarrow> row_CreatedAt r < ts \<or> row_CreatedAt r = ts \<and> row_PublicID r < pid"

definition select_rows :: "(sub_row \<Rightarrow> bool) \<Rightarrow> int \<Rightarrow> sub_db \<Rightarrow> sub_row list" where
  "select_rows P limit db = take (nat limit) (sort_slice row_newer (filter P (db_rows db)))"

definition q_ListSubmissionsAll :: "call_env \<Rightarrow> int \<Rightarrow> sub_db \<Rightarrow> sub_row list result" where
  "q_ListSubmissionsAll E limit db =
     fst (with_fault E ''ListSubmissionsAll'' (Inr (select_rows (\<lambda>r. True) limit db), db) db)"

definition q_ListSubmissionsAllAfter :: "call_env \<Rightarrow> string \<Rightarrow> string \<Rightarrow> int \<Rightarrow> sub_db \<Rightarrow> sub_row list result" where
  "q_ListSubmissionsAllAfter E ts pid limit db =
     fst (with_fault E ''ListSubmissionsAllAfter'' (Inr (select_rows (row_after ts pid) limit db), db) db)"

definition q_ListSubmissionsByStatus :: "call_env \<Rightarrow> string \<Rightarrow> int \<Rightarrow> sub_db \<Rightarrow> sub_row list result" where
  "q_ListSubmissionsByStatus E status limit db =
     fst (with_fault E ''ListSubmissionsByStatus''
       (Inr (select_rows (\<lambda>r. row_Status r = status) limit db), db) db)"

definition q_ListSubmissionsByStatusAfter ::
  "call_env \<Rightarrow> string \<Rightarrow> string \<Rightarrow> string \<Rightarrow> int \<Rightarrow> sub_db \<Rightarrow> sub_row list result" where
  "q_ListSubmissionsByStatusAfter E status ts pid limit db =
     fst (with_fault E ''ListSubmissionsByStatusAfter''
       (Inr (select_rows (\<lambda>r. row_Status r = status \<and> row_after ts pid r) limit db), db) db)"

text \<open>UPDATE \<dots> WHERE public_id = ? AND status = 'pending' RETURNING \<dots>\<close>

definition is_pending :: "string \<Rightarrow> sub_row \<Rightarrow> bool" where
  "is_pending pid r \<longleftrightarrow> row_PublicID r = pid \<and> row_Status r = ''pending''"

definition update_returning :: "(sub_row \<Rightarrow> bool) \<Rightarrow> (sub_row \<Rightarrow> sub_row) \<Rightarrow> sub_db \<Rightarrow> sub_row result \<times> sub_db" where
  "update_returning P f db =
     (scan_one (map f (filter P (db_rows db))), db\<lparr>db_rows := update_where P f (db_rows db)\<rparr>)"

definition q_ApproveSubmission :: "call_env \<Rightarrow> string option \<Rightarrow> string \<Rightarrow> sub_db \<Rightarrow> sub_row result \<times> sub_db" where
  "q_ApproveSubmission E processed pid db =
     with_fault E ''ApproveSubmission''
       (update_returning (is_pending pid)
          (\<lambda>r. r\<lparr>row_Status := ''approved'', row_ProcessedAt := processed\<rparr>) db) db"

definition q_RejectSubmission :: "call_env \<Rightarrow> string \<Rightarrow> string option \<Rightarrow> string \<Rightarrow> sub_db \<Rightarrow> sub_row result \<times> sub_db" where
  "q_RejectSubmission E reason processed pid db =
     with_fault E ''RejectSubmission''
       (update_returning (is_pending pid)
          (\<lambda>r. r\<lparr>row_Status := ''rejected'', row_RejectionReason := reason, row_ProcessedAt := processed\<rparr>) db) db"

definition q_AttachPromotionResult :: "call_env \<Rightarrow> string \<Rightarrow> string \<Rightarrow> string \<Rightarrow> sub_db \<Rightarrow> unit result \<times> sub_db" where
  "q_AttachPromotionResult E url err pid db =
     with_fault E ''AttachPromotionResult''
       (Inr (), db\<lparr>db_rows := update_where (\<lambda>r. row_PublicID r = pid)
          (\<lambda>r. r\<lparr>row_PromotionPrUrl := url, row_PromotionError := err\<rparr>) (db_rows db)\<rparr>) db"

definition q_SubmissionStatusByPublicID :: "call_env \<Rightarrow> string \<Rightarrow> sub_db \<Rightarrow> string result" where
  "q_SubmissionStatusByPublicID E pid db =
     fst (with_fault E ''SubmissionStatusByPublicID''
       (scan_one (map row_Status (filter (\<lambda>r. row_PublicID r = pid) (db_rows db))), db) db)"

section \<open>The store's operations\<close>

text \<open>\<open>parseSQLiteTime\<close>: the store's own layout first, then RFC 3339.\<close>

definition parseSQLiteTime :: "payload_codec \<Rightarrow> string \<Rightarrow> instant result" where
  "parseSQLiteTime J s =
     (case parse_millis s of Some t \<Rightarrow> Inr t
      | None \<Rightarrow> (case tm_parse J ''2006-01-02T15:04:05.999999999Z07:00'' s of Some t \<Rightarrow> Inr t
      | None \<Rightarrow> (case tm_parse J ''2006-01-02T15:04:05Z07:00'' s of Some t \<Rightarrow> Inr t
      | None \<Rightarrow> Inl (Errorf ''unrecognized time format %q'' [s]))))"

definition row_error :: "string \<Rightarrow> string \<Rightarrow> string" where
  "row_error pid what = ''sqlite: row '' @ pid @ '': '' @ what"

definition rowToSubmission :: "payload_codec \<Rightarrow> sub_row \<Rightarrow> submission result" where
  "rowToSubmission J r =
     (case js_unmarshal J (row_PayloadJson r) of
        Inl e \<Rightarrow> Inl (Wrap (row_error (row_PublicID r) ''unmarshal payload'') e)
      | Inr payload \<Rightarrow>
       (case parseSQLiteTime J (row_CreatedAt r) of
          Inl e \<Rightarrow> Inl (Wrap (row_error (row_PublicID r) ''parse created_at'') e)
        | Inr createdAt \<Rightarrow>
         (case (case row_ProcessedAt r of
                  None \<Rightarrow> Inr None
                | Some p \<Rightarrow> if p = [] then Inr None else
                    (case parseSQLiteTime J p of
                       Inl e \<Rightarrow> Inl (Wrap (row_error (row_PublicID r) ''parse processed_at'') e)
                     | Inr t \<Rightarrow> Inr (Some t))) of
            Inl e \<Rightarrow> Inl e
          | Inr processedAt \<Rightarrow>
              Inr \<lparr>sub_PublicID = row_PublicID r, sub_Payload = payload,
                sub_SubmitterName = row_SubmitterName r, sub_SubmitterEmail = row_SubmitterEmail r,
                sub_SubmitterNote = row_SubmitterNote r, sub_Status = row_Status r,
                sub_CreatedAt = createdAt, sub_ProcessedAt = processedAt,
                sub_PromotionPRURL = row_PromotionPrUrl r, sub_PromotionError = row_PromotionError r,
                sub_RejectionReason = row_RejectionReason r\<rparr>)))"

definition Create :: "payload_codec \<Rightarrow> call_env \<Rightarrow> new_submission_input \<Rightarrow> sub_db \<Rightarrow> submission result \<times> sub_db" where
  "Create J E inp db =
     (case js_marshal J (ni_Payload inp) of
        Inl e \<Rightarrow> (Inl (Wrap ''sqlite.Create: marshal payload'' e), db)
      | Inr payload \<Rightarrow>
       (case ce_newid E of
          Inl e \<Rightarrow> (Inl (Wrap ''sqlite.Create: idgen'' e), db)
        | Inr publicID \<Rightarrow>
         (case q_CreateSubmission E publicID payload (ni_SubmitterName inp) (ni_SubmitterEmail inp)
                 (ni_SubmitterNote inp) (fmt_millis (ce_now E)) db of
            (Inl e, db') \<Rightarrow> (Inl (Wrap ''sqlite.Create: insert'' e), db')
          | (Inr row, db') \<Rightarrow> (rowToSubmission J row, db'))))"

definition Get :: "payload_codec \<Rightarrow> call_env \<Rightarrow> string \<Rightarrow> sub_db \<Rightarrow> submission result" where
  "Get J E publicID db =
     (case q_GetSubmissionByPublicID E publicID db of
        Inl e \<Rightarrow> if errors_is e SqlErrNoRows then Inl (Sentinel ErrSubmissionNotFound)
                 else Inl (Wrap ''sqlite.Get'' e)
      | Inr row \<Rightarrow> rowToSubmission J row)"

definition encodeCursor :: "string \<Rightarrow> string \<Rightarrow> string" where
  "encodeCursor createdAt publicID = RawURLEncode (createdAt @ ''|'' @ publicID)"

text \<open>\<open>None\<close> is \<open>hasCursor = false\<close>.\<close>

definition decodeCursor :: "string \<Rightarrow> (string \<times> string) option result" where
  "decodeCursor cursor =
     (if cursor = [] then Inr None
      else case RawURLDecode cursor of
        None \<Rightarrow> Inl (Sentinel ErrInvalidCursor)
      | Some raw \<Rightarrow> (case index_byte raw CHR ''|'' of
          None \<Rightarrow> Inl (Sentinel ErrInvalidCursor)
        | Some sep \<Rightarrow> if sep = 0 \<or> sep = length raw - 1 then Inl (Sentinel ErrInvalidCursor)
            else Inr (Some (take sep raw, drop (sep + 1) raw))))"

record list_query =
  lsq_Status :: string
  lsq_Limit :: int
  lsq_Cursor :: string

record list_page =
  lsp_Items :: "submission list"
  lsp_NextCursor :: string

fun rows_to_submissions :: "payload_codec \<Rightarrow> sub_row list \<Rightarrow> submission list result" where
  "rows_to_submissions J [] = Inr []"
| "rows_to_submissions J (r # rs) = (case rowToSubmission J r of
      Inl e \<Rightarrow> Inl e
    | Inr s \<Rightarrow> (case rows_to_submissions J rs of Inl e \<Rightarrow> Inl e | Inr ss \<Rightarrow> Inr (s # ss)))"

definition clamp_list_limit :: "int \<Rightarrow> int" where
  "clamp_list_limit l = (let l' = (if l \<le> 0 then 50 else l) in if l' > 200 then 200 else l')"

definition ListPage :: "payload_codec \<Rightarrow> call_env \<Rightarrow> list_query \<Rightarrow> sub_db \<Rightarrow> list_page result" where
  "ListPage J E q db =
     (let limit = clamp_list_limit (lsq_Limit q); fetch = limit + 1 in
      case decodeCursor (lsq_Cursor q) of
        Inl e \<Rightarrow> Inl e
      | Inr cur \<Rightarrow>
       (case (case cur of
                None \<Rightarrow> if lsq_Status q = [] then q_ListSubmissionsAll E fetch db
                        else q_ListSubmissionsByStatus E (lsq_Status q) fetch db
              | Some (ts, pid) \<Rightarrow> if lsq_Status q = [] then q_ListSubmissionsAllAfter E ts pid fetch db
                        else q_ListSubmissionsByStatusAfter E (lsq_Status q) ts pid fetch db) of
          Inl e \<Rightarrow> Inl (Wrap ''sqlite.ListPage'' e)
        | Inr rows \<Rightarrow>
           (let more = int (length rows) > limit;
                last = rows ! nat (limit - 1);
                next = (if more then encodeCursor (row_CreatedAt last) (row_PublicID last) else []);
                kept = (if more then take (nat limit) rows else rows)
            in case rows_to_submissions J kept of
                 Inl e \<Rightarrow> Inl e
               | Inr out \<Rightarrow> Inr \<lparr>lsp_Items = out, lsp_NextCursor = next\<rparr>)))"

definition List_op :: "payload_codec \<Rightarrow> call_env \<Rightarrow> list_query \<Rightarrow> sub_db \<Rightarrow> submission list result" where
  "List_op J E q db = (case ListPage J E q db of Inl e \<Rightarrow> Inl e | Inr page \<Rightarrow> Inr (lsp_Items page))"

definition notPendingOrNotFound :: "call_env \<Rightarrow> string \<Rightarrow> sub_db \<Rightarrow> go_error" where
  "notPendingOrNotFound E publicID db =
     (case q_SubmissionStatusByPublicID E publicID db of
        Inl e \<Rightarrow> if errors_is e SqlErrNoRows then Sentinel ErrSubmissionNotFound else e
      | Inr _ \<Rightarrow> Sentinel ErrSubmissionNotPending)"

definition Approve :: "payload_codec \<Rightarrow> call_env \<Rightarrow> string \<Rightarrow> sub_db \<Rightarrow> submission result \<times> sub_db" where
  "Approve J E publicID db =
     (case q_ApproveSubmission E (Some (fmt_millis (ce_now E))) publicID db of
        (Inl e, db') \<Rightarrow> (if errors_is e SqlErrNoRows then Inl (notPendingOrNotFound E publicID db')
                        else Inl (Wrap ''sqlite.Approve'' e), db')
      | (Inr row, db') \<Rightarrow> (rowToSubmission J row, db'))"

definition Reject :: "payload_codec \<Rightarrow> call_env \<Rightarrow> string \<Rightarrow> string \<Rightarrow> sub_db \<Rightarrow> submission result \<times> sub_db" where
  "Reject J E publicID reason db =
     (case q_RejectSubmission E reason (Some (fmt_millis (ce_now E))) publicID db of
        (Inl e, db') \<Rightarrow> (if errors_is e SqlErrNoRows then Inl (notPendingOrNotFound E publicID db')
                        else Inl (Wrap ''sqlite.Reject'' e), db')
      | (Inr row, db') \<Rightarrow> (rowToSubmission J row, db'))"

text \<open>
  Status check and UPDATE in one transaction: every early return rolls back, so the table changes
  only when the transaction reaches the disk.
\<close>

definition AttachPromotionResult :: "call_env \<Rightarrow> string \<Rightarrow> string \<Rightarrow> string \<Rightarrow> sub_db \<Rightarrow> unit result \<times> sub_db" where
  "AttachPromotionResult E publicID prURL prErr db =
     (case ce_fault E ''BEGIN'' of
        Some e \<Rightarrow> (Inl (Wrap ''sqlite.AttachPromotionResult: begin'' e), db)
      | None \<Rightarrow>
       (case q_SubmissionStatusByPublicID E publicID db of
          Inl e \<Rightarrow> (if errors_is e SqlErrNoRows then Inl (Sentinel ErrSubmissionNotFound)
                    else Inl (Wrap ''sqlite.AttachPromotionResult: status check'' e), db)
        | Inr _ \<Rightarrow>
         (case q_AttachPromotionResult E prURL prErr publicID db of
            (Inl e, _) \<Rightarrow> (Inl (Wrap ''sqlite.AttachPromotionResult'' e), db)
          | (Inr _, db') \<Rightarrow>
             (case ce_fault E ''COMMIT'' of
                Some e \<Rightarrow> (Inl (Wrap ''sqlite.AttachPromotionResult: commit'' e), if ce_landed E then db' else db)
              | None \<Rightarrow> (Inr (), db')))))"

section \<open>Cursors\<close>

text \<open>A cursor made by \<open>encodeCursor\<close> is never empty and decodes to what it was made of.\<close>

lemma decode_encodeCursor:
  assumes "CHR ''|'' \<notin> set ts" "ts \<noteq> []" "pid \<noteq> []"
  shows "decodeCursor (encodeCursor ts pid) = Inr (Some (ts, pid))"
proof -
  have "index_byte (ts @ CHR ''|'' # pid) CHR ''|'' = Some (length ts)"
    using assms(1) by (auto simp: index_byte_Some)
  then show ?thesis
    using assms by (simp add: decodeCursor_def encodeCursor_def RawURL_roundtrip)
qed

lemma encodeCursor_nonempty: "encodeCursor ts pid \<noteq> []"
  by (simp add: encodeCursor_def)

section \<open>Specification\<close>

text \<open>
  What \<open>atlas.SubmissionStore\<close> promises, over the abstract state of the queue: the submissions by
  public id. \<open>spec_exec\<close> gives the answer and the next state of each operation that changes state, and
  of \<open>Get\<close>.
\<close>

type_synonym sub_map = "string \<rightharpoonup> submission"

datatype sub_op =
    OpCreate new_submission_input
  | OpGet string
  | OpApprove string
  | OpReject string string
  | OpAttach string string string

definition created :: "string \<Rightarrow> instant \<Rightarrow> new_submission_input \<Rightarrow> submission" where
  "created pid now inp =
     \<lparr>sub_PublicID = pid, sub_Payload = ni_Payload inp, sub_SubmitterName = ni_SubmitterName inp,
      sub_SubmitterEmail = ni_SubmitterEmail inp, sub_SubmitterNote = ni_SubmitterNote inp,
      sub_Status = SubmissionPending, sub_CreatedAt = trunc_ms now, sub_ProcessedAt = None,
      sub_PromotionPRURL = [], sub_PromotionError = [], sub_RejectionReason = []\<rparr>"

definition approved :: "instant \<Rightarrow> submission \<Rightarrow> submission" where
  "approved now x = x\<lparr>sub_Status := SubmissionApproved, sub_ProcessedAt := Some (trunc_ms now)\<rparr>"

definition rejected :: "instant \<Rightarrow> string \<Rightarrow> submission \<Rightarrow> submission" where
  "rejected now reason x =
     x\<lparr>sub_Status := SubmissionRejected, sub_ProcessedAt := Some (trunc_ms now), sub_RejectionReason := reason\<rparr>"

definition attached :: "string \<Rightarrow> string \<Rightarrow> submission \<Rightarrow> submission" where
  "attached url err x = x\<lparr>sub_PromotionPRURL := url, sub_PromotionError := err\<rparr>"

lemmas spec_update_defs = created_def approved_def rejected_def attached_def

definition decide :: "(submission \<Rightarrow> submission) \<Rightarrow> string \<Rightarrow> sub_map \<Rightarrow> submission option result \<times> sub_map" where
  "decide f pid m = (case m pid of
      None \<Rightarrow> (Inl (Sentinel ErrSubmissionNotFound), m)
    | Some x \<Rightarrow> if sub_Status x = SubmissionPending then (Inr (Some (f x)), m(pid \<mapsto> f x))
                else (Inl (Sentinel ErrSubmissionNotPending), m))"

fun spec_exec :: "instant \<Rightarrow> string \<Rightarrow> sub_op \<Rightarrow> sub_map \<Rightarrow> submission option result \<times> sub_map" where
  "spec_exec now newid (OpCreate inp) m =
     (if m newid \<noteq> None then (Inl (Errorf ''public id in use'' []), m)
      else (Inr (Some (created newid now inp)), m(newid \<mapsto> created newid now inp)))"
| "spec_exec now newid (OpGet pid) m =
     (case m pid of None \<Rightarrow> Inl (Sentinel ErrSubmissionNotFound) | Some x \<Rightarrow> Inr (Some x), m)"
| "spec_exec now newid (OpApprove pid) m = decide (approved now) pid m"
| "spec_exec now newid (OpReject pid reason) m = decide (rejected now reason) pid m"
| "spec_exec now newid (OpAttach pid url err) m = (case m pid of
      None \<Rightarrow> (Inl (Sentinel ErrSubmissionNotFound), m)
    | Some x \<Rightarrow> (Inr None, m(pid \<mapsto> attached url err x)))"

text \<open>The same operations of the SQLite store.\<close>

fun sqlite_exec :: "payload_codec \<Rightarrow> call_env \<Rightarrow> sub_op \<Rightarrow> sub_db \<Rightarrow> submission option result \<times> sub_db" where
  "sqlite_exec J E (OpCreate inp) db = apfst (map_sum id Some) (Create J E inp db)"
| "sqlite_exec J E (OpGet pid) db = (map_sum id Some (Get J E pid db), db)"
| "sqlite_exec J E (OpApprove pid) db = apfst (map_sum id Some) (Approve J E pid db)"
| "sqlite_exec J E (OpReject pid reason) db = apfst (map_sum id Some) (Reject J E pid reason db)"
| "sqlite_exec J E (OpAttach pid url err) db = apfst (map_sum id (\<lambda>_. None)) (AttachPromotionResult E pid url err db)"

section \<open>Abstraction and invariant\<close>

definition find_row :: "string \<Rightarrow> sub_row list \<Rightarrow> sub_row option" where
  "find_row pid rs = find (\<lambda>r. row_PublicID r = pid) rs"

definition sub_abs :: "payload_codec \<Rightarrow> sub_db \<Rightarrow> sub_map" where
  "sub_abs J db pid = (case find_row pid (db_rows db) of None \<Rightarrow> None
     | Some r \<Rightarrow> (case rowToSubmission J r of Inl _ \<Rightarrow> None | Inr x \<Rightarrow> Some x))"

text \<open>
  A row is well formed: it can be read back, its status is one of the three, it is processed exactly
  when decided, only a rejected one has a reason, its creation time was written by the store and its
  id is not empty.
\<close>

definition row_ok :: "payload_codec \<Rightarrow> sub_row \<Rightarrow> bool" where
  "row_ok J r \<longleftrightarrow> (\<exists>x. rowToSubmission J r = Inr x) \<and>
     row_Status r \<in> {SubmissionPending, SubmissionApproved, SubmissionRejected} \<and>
     (row_Status r = SubmissionPending \<longleftrightarrow> row_ProcessedAt r = None) \<and>
     (row_Status r \<noteq> SubmissionRejected \<longrightarrow> row_RejectionReason r = []) \<and>
     (\<exists>t. four_digit_year t \<and> row_CreatedAt r = fmt_millis t) \<and> row_PublicID r \<noteq> []"

definition db_inv :: "payload_codec \<Rightarrow> sub_db \<Rightarrow> bool" where
  "db_inv J db \<longleftrightarrow> distinct (map row_PublicID (db_rows db)) \<and> list_all (row_ok J) (db_rows db)"

definition empty_db :: sub_db where
  "empty_db = \<lparr>db_rows = [], db_seq = 0\<rparr>"

text \<open>
  What a call may rely on: the clock shows a year of at most four digits, the id generator gives
  non-empty ids, and what is marshalled for this payload unmarshals to it.
\<close>

definition env_ok :: "payload_codec \<Rightarrow> call_env \<Rightarrow> sub_op \<Rightarrow> bool" where
  "env_ok J E op \<longleftrightarrow> four_digit_year (ce_now E) \<and>
     (case op of OpCreate inp \<Rightarrow>
        (case ce_newid E of Inl _ \<Rightarrow> True | Inr pid \<Rightarrow> pid \<noteq> []) \<and>
        (case js_marshal J (ni_Payload inp) of Inl _ \<Rightarrow> True | Inr j \<Rightarrow> js_unmarshal J j = Inr (ni_Payload inp))
      | _ \<Rightarrow> True)"

lemma find_row_simps [simp]:
  "find_row pid [] = None"
  "find_row pid (r # rs) = (if row_PublicID r = pid then Some r else find_row pid rs)"
  by (auto simp: find_row_def)

lemma find_row_append [simp]:
  "find_row pid (rs @ rs') = (case find_row pid rs of None \<Rightarrow> find_row pid rs' | Some r \<Rightarrow> Some r)"
  by (induction rs) auto

lemma find_row_None: "find_row pid rs = None \<longleftrightarrow> pid \<notin> row_PublicID ` set rs"
  by (induction rs) auto

lemma find_row_Some: "find_row pid rs = Some r \<Longrightarrow> r \<in> set rs \<and> row_PublicID r = pid"
  by (induction rs) (auto split: if_splits)

lemma filter_pid_and:
  "distinct (map row_PublicID rs) \<Longrightarrow>
   filter (\<lambda>r. row_PublicID r = pid \<and> P r) rs =
     (case find_row pid rs of None \<Rightarrow> [] | Some r \<Rightarrow> if P r then [r] else [])"
proof (induction rs)
  case (Cons a rs)
  show ?case
  proof (cases "row_PublicID a = pid")
    case True
    with Cons.prems have "find_row pid rs = None" by (simp add: find_row_None)
    with True Cons show ?thesis by simp
  qed (use Cons in simp)
qed simp

lemmas filter_pid = filter_pid_and [where P = "\<lambda>_. True", simplified]

lemma find_row_update:
  "(\<And>r. row_PublicID (f r) = row_PublicID r) \<Longrightarrow>
   find_row pid (update_where P f rs) = map_option (\<lambda>r. if P r then f r else r) (find_row pid rs)"
  by (induction rs) (auto simp: update_where_def)

lemma ids_update_where:
  "(\<And>r. row_PublicID (f r) = row_PublicID r) \<Longrightarrow>
   map row_PublicID (update_where P f rs) = map row_PublicID rs"
  by (simp add: update_where_def)

lemma update_where_none: "\<forall>r\<in>set rs. \<not> P r \<Longrightarrow> update_where P f rs = rs"
  by (induction rs) (auto simp: update_where_def)

lemma fmt_millis_chars:
  assumes "four_digit_year t" "c \<in> set (fmt_millis t)"
  shows "c \<noteq> CHR ''|''"
proof -
  obtain y m d where y: "date_of t = (y, m, d)" by (metis prod.exhaust)
  obtain h mi s where k: "clock_of t = (h, mi, s)" by (metis prod.exhaust)
  have bar: "CHR ''|'' \<noteq> digit_char i" if "i < 10" for i
    using digit_char_byte [OF that] that by (auto dest: arg_cong [of _ _ byte])
  have "CHR ''|'' \<notin> set (dec w n)" for w n
    using set_dec [of "CHR ''|''" w n] bar by blast
  then show ?thesis using assms(2)
    unfolding fmt_millis_def fmt_date_dec [OF assms(1) y] fmt_clock_dec [OF k] fmt_millis_dec by auto
qed

lemma fmt_millis_nonempty [simp]: "fmt_millis t \<noteq> []"
  by (simp add: fmt_millis_def)

lemma parseSQLiteTime_fmt: "four_digit_year t \<Longrightarrow> parseSQLiteTime J (fmt_millis t) = Inr (trunc_ms t)"
  by (simp add: parseSQLiteTime_def parse_fmt_millis)

section \<open>Refinement\<close>

lemma rowToSubmission_Inr:
  "rowToSubmission J r = Inr x \<Longrightarrow>
     sub_PublicID x = row_PublicID r \<and> sub_Status x = row_Status r \<and> (row_ProcessedAt r = None \<longrightarrow> sub_ProcessedAt x = None)"
  by (auto simp: rowToSubmission_def split: sum.splits option.splits if_splits)

text \<open>The updates of the table are the updates of the specification.\<close>

lemma rowToSubmission_approve:
  assumes "four_digit_year now" "rowToSubmission J r = Inr x"
  shows "rowToSubmission J (r\<lparr>row_Status := ''approved'', row_ProcessedAt := Some (fmt_millis now)\<rparr>) = Inr (approved now x)"
  using assms by (auto simp: rowToSubmission_def approved_def status_defs parseSQLiteTime_fmt
      split: sum.splits option.splits if_splits)

lemma rowToSubmission_reject:
  assumes "four_digit_year now" "rowToSubmission J r = Inr x"
  shows "rowToSubmission J (r\<lparr>row_Status := ''rejected'', row_RejectionReason := reason, row_ProcessedAt := Some (fmt_millis now)\<rparr>)
    = Inr (rejected now reason x)"
  using assms by (auto simp: rowToSubmission_def rejected_def status_defs parseSQLiteTime_fmt
      split: sum.splits option.splits if_splits)

lemma rowToSubmission_attach:
  assumes "rowToSubmission J r = Inr x"
  shows "rowToSubmission J (r\<lparr>row_PromotionPrUrl := url, row_PromotionError := err\<rparr>) = Inr (attached url err x)"
  using assms by (auto simp: rowToSubmission_def attached_def split: sum.splits option.splits if_splits)

lemma sub_abs_row:
  assumes "db_inv J db" "find_row pid (db_rows db) = Some r"
  obtains x where "rowToSubmission J r = Inr x" "sub_abs J db pid = Some x" "sub_PublicID x = pid"
    "sub_Status x = row_Status r" "row_ok J r"
proof -
  have "row_ok J r" using assms find_row_Some by (auto simp: db_inv_def list_all_iff)
  then obtain x where x: "rowToSubmission J r = Inr x" by (auto simp: row_ok_def)
  then show thesis
    using that [of x] \<open>row_ok J r\<close> assms(2) find_row_Some [OF assms(2)] rowToSubmission_Inr [OF x]
    by (simp add: sub_abs_def)
qed

lemma sub_abs_None: "db_inv J db \<Longrightarrow> sub_abs J db pid = None \<longleftrightarrow> find_row pid (db_rows db) = None"
  by (cases "find_row pid (db_rows db)") (auto simp: sub_abs_def elim: sub_abs_row)

text \<open>
  An UPDATE that keeps ids and rows well formed: the row with the id changes as the abstract
  submission does, every other one stays.
\<close>

lemma update_row:
  assumes inv: "db_inv J db" and row: "find_row pid (db_rows db) = Some r" "P r"
    and key: "\<And>r. row_PublicID (f r) = row_PublicID r" "\<And>r. P r \<Longrightarrow> row_PublicID r = pid"
    and ok: "row_ok J (f r)" and abs: "rowToSubmission J (f r) = Inr y"
  shows "sub_abs J (db\<lparr>db_rows := update_where P f (db_rows db)\<rparr>) = (sub_abs J db)(pid \<mapsto> y)"
    and "db_inv J (db\<lparr>db_rows := update_where P f (db_rows db)\<rparr>)"
proof -
  show "sub_abs J (db\<lparr>db_rows := update_where P f (db_rows db)\<rparr>) = (sub_abs J db)(pid \<mapsto> y)"
  proof
    fix q
    show "sub_abs J (db\<lparr>db_rows := update_where P f (db_rows db)\<rparr>) q = ((sub_abs J db)(pid \<mapsto> y)) q"
    proof (cases "q = pid")
      case True
      then show ?thesis using row abs by (simp add: sub_abs_def find_row_update key(1))
    next
      case False
      have "\<not> P r'" if "find_row q (db_rows db) = Some r'" for r'
        using find_row_Some [OF that] key(2) False by blast
      then show ?thesis using False
        by (auto simp: sub_abs_def find_row_update key(1) split: option.splits)
    qed
  qed
  have "row_ok J (f r')" if "r' \<in> set (db_rows db)" "P r'" for r'
  proof -
    have "row_PublicID r' = row_PublicID r"
      using key(2) [OF that(2)] find_row_Some [OF row(1)] by simp
    then have "r' = r"
      using inv that(1) find_row_Some [OF row(1)]
      by (auto simp: db_inv_def distinct_map dest: inj_onD)
    with ok show ?thesis by simp
  qed
  with inv have "list_all (row_ok J) (update_where P f (db_rows db))"
    by (auto simp: db_inv_def list_all_iff update_where_def)
  with inv show "db_inv J (db\<lparr>db_rows := update_where P f (db_rows db)\<rparr>)"
    by (simp add: db_inv_def ids_update_where key(1))
qed

lemma insert_row:
  assumes "db_inv J db" "row_PublicID r \<notin> row_PublicID ` set (db_rows db)" "row_ok J r" "rowToSubmission J r = Inr y"
  shows "sub_abs J (db\<lparr>db_rows := db_rows db @ [r], db_seq := n\<rparr>) = (sub_abs J db)(row_PublicID r \<mapsto> y)"
    and "db_inv J (db\<lparr>db_rows := db_rows db @ [r], db_seq := n\<rparr>)"
proof -
  have none: "find_row (row_PublicID r) (db_rows db) = None" using assms(2) by (simp add: find_row_None)
  then show "sub_abs J (db\<lparr>db_rows := db_rows db @ [r], db_seq := n\<rparr>) = (sub_abs J db)(row_PublicID r \<mapsto> y)"
    using assms(4) by (auto simp: sub_abs_def fun_eq_iff split: option.splits)
  show "db_inv J (db\<lparr>db_rows := db_rows db @ [r], db_seq := n\<rparr>)"
    using assms by (auto simp: db_inv_def)
qed

lemma update_returning_pending:
  assumes "db_inv J db"
  shows "update_returning (is_pending pid) f db =
     (case find_row pid (db_rows db) of
        None \<Rightarrow> (Inl (Sentinel SqlErrNoRows), db)
      | Some r \<Rightarrow> if row_Status r = SubmissionPending
          then (Inr (f r), db\<lparr>db_rows := update_where (is_pending pid) f (db_rows db)\<rparr>)
          else (Inl (Sentinel SqlErrNoRows), db))"
proof -
  have d: "distinct (map row_PublicID (db_rows db))" using assms by (simp add: db_inv_def)
  have same: "update_where (is_pending pid) f (db_rows db) = db_rows db"
    if "filter (is_pending pid) (db_rows db) = []"
    using that by (intro update_where_none) (simp add: filter_empty_conv)
  have "filter (is_pending pid) (db_rows db) =
      (case find_row pid (db_rows db) of None \<Rightarrow> [] | Some r \<Rightarrow> if row_Status r = SubmissionPending then [r] else [])"
    unfolding is_pending_def [abs_def] status_defs by (rule filter_pid_and [OF d])
  then show ?thesis
    using same by (auto simp: update_returning_def scan_one_def split: option.splits)
qed

text \<open>Both decisions, with the row update and the specification's update as arguments.\<close>

lemma decision_refines:
  assumes inv: "db_inv J db"
    and f: "\<And>r. row_PublicID (f r) = row_PublicID r"
    and ok: "\<And>r. row_ok J r \<Longrightarrow> row_Status r = SubmissionPending \<Longrightarrow> row_ok J (f r)"
    and sim: "\<And>r x. rowToSubmission J r = Inr x \<Longrightarrow> rowToSubmission J (f r) = Inr (g x)"
    and upd: "update_returning (is_pending pid) f db = (res, db')"
  shows "db_inv J db'" and "sub_abs J db' = snd (decide g pid (sub_abs J db))"
    and "case res of Inr row \<Rightarrow> \<exists>y. rowToSubmission J row = Inr y \<and> fst (decide g pid (sub_abs J db)) = Inr (Some y)
         | Inl e \<Rightarrow> e = Sentinel SqlErrNoRows \<and> fst (decide g pid (sub_abs J db)) =
             Inl (Sentinel (if find_row pid (db_rows db) = None then ErrSubmissionNotFound else ErrSubmissionNotPending))"
proof -
  consider (none) "find_row pid (db_rows db) = None"
    | (decided) r where "find_row pid (db_rows db) = Some r" "row_Status r \<noteq> SubmissionPending"
    | (pending) r where "find_row pid (db_rows db) = Some r" "row_Status r = SubmissionPending"
    by (cases "find_row pid (db_rows db)") auto
  then have "db_inv J db' \<and> sub_abs J db' = snd (decide g pid (sub_abs J db)) \<and>
    (case res of Inr row \<Rightarrow> \<exists>y. rowToSubmission J row = Inr y \<and> fst (decide g pid (sub_abs J db)) = Inr (Some y)
         | Inl e \<Rightarrow> e = Sentinel SqlErrNoRows \<and> fst (decide g pid (sub_abs J db)) =
             Inl (Sentinel (if find_row pid (db_rows db) = None then ErrSubmissionNotFound else ErrSubmissionNotPending)))"
  proof cases
    case none
    then have "res = Inl (Sentinel SqlErrNoRows)" "db' = db"
      using upd by (simp_all add: update_returning_pending [OF inv])
    moreover from none have "sub_abs J db pid = None" by (simp add: sub_abs_def)
    ultimately show ?thesis using inv none by (simp add: decide_def)
  next
    case decided
    then have "res = Inl (Sentinel SqlErrNoRows)" "db' = db"
      using upd by (simp_all add: update_returning_pending [OF inv])
    moreover obtain x where "sub_abs J db pid = Some x" "sub_Status x = row_Status r"
      using sub_abs_row [OF inv decided(1)] by metis
    ultimately show ?thesis using inv decided by (simp add: decide_def)
  next
    case pending
    then have res: "res = Inr (f r)" and db': "db' = db\<lparr>db_rows := update_where (is_pending pid) f (db_rows db)\<rparr>"
      using upd by (simp_all add: update_returning_pending [OF inv])
    obtain x where x: "rowToSubmission J r = Inr x" "sub_abs J db pid = Some x" "sub_Status x = row_Status r" "row_ok J r"
      using sub_abs_row [OF inv pending(1)] by metis
    have P: "is_pending pid r"
      using pending find_row_Some [OF pending(1)] by (simp add: is_pending_def status_defs)
    note u = update_row [where P = "is_pending pid" and f = f, OF inv pending(1) P f _ ok [OF x(4) pending(2)] sim [OF x(1)]]
    have "db_inv J db'" "sub_abs J db' = (sub_abs J db)(pid \<mapsto> g x)"
      unfolding db' using u by (simp_all add: is_pending_def)
    with res x sim [OF x(1)] pending(2) show ?thesis by (simp add: decide_def)
  qed
  then show "db_inv J db'" and "sub_abs J db' = snd (decide g pid (sub_abs J db))"
    and "case res of Inr row \<Rightarrow> \<exists>y. rowToSubmission J row = Inr y \<and> fst (decide g pid (sub_abs J db)) = Inr (Some y)
         | Inl e \<Rightarrow> e = Sentinel SqlErrNoRows \<and> fst (decide g pid (sub_abs J db)) =
             Inl (Sentinel (if find_row pid (db_rows db) = None then ErrSubmissionNotFound else ErrSubmissionNotPending))"
    by blast+
qed

definition spec_id :: "call_env \<Rightarrow> string" where
  "spec_id E = (case ce_newid E of Inl _ \<Rightarrow> [] | Inr pid \<Rightarrow> pid)"

text \<open>No statement fails; a new id is there and unused, and the payload can be marshalled.\<close>

definition fault_free :: "payload_codec \<Rightarrow> call_env \<Rightarrow> sub_op \<Rightarrow> sub_map \<Rightarrow> bool" where
  "fault_free J E op m \<longleftrightarrow> (\<forall>stmt. ce_fault E stmt = None) \<and>
     (case op of OpCreate inp \<Rightarrow> (\<exists>pid. ce_newid E = Inr pid \<and> m pid = None) \<and> (\<exists>j. js_marshal J (ni_Payload inp) = Inr j)
      | _ \<Rightarrow> True)"

text \<open>
  One call refines the specification: the invariant is kept, the call has the specified effect or
  none, an answer without error is the specified one and goes with the specified effect, and a call
  no statement of which fails does exactly what is specified.
\<close>

definition refines_at :: "payload_codec \<Rightarrow> call_env \<Rightarrow> sub_op \<Rightarrow> sub_db \<Rightarrow> bool" where
  "refines_at J E op db \<longleftrightarrow>
     (let (r, db') = sqlite_exec J E op db;
          (r0, m0) = spec_exec (ce_now E) (spec_id E) op (sub_abs J db)
      in db_inv J db' \<and> (sub_abs J db' = sub_abs J db \<or> sub_abs J db' = m0) \<and>
         (\<forall>y. r = Inr y \<longrightarrow> r0 = Inr y \<and> sub_abs J db' = m0) \<and>
         (fault_free J E op (sub_abs J db) \<longrightarrow> r = r0 \<and> sub_abs J db' = m0))"

lemma refines_atI:
  assumes "sqlite_exec J E op db = (r, db')"
    and "db_inv J db'"
    and "sub_abs J db' = sub_abs J db \<or> sub_abs J db' = snd (spec_exec (ce_now E) (spec_id E) op (sub_abs J db))"
    and "\<And>y. r = Inr y \<Longrightarrow> spec_exec (ce_now E) (spec_id E) op (sub_abs J db) = (Inr y, sub_abs J db')"
    and "fault_free J E op (sub_abs J db) \<Longrightarrow> spec_exec (ce_now E) (spec_id E) op (sub_abs J db) = (r, sub_abs J db')"
  shows "refines_at J E op db"
proof -
  obtain r0 m0 where s: "spec_exec (ce_now E) (spec_id E) op (sub_abs J db) = (r0, m0)" by fastforce
  show ?thesis
    using assms(2-5) unfolding refines_at_def Let_def assms(1) s prod.case fst_conv snd_conv prod.inject by blast
qed

lemma refines_create:
  assumes inv: "db_inv J db" and ok: "env_ok J E (OpCreate inp)"
  shows "refines_at J E (OpCreate inp) db"
proof -
  have fail: "refines_at J E (OpCreate inp) db"
    if "Create J E inp db = (Inl e, db)" "\<not> fault_free J E (OpCreate inp) (sub_abs J db)" for e
    by (rule refines_atI [where r = "Inl e" and db' = db]) (use that inv in simp_all)
  show ?thesis
  proof (cases "ce_fault E ''CreateSubmission''")
    case (Some e)
    then show ?thesis
      by (cases "js_marshal J (ni_Payload inp)"; cases "ce_newid E")
        (auto intro!: fail simp: Create_def q_CreateSubmission_def with_fault_def fault_free_def)
  next
    case None
    show ?thesis
    proof (cases "js_marshal J (ni_Payload inp)")
      case (Inl e)
      then show ?thesis by (intro fail) (auto simp: Create_def fault_free_def)
    next
      case marsh: (Inr j)
      show ?thesis
      proof (cases "ce_newid E")
        case (Inl e)
        with marsh show ?thesis by (intro fail) (auto simp: Create_def fault_free_def)
      next
        case id: (Inr pid)
        show ?thesis
        proof (cases "pid \<in> row_PublicID ` set (db_rows db)")
          case True
          then have "sub_abs J db pid \<noteq> None" using inv by (simp add: sub_abs_None find_row_None)
          with True marsh id None show ?thesis
            by (intro fail) (auto simp: Create_def q_CreateSubmission_def with_fault_def fault_free_def)
        next
          case False
          define row where "row = \<lparr>row_ID = db_seq db + 1, row_PublicID = pid, row_PayloadJson = j,
            row_SubmitterName = ni_SubmitterName inp, row_SubmitterEmail = ni_SubmitterEmail inp,
            row_SubmitterNote = ni_SubmitterNote inp, row_Status = ''pending'', row_RejectionReason = [],
            row_CreatedAt = fmt_millis (ce_now E), row_ProcessedAt = None, row_PromotionPrUrl = [],
            row_PromotionError = []\<rparr>"
          have env: "four_digit_year (ce_now E)" "pid \<noteq> []" "js_unmarshal J j = Inr (ni_Payload inp)"
            using ok marsh id by (auto simp: env_ok_def)
          have row: "rowToSubmission J row = Inr (created pid (ce_now E) inp)"
            using env by (simp add: row_def rowToSubmission_def parseSQLiteTime_fmt created_def status_defs)
          moreover have "row_ok J row"
            using row env by (auto simp: row_ok_def row_def status_defs)
          moreover have "row_PublicID row = pid" by (simp add: row_def)
          ultimately have ins: "sub_abs J (db\<lparr>db_rows := db_rows db @ [row], db_seq := db_seq db + 1\<rparr>) =
              (sub_abs J db)(pid \<mapsto> created pid (ce_now E) inp)"
            "db_inv J (db\<lparr>db_rows := db_rows db @ [row], db_seq := db_seq db + 1\<rparr>)"
            using insert_row [OF inv, of row] False by simp_all
          have "Create J E inp db =
              (Inr (created pid (ce_now E) inp), db\<lparr>db_rows := db_rows db @ [row], db_seq := db_seq db + 1\<rparr>)"
            using marsh id None False row unfolding row_def
            by (simp add: Create_def q_CreateSubmission_def with_fault_def Let_def)
          moreover have unused: "sub_abs J db pid = None" using False inv by (simp add: sub_abs_None find_row_None)
          ultimately show ?thesis
            by (intro refines_atI [where r = "Inr (Some (created pid (ce_now E) inp))"
                and db' = "db\<lparr>db_rows := db_rows db @ [row], db_seq := db_seq db + 1\<rparr>"])
              (use ins id unused in \<open>simp_all add: spec_id_def\<close>)
        qed
      qed
    qed
  qed
qed

lemma status_query:
  assumes "db_inv J db"
  shows "q_SubmissionStatusByPublicID E pid db = (case ce_fault E ''SubmissionStatusByPublicID'' of
      Some e \<Rightarrow> Inl e
    | None \<Rightarrow> (case find_row pid (db_rows db) of None \<Rightarrow> Inl (Sentinel SqlErrNoRows) | Some r \<Rightarrow> Inr (row_Status r)))"
  using assms by (simp add: q_SubmissionStatusByPublicID_def with_fault_def db_inv_def filter_pid scan_one_def
      split: option.splits)

lemma refines_get:
  assumes inv: "db_inv J db"
  shows "refines_at J E (OpGet pid) db"
proof -
  have d: "distinct (map row_PublicID (db_rows db))" using inv by (simp add: db_inv_def)
  have q: "q_GetSubmissionByPublicID E pid db = (case ce_fault E ''GetSubmissionByPublicID'' of
      Some e \<Rightarrow> Inl e
    | None \<Rightarrow> (case find_row pid (db_rows db) of None \<Rightarrow> Inl (Sentinel SqlErrNoRows) | Some r \<Rightarrow> Inr r))"
    by (simp add: q_GetSubmissionByPublicID_def with_fault_def filter_pid [OF d] scan_one_def split: option.splits)
  have abs: "sub_abs J db pid = (case find_row pid (db_rows db) of None \<Rightarrow> None
      | Some r \<Rightarrow> (case rowToSubmission J r of Inl _ \<Rightarrow> None | Inr x \<Rightarrow> Some x))"
    by (simp add: sub_abs_def)
  have readable: "\<exists>x. rowToSubmission J r = Inr x" if "find_row pid (db_rows db) = Some r" for r
    using sub_abs_row [OF inv that] by metis
  show ?thesis
    unfolding refines_at_def Let_def
    using inv abs readable q by (auto simp: Get_def fault_free_def split: option.splits sum.splits prod.splits)
qed

text \<open>\<open>Approve\<close> and \<open>Reject\<close> have one shape, an UPDATE of the pending row under a statement name.\<close>

lemma refines_decision:
  assumes inv: "db_inv J db" and E: "env_ok J E op"
    and f: "\<And>r. row_PublicID (f r) = row_PublicID r"
    and ok: "\<And>r. row_ok J r \<Longrightarrow> row_Status r = SubmissionPending \<Longrightarrow> row_ok J (f r)"
    and sim: "\<And>r x. rowToSubmission J r = Inr x \<Longrightarrow> rowToSubmission J (f r) = Inr (g x)"
    and impl: "sqlite_exec J E op db = apfst (map_sum id Some)
      (case with_fault E stmt (update_returning (is_pending pid) f db) db of
         (Inl e, db') \<Rightarrow> (if errors_is e SqlErrNoRows then Inl (notPendingOrNotFound E pid db') else Inl (Wrap what e), db')
       | (Inr row, db') \<Rightarrow> (rowToSubmission J row, db'))"
    and spec: "\<And>m. spec_exec (ce_now E) (spec_id E) op m = decide g pid m"
  shows "refines_at J E op db"
proof (cases "ce_fault E stmt")
  case (Some e)
  then obtain e' where "sqlite_exec J E op db = (Inl e', db)"
    unfolding impl by (simp add: with_fault_def) (metis (full_types) map_sum.simps(1))
  moreover have "\<not> fault_free J E op (sub_abs J db)" using Some by (auto simp: fault_free_def)
  ultimately show ?thesis by (intro refines_atI [where r = "Inl e'" and db' = db]) (use inv in simp_all)
next
  case None
  obtain res db' where u: "update_returning (is_pending pid) f db = (res, db')" by fastforce
  note d = decision_refines [where f = f and g = g, OF inv f ok sim u]
  show ?thesis
  proof (cases res)
    case (Inr row)
    then obtain y where y: "rowToSubmission J row = Inr y" "fst (decide g pid (sub_abs J db)) = Inr (Some y)"
      using d(3) by auto
    then have "decide g pid (sub_abs J db) = (Inr (Some y), sub_abs J db')" using d(2) by (metis prod.collapse)
    moreover have "sqlite_exec J E op db = (Inr (Some y), db')"
      unfolding impl using None Inr y u by (simp add: with_fault_def)
    ultimately show ?thesis
      by (intro refines_atI [where r = "Inr (Some y)" and db' = db']) (use d(1) spec in simp_all)
  next
    case (Inl e)
    then have e: "e = Sentinel SqlErrNoRows"
      and r0: "fst (decide g pid (sub_abs J db)) =
        Inl (Sentinel (if find_row pid (db_rows db) = None then ErrSubmissionNotFound else ErrSubmissionNotPending))"
      using d(3) by auto
    have same: "db' = db"
      using u Inl by (auto simp: update_returning_pending [OF inv] split: option.splits if_splits)
    have ex: "sqlite_exec J E op db = (Inl (notPendingOrNotFound E pid db), db)"
      unfolding impl using None Inl e u same by (simp add: with_fault_def)
    have "notPendingOrNotFound E pid db =
        Sentinel (if find_row pid (db_rows db) = None then ErrSubmissionNotFound else ErrSubmissionNotPending)"
      if "fault_free J E op (sub_abs J db)"
      using that by (auto simp: notPendingOrNotFound_def status_query [OF inv] fault_free_def split: option.splits)
    then have "decide g pid (sub_abs J db) = (Inl (notPendingOrNotFound E pid db), sub_abs J db)"
      if "fault_free J E op (sub_abs J db)"
      using that r0 d(2) same by (metis prod.collapse)
    with ex d(2) same show ?thesis
      by (intro refines_atI [where r = "Inl (notPendingOrNotFound E pid db)" and db' = db])
        (use inv spec in simp_all)
  qed
qed

lemma refines_approve:
  assumes "db_inv J db" "env_ok J E (OpApprove pid)"
  shows "refines_at J E (OpApprove pid) db"
proof (rule refines_decision [OF assms, where g = "approved (ce_now E)" and pid = pid])
  have now: "four_digit_year (ce_now E)" using assms(2) by (simp add: env_ok_def)
  let ?f = "\<lambda>r. r\<lparr>row_Status := ''approved'', row_ProcessedAt := Some (fmt_millis (ce_now E))\<rparr>"
  show "sqlite_exec J E (OpApprove pid) db = apfst (map_sum id Some)
      (case with_fault E ''ApproveSubmission'' (update_returning (is_pending pid) ?f db) db of
         (Inl e, db') \<Rightarrow> (if errors_is e SqlErrNoRows then Inl (notPendingOrNotFound E pid db')
                         else Inl (Wrap ''sqlite.Approve'' e), db')
       | (Inr row, db') \<Rightarrow> (rowToSubmission J row, db'))"
    by (simp add: Approve_def q_ApproveSubmission_def)
  show "rowToSubmission J (?f r) = Inr (approved (ce_now E) x)" if "rowToSubmission J r = Inr x" for r x
    using now that by (rule rowToSubmission_approve)
  then show "row_ok J (?f r)" if "row_ok J r" "row_Status r = SubmissionPending" for r
    using that by (auto simp: row_ok_def status_defs)
qed simp_all

lemma refines_reject:
  assumes "db_inv J db" "env_ok J E (OpReject pid reason)"
  shows "refines_at J E (OpReject pid reason) db"
proof (rule refines_decision [OF assms, where g = "rejected (ce_now E) reason" and pid = pid])
  have now: "four_digit_year (ce_now E)" using assms(2) by (simp add: env_ok_def)
  let ?f = "\<lambda>r. r\<lparr>row_Status := ''rejected'', row_RejectionReason := reason,
    row_ProcessedAt := Some (fmt_millis (ce_now E))\<rparr>"
  show "sqlite_exec J E (OpReject pid reason) db = apfst (map_sum id Some)
      (case with_fault E ''RejectSubmission'' (update_returning (is_pending pid) ?f db) db of
         (Inl e, db') \<Rightarrow> (if errors_is e SqlErrNoRows then Inl (notPendingOrNotFound E pid db')
                         else Inl (Wrap ''sqlite.Reject'' e), db')
       | (Inr row, db') \<Rightarrow> (rowToSubmission J row, db'))"
    by (simp add: Reject_def q_RejectSubmission_def)
  show "rowToSubmission J (?f r) = Inr (rejected (ce_now E) reason x)" if "rowToSubmission J r = Inr x" for r x
    using now that by (rule rowToSubmission_reject)
  then show "row_ok J (?f r)" if "row_ok J r" "row_Status r = SubmissionPending" for r
    using that by (auto simp: row_ok_def status_defs)
qed simp_all

lemma refines_attach:
  assumes inv: "db_inv J db"
  shows "refines_at J E (OpAttach pid url err) db"
proof -
  have fail: "refines_at J E (OpAttach pid url err) db"
    if "AttachPromotionResult E pid url err db = (Inl e, db)" "\<not> fault_free J E (OpAttach pid url err) (sub_abs J db)" for e
    by (rule refines_atI [where r = "Inl e" and db' = db]) (use that inv in simp_all)
  have faulty: "\<not> fault_free J E (OpAttach pid url err) (sub_abs J db)" if "ce_fault E stmt = Some e" for stmt e
    using that by (auto simp: fault_free_def)
  note unf = AttachPromotionResult_def status_query [OF inv] q_AttachPromotionResult_def with_fault_def
  show ?thesis
  proof (cases "ce_fault E ''BEGIN''")
    case (Some e)
    then show ?thesis by (intro fail) (auto simp: unf faulty)
  next
    case b: None
    show ?thesis
    proof (cases "ce_fault E ''SubmissionStatusByPublicID''")
      case (Some e)
      then show ?thesis
        by (intro fail [where e = "if errors_is e SqlErrNoRows then Sentinel ErrSubmissionNotFound
              else Wrap ''sqlite.AttachPromotionResult: status check'' e"]) (auto simp: unf faulty b)
    next
      case s: None
      show ?thesis
      proof (cases "find_row pid (db_rows db)")
        case None
        then have "AttachPromotionResult E pid url err db = (Inl (Sentinel ErrSubmissionNotFound), db)"
          by (simp add: unf b s)
        moreover from None have "sub_abs J db pid = None" by (simp add: sub_abs_def)
        ultimately show ?thesis
          by (intro refines_atI [where r = "Inl (Sentinel ErrSubmissionNotFound)" and db' = db])
            (use inv in simp_all)
      next
        case row: (Some r)
        show ?thesis
        proof (cases "ce_fault E ''AttachPromotionResult''")
          case (Some e)
          then show ?thesis by (intro fail) (auto simp: unf faulty b s row)
        next
          case a: None
          obtain x where x: "rowToSubmission J r = Inr x" "sub_abs J db pid = Some x" "row_ok J r"
            using sub_abs_row [OF inv row] by metis
          let ?f = "\<lambda>r. r\<lparr>row_PromotionPrUrl := url, row_PromotionError := err\<rparr>"
          define db' where "db' = db\<lparr>db_rows := update_where (\<lambda>r. row_PublicID r = pid) ?f (db_rows db)\<rparr>"
          have "row_ok J (?f r)"
            using x(3) rowToSubmission_attach [OF x(1)] by (auto simp: row_ok_def)
          then have u: "db_inv J db'" "sub_abs J db' = (sub_abs J db)(pid \<mapsto> attached url err x)"
            unfolding db'_def
            using update_row [where P = "\<lambda>r. row_PublicID r = pid" and f = ?f, OF inv row _ _ _ _ rowToSubmission_attach [OF x(1)]]
              find_row_Some [OF row] by simp_all
          have ex: "AttachPromotionResult E pid url err db = (case ce_fault E ''COMMIT'' of
              Some e \<Rightarrow> (Inl (Wrap ''sqlite.AttachPromotionResult: commit'' e), if ce_landed E then db' else db)
            | None \<Rightarrow> (Inr (), db'))"
            unfolding db'_def by (simp add: unf b s a row split: option.split)
          show ?thesis
          proof (cases "ce_fault E ''COMMIT''")
            case None
            then show ?thesis
              by (intro refines_atI [where r = "Inr None" and db' = db']) (use u x ex in simp_all)
          next
            case (Some e)
            show ?thesis
              by (intro refines_atI [where r = "Inl (Wrap ''sqlite.AttachPromotionResult: commit'' e)"
                    and db' = "if ce_landed E then db' else db"])
                (use u x ex inv Some faulty in simp_all)
          qed
        qed
      qed
    qed
  qed
qed

lemma sqlite_refines_at:
  assumes "db_inv J db" "env_ok J E op"
  shows "refines_at J E op db"
proof (cases op)
  case (OpCreate inp)
  with assms show ?thesis by (simp add: refines_create)
next
  case (OpGet pid)
  with assms show ?thesis by (simp add: refines_get)
next
  case (OpApprove pid)
  with assms show ?thesis by (simp add: refines_approve)
next
  case (OpReject pid reason)
  with assms show ?thesis by (simp add: refines_reject)
next
  case (OpAttach pid url err)
  with assms show ?thesis by (simp add: refines_attach)
qed

section \<open>Histories of the queue\<close>

text \<open>A sequence of calls, each with what it sees of its surroundings; the answers are kept in order.\<close>

fun run :: "('e \<Rightarrow> sub_op \<Rightarrow> 's \<Rightarrow> 'r \<times> 's) \<Rightarrow> ('e \<times> sub_op) list \<Rightarrow> 's \<Rightarrow> (sub_op \<times> 'r) list \<times> 's" where
  "run exec [] s = ([], s)"
| "run exec ((e, op) # calls) s =
     (let (r, s') = exec e op s; (rs, s'') = run exec calls s' in ((op, r) # rs, s''))"

text \<open>
  How a submission may change over time: what was submitted stays, and once decided so do the
  decision, its time and its reason. Only the promotion result may still be attached.
\<close>

definition evolves :: "submission \<Rightarrow> submission \<Rightarrow> bool" where
  "evolves x y \<longleftrightarrow>
     sub_PublicID y = sub_PublicID x \<and> sub_Payload y = sub_Payload x \<and> sub_SubmitterName y = sub_SubmitterName x \<and>
     sub_SubmitterEmail y = sub_SubmitterEmail x \<and> sub_SubmitterNote y = sub_SubmitterNote x \<and>
     sub_CreatedAt y = sub_CreatedAt x \<and>
     (sub_Status x \<noteq> SubmissionPending \<longrightarrow>
        sub_Status y = sub_Status x \<and> sub_ProcessedAt y = sub_ProcessedAt x \<and>
        sub_RejectionReason y = sub_RejectionReason x)"

text \<open>A call that decides the submission and was answered without an error.\<close>

fun decides :: "string \<Rightarrow> sub_op \<times> submission option result \<Rightarrow> bool" where
  "decides pid (OpApprove q, Inr _) = (q = pid)"
| "decides pid (OpReject q _, Inr _) = (q = pid)"
| "decides pid _ = False"

text \<open>
  The contract of a submission store: every call keeps the invariant, has the specified effect or
  none, and answers without an error only with the specified answer and effect.
\<close>

locale submission_queue =
  fixes exec :: "'e \<Rightarrow> sub_op \<Rightarrow> 's \<Rightarrow> submission option result \<times> 's"
    and inv :: "'s \<Rightarrow> bool"
    and abs :: "'s \<Rightarrow> sub_map"
    and ok :: "'e \<Rightarrow> sub_op \<Rightarrow> bool"
    and clock :: "'e \<Rightarrow> instant"
    and newid :: "'e \<Rightarrow> string"
  assumes exec_inv: "inv s \<Longrightarrow> ok e op \<Longrightarrow> exec e op s = (r, s') \<Longrightarrow> inv s'"
    and exec_effect: "inv s \<Longrightarrow> ok e op \<Longrightarrow> exec e op s = (r, s') \<Longrightarrow>
      abs s' = abs s \<or> abs s' = snd (spec_exec (clock e) (newid e) op (abs s))"
    and exec_answer: "inv s \<Longrightarrow> ok e op \<Longrightarrow> exec e op s = (Inr y, s') \<Longrightarrow>
      spec_exec (clock e) (newid e) op (abs s) = (Inr y, abs s')"
begin

lemma evolves_refl: "evolves x x"
  by (simp add: evolves_def)

lemma evolves_trans: "evolves x y \<Longrightarrow> evolves y z \<Longrightarrow> evolves x z"
  by (auto simp: evolves_def)

lemma spec_evolves:
  assumes "m pid = Some x"
  shows "\<exists>y. snd (spec_exec now nid op m) pid = Some y \<and> evolves x y"
  using assms
  by (cases op) (auto simp: decide_def evolves_def spec_update_defs status_defs split: option.splits)

lemma exec_evolves:
  assumes "inv s" "ok e op" "exec e op s = (r, s')" "abs s pid = Some x"
  shows "\<exists>y. abs s' pid = Some y \<and> evolves x y"
proof -
  have "\<exists>y. snd (spec_exec (clock e) (newid e) op (abs s)) pid = Some y \<and> evolves x y"
    by (rule spec_evolves) (rule assms(4))
  with exec_effect [OF assms(1-3)] assms(4) evolves_refl [of x] show ?thesis by auto
qed

lemma run_inv_evolves:
  assumes "inv s" "\<forall>(e, op)\<in>set calls. ok e op" "run exec calls s = (rs, s')"
  shows "inv s' \<and> (\<forall>pid x. abs s pid = Some x \<longrightarrow> (\<exists>y. abs s' pid = Some y \<and> evolves x y))"
  using assms
proof (induction calls arbitrary: s rs)
  case Nil
  then show ?case using evolves_refl by auto
next
  case (Cons c calls)
  obtain e op where c: "c = (e, op)" by fastforce
  obtain r s1 where ex: "exec e op s = (r, s1)" by fastforce
  obtain rs1 where rest: "run exec calls s1 = (rs1, s')"
    using Cons.prems(3) c ex by (auto simp: Let_def split: prod.splits)
  have ok: "ok e op" "\<forall>(e, op)\<in>set calls. ok e op" using Cons.prems(2) c by auto
  note i1 = exec_inv [OF Cons.prems(1) ok(1) ex]
  show ?case
  proof (intro conjI allI impI)
    show "inv s'" using Cons.IH [OF i1 ok(2) rest] by blast
    fix pid x
    assume "abs s pid = Some x"
    from exec_evolves [OF Cons.prems(1) ok(1) ex this] obtain y where "abs s1 pid = Some y" "evolves x y" by blast
    moreover from this(1) Cons.IH [OF i1 ok(2) rest] obtain z where "abs s' pid = Some z" "evolves y z" by blast
    ultimately show "\<exists>y. abs s' pid = Some y \<and> evolves x y" using evolves_trans by blast
  qed
qed

lemma decides_pending:
  assumes "inv s" "ok e op" "exec e op s = (r, s')" "decides pid (op, r)"
  obtains x y where "abs s pid = Some x" "sub_Status x = SubmissionPending"
    "abs s' pid = Some y" "sub_Status y \<noteq> SubmissionPending"
proof -
  obtain y where r: "r = Inr y" using assms(4) by (cases r; cases op) auto
  have spec: "abs s' = snd (spec_exec (clock e) (newid e) op (abs s))"
    "fst (spec_exec (clock e) (newid e) op (abs s)) = Inr y"
    using exec_answer [OF assms(1,2) assms(3) [unfolded r]] by simp_all
  show thesis
    using that spec(2) assms(4) unfolding r spec(1)
    by (cases op) (auto simp: decide_def spec_update_defs status_defs split: option.splits if_splits)
qed

lemma decided_never_again:
  assumes "inv s" "\<forall>(e, op)\<in>set calls. ok e op" "run exec calls s = (rs, s')"
    "abs s pid = Some x" "sub_Status x \<noteq> SubmissionPending"
  shows "filter (decides pid) rs = []"
  using assms
proof (induction calls arbitrary: s rs x)
  case (Cons c calls)
  obtain e op where c: "c = (e, op)" by fastforce
  obtain r s1 where ex: "exec e op s = (r, s1)" by fastforce
  obtain rs1 where rest: "run exec calls s1 = (rs1, s')" and rs: "rs = (op, r) # rs1"
    using Cons.prems(3) c ex by (auto simp: Let_def split: prod.splits)
  have ok: "ok e op" "\<forall>(e, op)\<in>set calls. ok e op" using Cons.prems(2) c by auto
  have no: "\<not> decides pid (op, r)"
    using decides_pending [OF Cons.prems(1) ok(1) ex, of pid] Cons.prems(4,5) by (metis option.inject)
  obtain y where y: "abs s1 pid = Some y" "evolves x y"
    using exec_evolves [OF Cons.prems(1) ok(1) ex Cons.prems(4)] by blast
  then have "sub_Status y \<noteq> SubmissionPending" using Cons.prems(5) by (simp add: evolves_def)
  from Cons.IH [OF exec_inv [OF Cons.prems(1) ok(1) ex] ok(2) rest y(1) this] no rs show ?case by simp
qed simp

lemma decided_once:
  assumes "inv s" "\<forall>(e, op)\<in>set calls. ok e op" "run exec calls s = (rs, s')"
  shows "length (filter (decides pid) rs) \<le> 1"
  using assms
proof (induction calls arbitrary: s rs)
  case (Cons c calls)
  obtain e op where c: "c = (e, op)" by fastforce
  obtain r s1 where ex: "exec e op s = (r, s1)" by fastforce
  obtain rs1 where rest: "run exec calls s1 = (rs1, s')" and rs: "rs = (op, r) # rs1"
    using Cons.prems(3) c ex by (auto simp: Let_def split: prod.splits)
  have ok: "ok e op" "\<forall>(e, op)\<in>set calls. ok e op" using Cons.prems(2) c by auto
  note i1 = exec_inv [OF Cons.prems(1) ok(1) ex]
  show ?case
  proof (cases "decides pid (op, r)")
    case True
    then obtain y where "abs s1 pid = Some y" "sub_Status y \<noteq> SubmissionPending"
      using decides_pending [OF Cons.prems(1) ok(1) ex] by metis
    then have "filter (decides pid) rs1 = []" by (rule decided_never_again [OF i1 ok(2) rest])
    with True rs show ?thesis by simp
  next
    case False
    with Cons.IH [OF i1 ok(2) rest] rs show ?thesis by simp
  qed
qed simp

end

interpretation sq: submission_queue "sqlite_exec J" "db_inv J" "sub_abs J" "env_ok J" ce_now spec_id for J
proof
  fix s e op r s'
  assume a: "db_inv J s" "env_ok J e op" "sqlite_exec J e op s = (r, s')"
  from sqlite_refines_at [OF a(1,2)] a(3) show "db_inv J s'"
    and "sub_abs J s' = sub_abs J s \<or> sub_abs J s' = snd (spec_exec (ce_now e) (spec_id e) op (sub_abs J s))"
    by (auto simp: refines_at_def Let_def split: prod.splits)
next
  fix s e op y s'
  assume a: "db_inv J s" "env_ok J e op" "sqlite_exec J e op s = (Inr y, s')"
  from sqlite_refines_at [OF a(1,2)] a(3)
  show "spec_exec (ce_now e) (spec_id e) op (sub_abs J s) = (Inr y, sub_abs J s')"
    by (auto simp: refines_at_def Let_def split: prod.splits)
qed

end
