(* ===== verification/Usage.thy ===== *)
theory Usage
  imports Submission_Store
begin

text \<open>
  Usage counts: \<open>api/internal/usage/recorder.go\<close>, which accumulates them in memory and flushes them, over
  the table behind \<open>api/internal/store/sqlite/usage.go\<close> (queries of gen/usage_daily.sql.go, migration
  0003).

  The recorder's buffer is a Go map from (day, kind, key) to a count; a flush takes the order of its
  range over the map as an argument. Counts are unbounded here: SQLite's and Go's 64-bit integers are
  far from any count of requests. The recorder writes through the interface \<open>CountStore\<close>, here a
  record of operations with its contract as a locale, interpreted on the SQLite store.
\<close>

type_synonym bucket = "string \<times> string \<times> string"

record usage_count =
  uc_Day :: string
  uc_Kind :: string
  uc_Key :: string
  uc_Count :: int

definition bucket_of :: "usage_count \<Rightarrow> bucket" where
  "bucket_of c = (uc_Day c, uc_Kind c, uc_Key c)"

text \<open>What a batch adds to a bucket.\<close>

definition delta :: "usage_count list \<Rightarrow> bucket \<Rightarrow> int" where
  "delta cs b = sum_list (map uc_Count (filter (\<lambda>c. bucket_of c = b) cs))"

lemma delta_simps [simp]:
  "delta [] b = 0"
  "delta (c # cs) b = (if bucket_of c = b then uc_Count c else 0) + delta cs b"
  by (simp_all add: delta_def)

section \<open>The recorder\<close>

record ('e, 's) count_store =
  cs_UpsertUsageCounts :: "'e \<Rightarrow> usage_count list \<Rightarrow> 's \<Rightarrow> unit result \<times> 's"
  cs_PruneUsage :: "'e \<Rightarrow> string \<Rightarrow> 's \<Rightarrow> unit result \<times> 's"

definition maxKeyLen :: nat where "maxKeyLen = 128"
definition maxBufferedKeys :: nat where "maxBufferedKeys = 10000"

record recorder =
  ur_buf :: "(bucket, int) gomap"
  ur_dropped :: nat

definition new_recorder :: recorder where
  "new_recorder = \<lparr>ur_buf = [], ur_dropped = 0\<rparr>"

definition Increment :: "instant \<Rightarrow> string \<Rightarrow> string \<Rightarrow> recorder \<Rightarrow> recorder" where
  "Increment now kind key r =
     (if kind = [] \<or> key = [] \<or> length key > maxKeyLen then r
      else let bk = (fmt_date now, kind, key) in
        case mget (ur_buf r) bk of
          None \<Rightarrow> if length (ur_buf r) \<ge> maxBufferedKeys then r\<lparr>ur_dropped := ur_dropped r + 1\<rparr>
                  else r\<lparr>ur_buf := mput bk 1 (ur_buf r)\<rparr>
        | Some n \<Rightarrow> r\<lparr>ur_buf := mput bk (n + 1) (ur_buf r)\<rparr>)"

definition buffered_counts :: "(bucket \<times> int) list \<Rightarrow> usage_count list" where
  "buffered_counts es = map (\<lambda>((d, kind, key), n). \<lparr>uc_Day = d, uc_Kind = kind, uc_Key = key, uc_Count = n\<rparr>) es"

definition cutoff_day :: "int \<Rightarrow> instant \<Rightarrow> string" where
  "cutoff_day keepDays now = (if keepDays > 0 then fmt_date (now - keepDays * day) else [])"

text \<open>\<open>es\<close> is the order in which the loop of \<open>Flush\<close> visits the buffer.\<close>

definition Flush :: "('e, 's) count_store \<Rightarrow> int \<Rightarrow> 'e \<Rightarrow> instant \<Rightarrow> (bucket \<times> int) list \<Rightarrow> recorder \<times> 's \<Rightarrow>
    unit result \<times> recorder \<times> 's" where
  "Flush S keepDays E now es rs =
     (let (r, s) = rs in
      if ur_buf r = [] then (Inr (), r, s)
      else
        (let counts = buffered_counts es;
             r' = r\<lparr>ur_buf := [], ur_dropped := 0\<rparr>;
             cutoff = cutoff_day keepDays now in
         case cs_UpsertUsageCounts S E counts s of
           (Inl e, s1) \<Rightarrow> (Inl e, r', s1)
         | (Inr u, s1) \<Rightarrow> (Inr (), r', if cutoff \<noteq> [] then snd (cs_PruneUsage S E cutoff s1) else s1)))"

section \<open>The table\<close>

definition usage_kinds :: "string list" where
  "usage_kinds = [''region_view'', ''org_view'', ''lookup'', ''lookup_tier'', ''lookup_result'', ''lookup_country'']"

type_synonym usage_table = "(bucket, int) gomap"

text \<open>
  A statement run in a loop is named with its key, so that a failure can hit one of the rows.
\<close>

definition q_UpsertUsageCount :: "call_env \<Rightarrow> string \<Rightarrow> string \<Rightarrow> string \<Rightarrow> int \<Rightarrow> usage_table \<Rightarrow> unit result \<times> usage_table" where
  "q_UpsertUsageCount E d kind key n t =
     with_fault E (''UpsertUsageCount '' @ key)
       (if kind \<notin> set usage_kinds then (Inl (Errorf ''CHECK constraint failed: kind'' []), t)
        else (Inr (), mput (d, kind, key) ((case mget t (d, kind, key) of None \<Rightarrow> 0 | Some m \<Rightarrow> m) + n) t)) t"

definition q_PruneUsage :: "call_env \<Rightarrow> string \<Rightarrow> usage_table \<Rightarrow> unit result \<times> usage_table" where
  "q_PruneUsage E cutoff t = with_fault E ''PruneUsage'' (Inr (), filter (\<lambda>x. \<not> fst (fst x) < cutoff) t) t"

fun upsert_loop :: "call_env \<Rightarrow> usage_count list \<Rightarrow> usage_table \<Rightarrow> unit result \<times> usage_table" where
  "upsert_loop E [] t = (Inr (), t)"
| "upsert_loop E (c # cs) t =
     (case q_UpsertUsageCount E (uc_Day c) (uc_Kind c) (uc_Key c) (uc_Count c) t of
        (Inl e, t1) \<Rightarrow>
          (Inl (Wrap (''sqlite.UpsertUsageCounts: '' @ uc_Day c @ ''/'' @ uc_Kind c @ ''/'' @ uc_Key c) e), t1)
      | (Inr u, t1) \<Rightarrow> upsert_loop E cs t1)"

text \<open>One transaction: a failure before COMMIT rolls the table back.\<close>

definition UpsertUsageCounts :: "call_env \<Rightarrow> usage_count list \<Rightarrow> usage_table \<Rightarrow> unit result \<times> usage_table" where
  "UpsertUsageCounts E counts t =
     (if counts = [] then (Inr (), t)
      else case ce_fault E ''BEGIN'' of
        Some e \<Rightarrow> (Inl (Wrap ''sqlite.UpsertUsageCounts: begin'' e), t)
      | None \<Rightarrow>
       (case upsert_loop E counts t of
          (Inl e, t1) \<Rightarrow> (Inl e, t)
        | (Inr u, t1) \<Rightarrow>
           (case ce_fault E ''COMMIT'' of
              Some e \<Rightarrow> (Inl (Wrap ''sqlite.UpsertUsageCounts: commit'' e), if ce_landed E then t1 else t)
            | None \<Rightarrow> (Inr (), t1))))"

definition PruneUsage :: "call_env \<Rightarrow> string \<Rightarrow> usage_table \<Rightarrow> unit result \<times> usage_table" where
  "PruneUsage E cutoffDay t =
     (if cutoffDay = [] then (Inr (), t)
      else case q_PruneUsage E cutoffDay t of
        (Inl e, t1) \<Rightarrow> (Inl (Wrap ''sqlite.PruneUsage'' e), t1)
      | (Inr u, t1) \<Rightarrow> (Inr (), t1))"

definition sqlite_usage :: "(call_env, usage_table) count_store" where
  "sqlite_usage = \<lparr>cs_UpsertUsageCounts = UpsertUsageCounts, cs_PruneUsage = PruneUsage\<rparr>"

section \<open>Reading the table\<close>

record usage_query =
  uq_From :: string
  uq_To :: string
  uq_Kind :: string
  uq_GroupBy :: string
  uq_Limit :: int

definition MaxUsageLimit :: int where "MaxUsageLimit = 1000"
definition DefaultUsageLimit :: int where "DefaultUsageLimit = 100"
definition UsageGroupByDay :: string where "UsageGroupByDay = ''day''"

definition row_count :: "bucket \<times> int \<Rightarrow> usage_count" where
  "row_count x = (case x of ((d, kind, key), n) \<Rightarrow> \<lparr>uc_Day = d, uc_Kind = kind, uc_Key = key, uc_Count = n\<rparr>)"

definition in_range :: "string \<Rightarrow> string \<Rightarrow> usage_count \<Rightarrow> bool" where
  "in_range from_day to_day c \<longleftrightarrow> from_day \<le> uc_Day c \<and> uc_Day c \<le> to_day"

text \<open>ORDER BY count DESC, day DESC, kind ASC, bucket_key ASC\<close>

definition daily_less :: "usage_count \<Rightarrow> usage_count \<Rightarrow> bool" where
  "daily_less a b =
     (if uc_Count a \<noteq> uc_Count b then uc_Count a > uc_Count b
      else if uc_Day a \<noteq> uc_Day b then uc_Day a > uc_Day b
      else if uc_Kind a \<noteq> uc_Kind b then uc_Kind a < uc_Kind b
      else uc_Key a < uc_Key b)"

text \<open>ORDER BY total DESC, kind ASC, bucket_key ASC; with one kind the middle key is constant.\<close>

definition totals_less :: "usage_count \<Rightarrow> usage_count \<Rightarrow> bool" where
  "totals_less a b =
     (if uc_Count a \<noteq> uc_Count b then uc_Count a > uc_Count b
      else if uc_Kind a \<noteq> uc_Kind b then uc_Kind a < uc_Kind b
      else uc_Key a < uc_Key b)"

text \<open>GROUP BY kind, bucket_key with the sum of the counts\<close>

definition group_totals :: "usage_count list \<Rightarrow> usage_count list" where
  "group_totals cs = map (\<lambda>(kind, key). \<lparr>uc_Day = [], uc_Kind = kind, uc_Key = key,
     uc_Count = sum_list (map uc_Count (filter (\<lambda>c. uc_Kind c = kind \<and> uc_Key c = key) cs))\<rparr>)
     (remdups (map (\<lambda>c. (uc_Kind c, uc_Key c)) cs))"

definition q_ListUsage :: "call_env \<Rightarrow> string \<Rightarrow> string \<Rightarrow> int \<Rightarrow> usage_table \<Rightarrow> usage_count list result" where
  "q_ListUsage E from_day to_day limit t = fst (with_fault E ''ListUsage''
     (Inr (take (nat limit) (sort_slice daily_less (filter (in_range from_day to_day) (map row_count t)))), t) t)"

definition q_ListUsageByKind :: "call_env \<Rightarrow> string \<Rightarrow> string \<Rightarrow> string \<Rightarrow> int \<Rightarrow> usage_table \<Rightarrow> usage_count list result" where
  "q_ListUsageByKind E from_day to_day kind limit t = fst (with_fault E ''ListUsageByKind''
     (Inr (take (nat limit) (sort_slice daily_less
       (filter (\<lambda>c. in_range from_day to_day c \<and> uc_Kind c = kind) (map row_count t)))), t) t)"

definition q_ListUsageTotals :: "call_env \<Rightarrow> string \<Rightarrow> string \<Rightarrow> int \<Rightarrow> usage_table \<Rightarrow> usage_count list result" where
  "q_ListUsageTotals E from_day to_day limit t = fst (with_fault E ''ListUsageTotals''
     (Inr (take (nat limit) (sort_slice totals_less
       (group_totals (filter (in_range from_day to_day) (map row_count t))))), t) t)"

definition q_ListUsageTotalsByKind :: "call_env \<Rightarrow> string \<Rightarrow> string \<Rightarrow> string \<Rightarrow> int \<Rightarrow> usage_table \<Rightarrow> usage_count list result" where
  "q_ListUsageTotalsByKind E from_day to_day kind limit t = fst (with_fault E ''ListUsageTotalsByKind''
     (Inr (take (nat limit) (sort_slice totals_less
       (group_totals (filter (\<lambda>c. in_range from_day to_day c \<and> uc_Kind c = kind) (map row_count t))))), t) t)"

definition listUsageTotals :: "call_env \<Rightarrow> usage_query \<Rightarrow> int \<Rightarrow> usage_table \<Rightarrow> usage_count list result" where
  "listUsageTotals E q limit t =
     (if uq_Kind q = []
      then (case q_ListUsageTotals E (uq_From q) (uq_To q) limit t of
          Inl e \<Rightarrow> Inl (Wrap ''sqlite.ListUsage: totals'' e) | Inr rows \<Rightarrow> Inr rows)
      else (case q_ListUsageTotalsByKind E (uq_From q) (uq_To q) (uq_Kind q) limit t of
          Inl e \<Rightarrow> Inl (Wrap ''sqlite.ListUsage: totals by kind'' e) | Inr rows \<Rightarrow> Inr rows))"

definition listUsageByDay :: "call_env \<Rightarrow> usage_query \<Rightarrow> int \<Rightarrow> usage_table \<Rightarrow> usage_count list result" where
  "listUsageByDay E q limit t =
     (case (if uq_Kind q = [] then q_ListUsage E (uq_From q) (uq_To q) limit t
            else q_ListUsageByKind E (uq_From q) (uq_To q) (uq_Kind q) limit t) of
        Inl e \<Rightarrow> Inl (Wrap ''sqlite.ListUsage: by day'' e) | Inr rows \<Rightarrow> Inr rows)"

definition clamp_usage_limit :: "int \<Rightarrow> int" where
  "clamp_usage_limit l = (let l1 = (if l \<le> 0 then DefaultUsageLimit else l) in if l1 > MaxUsageLimit then MaxUsageLimit else l1)"

definition ListUsage :: "call_env \<Rightarrow> usage_query \<Rightarrow> usage_table \<Rightarrow> usage_count list result" where
  "ListUsage E q t =
     (let limit = clamp_usage_limit (uq_Limit q) in
      if uq_GroupBy q = UsageGroupByDay then listUsageByDay E q limit t else listUsageTotals E q limit t)"

section \<open>The contract of the store\<close>

text \<open>
  \<open>count b s\<close> is what the store holds for a bucket. A batch lands as a whole or not at all, and has landed
  when no error is reported; pruning removes nothing but buckets of days before the cutoff, and all of
  them when it succeeds.
\<close>

definition usage_events :: "bucket \<Rightarrow> instant \<Rightarrow> string \<Rightarrow> string \<Rightarrow> int" where
  "usage_events b now kind key =
     (if b = (fmt_date now, kind, key) \<and> kind \<noteq> [] \<and> key \<noteq> [] \<and> length key \<le> maxKeyLen then 1 else 0)"

datatype 'e usage_op = UInc instant string string | UFlush 'e instant "(bucket \<times> int) list"

fun usage_step :: "('e, 's) count_store \<Rightarrow> int \<Rightarrow> 'e usage_op \<Rightarrow> recorder \<times> 's \<Rightarrow> recorder \<times> 's" where
  "usage_step S keepDays (UInc now kind key) (r, s) = (Increment now kind key r, s)"
| "usage_step S keepDays (UFlush E now es) rs = snd (Flush S keepDays E now es rs)"

fun usage_run :: "('e, 's) count_store \<Rightarrow> int \<Rightarrow> 'e usage_op list \<Rightarrow> recorder \<times> 's \<Rightarrow> recorder \<times> 's" where
  "usage_run S keepDays [] rs = rs"
| "usage_run S keepDays (op # ops) rs = usage_run S keepDays ops (usage_step S keepDays op rs)"

text \<open>Every flush visits the buffer it finds.\<close>

fun flush_ranges :: "'e usage_op \<Rightarrow> recorder \<Rightarrow> bool" where
  "flush_ranges (UInc now kind key) r = True"
| "flush_ranges (UFlush E now es) r = ranges_over es (ur_buf r)"

fun usage_ok :: "('e, 's) count_store \<Rightarrow> int \<Rightarrow> 'e usage_op list \<Rightarrow> recorder \<times> 's \<Rightarrow> bool" where
  "usage_ok S keepDays [] rs = True"
| "usage_ok S keepDays (op # ops) rs =
     (flush_ranges op (fst rs) \<and> usage_ok S keepDays ops (usage_step S keepDays op rs))"

text \<open>
  Nothing happens that may lose an event of a bucket: no event meets a full buffer, every flush
  succeeds, and no cutoff passes the bucket's day.
\<close>

fun lossless :: "('e, 's) count_store \<Rightarrow> int \<Rightarrow> bucket \<Rightarrow> 'e usage_op \<Rightarrow> recorder \<times> 's \<Rightarrow> bool" where
  "lossless S keepDays b (UInc now kind key) rs = (length (ur_buf (fst rs)) < maxBufferedKeys)"
| "lossless S keepDays b (UFlush E now es) rs =
     (fst (Flush S keepDays E now es rs) = Inr () \<and> cutoff_day keepDays now \<le> fst b)"

fun usage_lossless :: "('e, 's) count_store \<Rightarrow> int \<Rightarrow> bucket \<Rightarrow> 'e usage_op list \<Rightarrow> recorder \<times> 's \<Rightarrow> bool" where
  "usage_lossless S keepDays b [] rs = True"
| "usage_lossless S keepDays b (op # ops) rs =
     (lossless S keepDays b op rs \<and> usage_lossless S keepDays b ops (usage_step S keepDays op rs))"

fun op_events :: "bucket \<Rightarrow> 'e usage_op \<Rightarrow> int" where
  "op_events b (UInc now kind key) = usage_events b now kind key"
| "op_events b (UFlush E now es) = 0"

definition total_events :: "bucket \<Rightarrow> 'e usage_op list \<Rightarrow> int" where
  "total_events b ops = sum_list (map (op_events b) ops)"

definition buffered :: "bucket \<Rightarrow> recorder \<Rightarrow> int" where
  "buffered b r = (case mget (ur_buf r) b of None \<Rightarrow> 0 | Some n \<Rightarrow> n)"

definition recorder_inv :: "recorder \<Rightarrow> bool" where
  "recorder_inv r \<longleftrightarrow> wf_map (ur_buf r) \<and> length (ur_buf r) \<le> maxBufferedKeys \<and>
     list_all (\<lambda>((d, kind, key), n). kind \<noteq> [] \<and> key \<noteq> [] \<and> length key \<le> maxKeyLen \<and> 1 \<le> n) (ur_buf r)"

lemma length_mput: "length (mput k v m) = (if mget m k = None then length m + 1 else length m)"
  by (induction m) (auto simp: mput_def mget_def)

lemma mput_all:
  "list_all P m \<Longrightarrow> P (k, v) \<Longrightarrow> list_all P (mput k v m)"
  by (induction m) (auto simp: mput_def)

lemma mget_all: "list_all P m \<Longrightarrow> mget m k = Some v \<Longrightarrow> P (k, v)"
  by (auto simp: list_all_iff dest: mget_set)

lemma Increment_inv:
  assumes "recorder_inv r" shows "recorder_inv (Increment now kind key r)"
proof (cases "kind = [] \<or> key = [] \<or> length key > maxKeyLen")
  case True
  then show ?thesis using assms by (simp add: Increment_def)
next
  case False
  let ?b = "(fmt_date now, kind, key)"
  show ?thesis
  proof (cases "mget (ur_buf r) ?b")
    case None
    with False assms show ?thesis
      by (auto simp: Increment_def Let_def recorder_inv_def length_mput intro: mput_all)
  next
    case (Some n)
    then have "1 \<le> n" using assms mget_all [of _ "ur_buf r" ?b n] by (auto simp: recorder_inv_def)
    with False assms Some show ?thesis
      by (auto simp: Increment_def Let_def recorder_inv_def length_mput intro: mput_all)
  qed
qed

lemma buffered_Increment:
  "buffered b (Increment now kind key r) =
     buffered b r + (if length (ur_buf r) \<ge> maxBufferedKeys \<and> mget (ur_buf r) (fmt_date now, kind, key) = None then 0
       else usage_events b now kind key)"
  by (auto simp: Increment_def buffered_def usage_events_def Let_def split: option.splits)

lemma usage_events_nonneg: "0 \<le> usage_events b now kind key"
  by (simp add: usage_events_def)

lemma delta_buffered: "wf_map es \<Longrightarrow> delta (buffered_counts es) b = (case mget es b of None \<Rightarrow> 0 | Some n \<Rightarrow> n)"
proof (induction es)
  case (Cons x es)
  obtain d kind key n where x: "x = ((d, kind, key), n)" by (metis prod.exhaust)
  have "mget es (d, kind, key) = None" using Cons.prems x by (auto simp: wf_map_def mget_def map_of_eq_None_iff)
  with Cons x show ?case by (auto simp: buffered_counts_def bucket_of_def mget_Cons wf_map_def split: option.splits)
qed (simp add: buffered_counts_def)

lemma buffered_nonneg: "recorder_inv r \<Longrightarrow> 0 \<le> buffered b r"
  using mget_all [of _ "ur_buf r" b] by (fastforce simp: recorder_inv_def buffered_def split: option.splits)

lemma Flush_inv: "recorder_inv r \<Longrightarrow> recorder_inv (fst (snd (Flush S keepDays E now es (r, s))))"
  by (auto simp: Flush_def Let_def recorder_inv_def split: prod.splits sum.splits)

lemma usage_step_inv: "recorder_inv (fst rs) \<Longrightarrow> recorder_inv (fst (usage_step S keepDays op rs))"
  using Increment_inv Flush_inv by (cases op; cases rs) auto

lemma usage_run_inv: "recorder_inv (fst rs) \<Longrightarrow> recorder_inv (fst (usage_run S keepDays ops rs))"
proof (induction ops arbitrary: rs)
  case (Cons op ops)
  then show ?case using Cons.IH [OF usage_step_inv [OF Cons.prems]] by simp
qed simp

locale count_store_contract =
  fixes S :: "('e, 's) count_store"
    and count :: "bucket \<Rightarrow> 's \<Rightarrow> int"
  assumes upsert_effect: "cs_UpsertUsageCounts S E cs s = (r, s') \<Longrightarrow>
      (\<forall>b. count b s' = count b s) \<or> (\<forall>b. count b s' = count b s + delta cs b)"
    and upsert_done: "cs_UpsertUsageCounts S E cs s = (Inr u, s') \<Longrightarrow> count b s' = count b s + delta cs b"
    and prune_effect: "cs_PruneUsage S E cutoff s = (r, s') \<Longrightarrow>
      count b s' = count b s \<or> fst b < cutoff \<and> count b s' = 0"
    and prune_done: "cs_PruneUsage S E cutoff s = (Inr u, s') \<Longrightarrow> cutoff \<noteq> [] \<Longrightarrow> fst b < cutoff \<Longrightarrow> count b s' = 0"
begin

lemma Flush_counts:
  assumes inv: "recorder_inv r" and es: "ranges_over es (ur_buf r)" and nonneg: "0 \<le> count b s"
    and fl: "Flush S keepDays E now es (r, s) = (res, r', s')"
  shows "0 \<le> count b s'" "buffered b r' = 0" "count b s' \<le> count b s + buffered b r"
    "res = Inr () \<Longrightarrow> cutoff_day keepDays now \<le> fst b \<Longrightarrow> count b s' = count b s + buffered b r"
proof -
  have "wf_map es" "mget es = mget (ur_buf r)"
    using inv es ranges_over_wf ranges_over_mget by (auto simp: recorder_inv_def)
  then have d: "delta (buffered_counts es) b = buffered b r" by (simp add: delta_buffered buffered_def)
  have bn: "0 \<le> buffered b r" by (rule buffered_nonneg) fact
  obtain u s1 where up: "cs_UpsertUsageCounts S E (buffered_counts es) s = (u, s1)" by fastforce
  obtain v s2 where pr: "cs_PruneUsage S E (cutoff_day keepDays now) s1 = (v, s2)" by fastforce
  have s1: "count b s1 = count b s \<or> count b s1 = count b s + buffered b r" "\<And>w. u = Inr w \<Longrightarrow> count b s1 = count b s + buffered b r"
  proof -
    show "count b s1 = count b s \<or> count b s1 = count b s + buffered b r"
      using upsert_effect [OF up] d by metis
    show "count b s1 = count b s + buffered b r" if "u = Inr w" for w
      using upsert_done [OF up [unfolded that], of b] d by simp
  qed
  have s2: "count b s2 = count b s1 \<or> fst b < cutoff_day keepDays now \<and> count b s2 = 0" by (rule prune_effect [OF pr])
  have end_state: "s' = s \<and> buffered b r = 0 \<or> s' = s1 \<or> (\<exists>w. u = Inr w) \<and> s' = s2"
    and empty: "ur_buf r' = []" and ok: "res = Inr () \<Longrightarrow> s' = s \<and> buffered b r = 0 \<or> (\<exists>w. u = Inr w)"
    using fl up pr by (auto simp: Flush_def Let_def buffered_def split: sum.splits if_splits)
  show "buffered b r' = 0" using empty by (simp add: buffered_def)
  have s2_le: "0 \<le> count b s2 \<and> count b s2 \<le> count b s1" using s1(1) s2 nonneg bn by linarith
  have s1_le: "0 \<le> count b s1 \<and> count b s1 \<le> count b s + buffered b r" using s1(1) nonneg bn by linarith
  from end_state consider "s' = s" | "s' = s1" | "s' = s2" by blast
  then have "0 \<le> count b s' \<and> count b s' \<le> count b s + buffered b r"
    using s1_le s2_le nonneg bn by cases simp_all
  then show "0 \<le> count b s'" "count b s' \<le> count b s + buffered b r" by simp_all
  show "count b s' = count b s + buffered b r" if res: "res = Inr ()" and day: "cutoff_day keepDays now \<le> fst b"
  proof -
    from day s2 have "count b s2 = count b s1" by (metis leD)
    with end_state ok [OF res] s1(2) show ?thesis by (elim disjE conjE exE) simp_all
  qed
qed

lemma usage_step_counts:
  assumes "recorder_inv (fst rs)" "flush_ranges op (fst rs)" "0 \<le> count b (snd rs)"
    and "usage_step S keepDays op rs = rs'"
  shows "0 \<le> count b (snd rs') \<and>
    count b (snd rs') + buffered b (fst rs') \<le> count b (snd rs) + buffered b (fst rs) + op_events b op \<and>
    (lossless S keepDays b op rs \<longrightarrow>
      count b (snd rs') + buffered b (fst rs') = count b (snd rs) + buffered b (fst rs) + op_events b op)"
proof (cases op)
  case (UInc now kind key)
  obtain r s where rs: "rs = (r, s)" by fastforce
  with UInc assms show ?thesis using usage_events_nonneg [of b now kind key] by (auto simp: buffered_Increment)
next
  case (UFlush E now es)
  obtain r s where rs: "rs = (r, s)" by fastforce
  obtain res r' s' where fl: "Flush S keepDays E now es (r, s) = (res, r', s')" by (metis prod.exhaust)
  with UFlush assms(4) rs have rs': "rs' = (r', s')" by simp
  have "recorder_inv r" "ranges_over es (ur_buf r)" "0 \<le> count b s" using assms(1-3) UFlush rs by simp_all
  from Flush_counts [OF this fl] UFlush rs rs' fl show ?thesis by simp
qed

text \<open>No event is ever counted twice, and none is lost in a history without loss.\<close>

lemma usage_run_counts:
  assumes "recorder_inv (fst rs)" "usage_ok S keepDays ops rs" "0 \<le> count b (snd rs)"
    and "usage_run S keepDays ops rs = rs'"
  shows "0 \<le> count b (snd rs') \<and>
    count b (snd rs') + buffered b (fst rs') \<le> count b (snd rs) + buffered b (fst rs) + total_events b ops \<and>
    (usage_lossless S keepDays b ops rs \<longrightarrow>
      count b (snd rs') + buffered b (fst rs') = count b (snd rs) + buffered b (fst rs) + total_events b ops)"
  using assms
proof (induction ops arbitrary: rs)
  case Nil
  then show ?case by (simp add: total_events_def)
next
  case (Cons op ops)
  define rs1 where "rs1 = usage_step S keepDays op rs"
  have ranges: "flush_ranges op (fst rs)" using Cons.prems(2) by simp
  note step = usage_step_counts [OF Cons.prems(1) ranges Cons.prems(3) rs1_def [symmetric]]
  have "recorder_inv (fst rs1)" unfolding rs1_def using Cons.prems(1) by (rule usage_step_inv)
  moreover have "usage_ok S keepDays ops rs1" "usage_run S keepDays ops rs1 = rs'"
    using Cons.prems(2,4) by (simp_all add: rs1_def)
  ultimately have "0 \<le> count b (snd rs') \<and>
    count b (snd rs') + buffered b (fst rs') \<le> count b (snd rs1) + buffered b (fst rs1) + total_events b ops \<and>
    (usage_lossless S keepDays b ops rs1 \<longrightarrow>
      count b (snd rs') + buffered b (fst rs') = count b (snd rs1) + buffered b (fst rs1) + total_events b ops)"
    using step by (intro Cons.IH) simp_all
  with step show ?case by (auto simp: total_events_def rs1_def [symmetric])
qed

end

section \<open>The SQLite store keeps the contract\<close>

definition table_count :: "bucket \<Rightarrow> usage_table \<Rightarrow> int" where
  "table_count b t = (case mget t b of None \<Rightarrow> 0 | Some n \<Rightarrow> n)"

lemma table_count_mput [simp]: "table_count b (mput b' n t) = (if b' = b then n else table_count b t)"
  by (simp add: table_count_def)

lemma mget_filter_key: "mget (filter (\<lambda>x. Q (fst x)) t) k = (if Q k then mget t k else None)"
  by (induction t) (auto simp: mget_def)

lemma q_Upsert_count:
  "q_UpsertUsageCount E d kind key n t = (Inr u, t') \<Longrightarrow>
     table_count b t' = table_count b t + (if (d, kind, key) = b then n else 0)"
  by (auto simp: q_UpsertUsageCount_def with_fault_def table_count_def split: option.splits if_splits)

lemma upsert_loop_count:
  "upsert_loop E cs t = (Inr u, t') \<Longrightarrow> table_count b t' = table_count b t + delta cs b"
proof (induction cs arbitrary: t)
  case (Cons c cs)
  from Cons.prems obtain t1 where q: "q_UpsertUsageCount E (uc_Day c) (uc_Kind c) (uc_Key c) (uc_Count c) t = (Inr (), t1)"
    and rest: "upsert_loop E cs t1 = (Inr u, t')" by (auto split: prod.splits sum.splits)
  from q_Upsert_count [OF q, of b] Cons.IH [OF rest] show ?case by (simp add: bucket_of_def)
qed simp

lemma Upsert_done: "UpsertUsageCounts E cs t = (Inr u, t') \<Longrightarrow> table_count b t' = table_count b t + delta cs b"
  by (auto simp: UpsertUsageCounts_def upsert_loop_count split: if_splits option.splits prod.splits sum.splits)

lemma Upsert_effect:
  assumes "UpsertUsageCounts E cs t = (r, t')"
  shows "t' = t \<or> (\<forall>b. table_count b t' = table_count b t + delta cs b)"
proof (cases "upsert_loop E cs t")
  case (Pair q t1)
  show ?thesis
  proof (cases q)
    case (Inl e)
    with assms Pair have "t' = t" by (auto simp: UpsertUsageCounts_def split: if_splits option.splits)
    then show ?thesis ..
  next
    case (Inr u)
    with Pair have "table_count b t1 = table_count b t + delta cs b" for b using upsert_loop_count by blast
    moreover have "t' = t \<or> t' = t1"
      using assms Pair Inr by (auto simp: UpsertUsageCounts_def split: if_splits option.splits)
    ultimately show ?thesis by blast
  qed
qed

lemma table_count_prune: "table_count b (filter (\<lambda>x. \<not> fst (fst x) < cutoff) t) = (if fst b < cutoff then 0 else table_count b t)"
  for b :: bucket
  unfolding table_count_def mget_filter_key [of "\<lambda>k. \<not> fst k < cutoff"] by simp

interpretation sqlite_usage: count_store_contract sqlite_usage table_count
proof
  fix E cs s r s'
  assume "cs_UpsertUsageCounts sqlite_usage E cs s = (r, s')"
  then show "(\<forall>b. table_count b s' = table_count b s) \<or> (\<forall>b. table_count b s' = table_count b s + delta cs b)"
    using Upsert_effect [of E cs s r s'] unfolding sqlite_usage_def count_store.simps by metis
next
  fix E cs s u s' and b :: bucket
  assume "cs_UpsertUsageCounts sqlite_usage E cs s = (Inr u, s')"
  then show "table_count b s' = table_count b s + delta cs b"
    using Upsert_done [of E cs s u s' b] unfolding sqlite_usage_def count_store.simps by metis
next
  fix E cutoff s r s' and b :: bucket
  assume "cs_PruneUsage sqlite_usage E cutoff s = (r, s')"
  then show "table_count b s' = table_count b s \<or> fst b < cutoff \<and> table_count b s' = 0"
    by (auto simp: sqlite_usage_def PruneUsage_def q_PruneUsage_def with_fault_def table_count_prune
        split: if_splits option.splits)
next
  fix E cutoff s u s' and b :: bucket
  assume "cs_PruneUsage sqlite_usage E cutoff s = (Inr u, s')" "cutoff \<noteq> []" "fst b < cutoff"
  then show "table_count b s' = 0"
    by (auto simp: sqlite_usage_def PruneUsage_def q_PruneUsage_def with_fault_def table_count_prune
        split: if_splits option.splits)
qed

section \<open>Retention\<close>

lemma date_less_iff: "civil_less (date_of a) (date_of b) \<longleftrightarrow> a div day < b div day"
  by (simp add: date_of_def civil_of_day_less_iff)

lemma days_before: "(now - n * day) div day = now div day - n"
proof -
  have "day \<noteq> 0" by (simp add: duration_defs)
  then show ?thesis using div_mult_self1 [of day now "- n"] by simp
qed

lemma upsert_loop_done:
  "(\<And>stmt. ce_fault E stmt = None) \<Longrightarrow> \<forall>c\<in>set cs. uc_Kind c \<in> set usage_kinds \<Longrightarrow> \<exists>t'. upsert_loop E cs t = (Inr (), t')"
  by (induction cs arbitrary: t) (auto simp: q_UpsertUsageCount_def with_fault_def)

lemma Upsert_fault_free:
  assumes "\<And>stmt. ce_fault E stmt = None" "\<forall>c\<in>set cs. uc_Kind c \<in> set usage_kinds"
  shows "\<exists>t'. UpsertUsageCounts E cs t = (Inr (), t')"
proof -
  from upsert_loop_done [OF assms] obtain t' where "upsert_loop E cs t = (Inr (), t')" by blast
  then show ?thesis using assms(1) by (simp add: UpsertUsageCounts_def)
qed

lemma PruneUsage_fault_free:
  "(\<And>stmt. ce_fault E stmt = None) \<Longrightarrow> c \<noteq> [] \<Longrightarrow> PruneUsage E c t = (Inr (), filter (\<lambda>x. \<not> fst (fst x) < c) t)"
  by (simp add: PruneUsage_def q_PruneUsage_def with_fault_def)

section \<open>Totals\<close>

interpretation totals_order: weak_order totals_less
  unfolding totals_less_def by (intro weak_order_then_desc weak_order_then weak_order_key)

interpretation daily_order: weak_order daily_less
  unfolding daily_less_def by (intro weak_order_then_desc weak_order_then weak_order_key)

text \<open>What was counted for a key over a range of days.\<close>

definition range_total :: "usage_table \<Rightarrow> string \<Rightarrow> string \<Rightarrow> string \<Rightarrow> string \<Rightarrow> int" where
  "range_total t from_day to_day kind key = sum_list (map snd (filter (\<lambda>((d, k, x), n).
     from_day \<le> d \<and> d \<le> to_day \<and> k = kind \<and> x = key) t))"

definition in_query :: "usage_query \<Rightarrow> usage_count \<Rightarrow> bool" where
  "in_query q c \<longleftrightarrow> in_range (uq_From q) (uq_To q) c \<and> (uq_Kind q = [] \<or> uc_Kind c = uq_Kind q)"

lemma distinct_group_totals: "distinct (map (\<lambda>c. (uc_Kind c, uc_Key c)) (group_totals cs))"
  by (simp add: group_totals_def comp_def case_prod_unfold)

lemma group_totals_keys: "(\<lambda>c. (uc_Kind c, uc_Key c)) ` set (group_totals cs) = (\<lambda>c. (uc_Kind c, uc_Key c)) ` set cs"
proof -
  have "map (\<lambda>c. (uc_Kind c, uc_Key c)) (group_totals cs) = remdups (map (\<lambda>c. (uc_Kind c, uc_Key c)) cs)"
    by (simp add: group_totals_def comp_def case_prod_unfold)
  then have "set (map (\<lambda>c. (uc_Kind c, uc_Key c)) (group_totals cs)) = set (map (\<lambda>c. (uc_Kind c, uc_Key c)) cs)" by simp
  then show ?thesis by simp
qed

lemma sum_filter_rows:
  "sum_list (map uc_Count (filter (\<lambda>c. uc_Kind c = kind \<and> uc_Key c = key)
     (filter (\<lambda>c. in_range f e c \<and> P (uc_Kind c)) (map row_count t)))) =
   (if P kind then range_total t f e kind key else 0)"
  by (induction t) (auto simp: range_total_def row_count_def in_range_def)

lemma group_totals_count:
  assumes "c \<in> set (group_totals (filter (\<lambda>c. in_range f e c \<and> P (uc_Kind c)) (map row_count t)))"
  shows "uc_Day c = [] \<and> uc_Count c = range_total t f e (uc_Kind c) (uc_Key c)"
proof -
  from assms obtain x where x: "x \<in> set t" "P (uc_Kind (row_count x))" "uc_Kind c = uc_Kind (row_count x)" "uc_Day c = []"
    and n: "uc_Count c = sum_list (map uc_Count (filter (\<lambda>y. uc_Kind y = uc_Kind c \<and> uc_Key y = uc_Key c)
      (filter (\<lambda>c. in_range f e c \<and> P (uc_Kind c)) (map row_count t))))"
    by (auto simp: group_totals_def)
  with sum_filter_rows [of "uc_Kind c" "uc_Key c" f e P t] show ?thesis by simp
qed

section \<open>Properties\<close>

lemma new_recorder_inv: "recorder_inv new_recorder"
  by (simp add: recorder_inv_def new_recorder_def)

text \<open>
  C23. Over any history of increments and flushes, with statements and commits failing in any way, no
  event is counted twice: for every bucket, the table and the buffer together hold at most the events
  that were reported for it. When nothing happened that may lose an event of the bucket (no full buffer,
  no failed flush, no cutoff past its day), they hold exactly those. The buffer never has more than
  \<open>maxBufferedKeys\<close> keys and only counts of at least one under keys of at most \<open>maxKeyLen\<close> bytes.
\<close>

theorem usage_counts_exact:
  assumes "usage_ok sqlite_usage keepDays ops (new_recorder, [])"
    and "usage_run sqlite_usage keepDays ops (new_recorder, []) = (r, t)"
  shows "table_count b t + buffered b r \<le> total_events b ops \<and>
    (usage_lossless sqlite_usage keepDays b ops (new_recorder, []) \<longrightarrow> table_count b t + buffered b r = total_events b ops) \<and>
    recorder_inv r"
proof -
  have "0 \<le> table_count b []" "table_count b [] + buffered b new_recorder = 0"
    by (simp_all add: table_count_def buffered_def new_recorder_def)
  with sqlite_usage.usage_run_counts [of "(new_recorder, [])" keepDays ops b "(r, t)"] assms new_recorder_inv
  have "table_count b t + buffered b r \<le> total_events b ops \<and>
    (usage_lossless sqlite_usage keepDays b ops (new_recorder, []) \<longrightarrow> table_count b t + buffered b r = total_events b ops)"
    by simp
  moreover have "recorder_inv r" using usage_run_inv [of "(new_recorder, [])" sqlite_usage keepDays ops] assms(2) new_recorder_inv by simp
  ultimately show ?thesis by blast
qed

text \<open>
  A flush whose statements succeed adds the buffer to the table, empties it, and applies the
  retention by calendar day: what was counted for an instant stays exactly when its UTC day is at most
  \<open>keepDays\<close> days before the day of the flush.
\<close>

theorem usage_retention:
  assumes "recorder_inv r" "ranges_over es (ur_buf r)" "ur_buf r \<noteq> []" "0 < keepDays"
    and "four_digit_year now" "four_digit_year (now - keepDays * day)" "four_digit_year at"
    and "\<And>stmt. ce_fault E stmt = None" "\<forall>b\<in>mkeys (ur_buf r). fst (snd b) \<in> set usage_kinds"
  shows "\<exists>r' t'. Flush sqlite_usage keepDays E now es (r, t) = (Inr (), r', t') \<and> ur_buf r' = [] \<and>
    table_count (fmt_date at, kind, key) t' =
      (if at div day < now div day - keepDays then 0
       else table_count (fmt_date at, kind, key) t + buffered (fmt_date at, kind, key) r)"
proof -
  let ?b = "(fmt_date at, kind, key)" and ?c = "fmt_date (now - keepDays * day)"
  have wf: "wf_map es" and m: "mget es = mget (ur_buf r)"
    using assms(1,2) ranges_over_wf ranges_over_mget by (auto simp: recorder_inv_def)
  have "\<forall>c\<in>set (buffered_counts es). uc_Kind c \<in> set usage_kinds"
  proof
    fix c assume "c \<in> set (buffered_counts es)"
    then obtain d k x n where "((d, k, x), n) \<in> set (ur_buf r)" "uc_Kind c = k"
      using ranges_over_set [OF assms(2)] by (auto simp: buffered_counts_def)
    then show "uc_Kind c \<in> set usage_kinds" using assms(9) by (force simp: mkeys_def)
  qed
  with Upsert_fault_free [of E "buffered_counts es" t] assms(8) obtain t1 where
    up: "UpsertUsageCounts E (buffered_counts es) t = (Inr (), t1)" by blast
  have c: "cutoff_day keepDays now = ?c" "?c \<noteq> []"
    using assms(4) length_fmt_date [OF assms(6)] by (auto simp: cutoff_day_def)
  define t' where "t' = filter (\<lambda>x. \<not> fst (fst x) < ?c) t1"
  have pr: "PruneUsage E ?c t1 = (Inr (), t')" unfolding t'_def by (rule PruneUsage_fault_free) (use assms(8) c in auto)
  have fl: "Flush sqlite_usage keepDays E now es (r, t) = (Inr (), r\<lparr>ur_buf := [], ur_dropped := 0\<rparr>, t')"
    using assms(3) up pr c by (simp add: Flush_def Let_def sqlite_usage_def)
  have "table_count ?b t1 = table_count ?b t + buffered ?b r"
    using Upsert_done [OF up] delta_buffered [OF wf] m by (simp add: buffered_def)
  moreover have "fmt_date at < ?c \<longleftrightarrow> at div day < now div day - keepDays"
    using fmt_date_less(1) [OF assms(7,6)] by (simp add: date_less_iff days_before)
  ultimately have "table_count ?b t' = (if at div day < now div day - keepDays then 0 else table_count ?b t + buffered ?b r)"
    unfolding t'_def table_count_prune by simp
  with fl show ?thesis by simp
qed

text \<open>
  The aggregated read returns the top buckets of the range: each with the sum of its daily counts
  over the days asked for, once, ordered by that sum, and a bucket that is left out only because the
  limit is reached and then with no larger sum than any that is returned.
\<close>

theorem ListUsage_top_totals:
  assumes "\<And>stmt. ce_fault E stmt = None" "uq_GroupBy q \<noteq> UsageGroupByDay"
  shows "\<exists>out. ListUsage E q t = Inr out \<and> sorted_wrt (\<lambda>x y. \<not> totals_less y x) out \<and>
    distinct (map (\<lambda>c. (uc_Kind c, uc_Key c)) out) \<and> length out \<le> nat (clamp_usage_limit (uq_Limit q)) \<and>
    (\<forall>c\<in>set out. uc_Day c = [] \<and> uc_Count c = range_total t (uq_From q) (uq_To q) (uc_Kind c) (uc_Key c)) \<and>
    (\<forall>x\<in>set t. in_query q (row_count x) \<longrightarrow>
       (\<exists>c\<in>set out. uc_Kind c = uc_Kind (row_count x) \<and> uc_Key c = uc_Key (row_count x)) \<or>
       length out = nat (clamp_usage_limit (uq_Limit q)) \<and>
       (\<forall>c\<in>set out. range_total t (uq_From q) (uq_To q) (uc_Kind (row_count x)) (uc_Key (row_count x)) \<le> uc_Count c))"
proof -
  define P where "P k \<longleftrightarrow> uq_Kind q = [] \<or> k = uq_Kind q" for k
  define rows where "rows = filter (\<lambda>c. in_range (uq_From q) (uq_To q) c \<and> P (uc_Kind c)) (map row_count t)"
  define all where "all = sort_slice totals_less (group_totals rows)"
  define lim where "lim = nat (clamp_usage_limit (uq_Limit q))"
  let ?key = "\<lambda>c. (uc_Kind c, uc_Key c)"
  have out: "ListUsage E q t = Inr (take lim all)"
    using assms unfolding all_def rows_def lim_def
    by (simp add: ListUsage_def listUsageTotals_def q_ListUsageTotals_def q_ListUsageTotalsByKind_def with_fault_def
        Let_def P_def cong: filter_cong)
  have ord: "sorted_wrt (\<lambda>x y. \<not> totals_less y x) all" unfolding all_def by (rule totals_order.sort_ordered)
  have "mset (map ?key all) = mset (map ?key (group_totals rows))" by (simp add: all_def)
  then have dist: "distinct (map ?key all)" using distinct_group_totals mset_eq_imp_distinct_iff by blast
  have count: "uc_Day c = [] \<and> uc_Count c = range_total t (uq_From q) (uq_To q) (uc_Kind c) (uc_Key c)" if "c \<in> set all" for c
    using that group_totals_count [of c "uq_From q" "uq_To q" P t] unfolding all_def rows_def by simp
  have left: "(\<exists>c\<in>set (take lim all). ?key c = ?key (row_count x)) \<or> length (take lim all) = lim \<and>
      (\<forall>c\<in>set (take lim all). range_total t (uq_From q) (uq_To q) (uc_Kind (row_count x)) (uc_Key (row_count x)) \<le> uc_Count c)"
    if x: "x \<in> set t" "in_query q (row_count x)" for x
  proof -
    have "row_count x \<in> set rows" using x by (auto simp: rows_def P_def in_query_def)
    then have "?key (row_count x) \<in> ?key ` set all" using group_totals_keys [of rows] by (auto simp: all_def)
    then obtain a where a: "a \<in> set all" "?key a = ?key (row_count x)" by auto
    show ?thesis
    proof (cases "a \<in> set (take lim all)")
      case True
      with a show ?thesis by blast
    next
      case False
      with a(1) have drop: "a \<in> set (drop lim all)" by (metis UnE append_take_drop_id set_append)
      then have "length (take lim all) = lim" by (cases "length all \<le> lim") auto
      moreover have "uc_Count a \<le> uc_Count c" if "c \<in> set (take lim all)" for c
      proof -
        have "\<not> totals_less a c" using ord that drop by (metis append_take_drop_id sorted_wrt_append)
        then show ?thesis by (auto simp: totals_less_def split: if_splits)
      qed
      ultimately show ?thesis using count [OF a(1)] a(2) by auto
    qed
  qed
  have "sorted_wrt (\<lambda>x y. \<not> totals_less y x) (take lim all)" by (rule sorted_wrt_take [OF ord])
  moreover have "distinct (map ?key (take lim all))" using dist by (simp add: take_map [symmetric])
  moreover have "\<forall>c\<in>set (take lim all). uc_Day c = [] \<and> uc_Count c = range_total t (uq_From q) (uq_To q) (uc_Kind c) (uc_Key c)"
    using count by (auto dest: in_set_takeD)
  ultimately show ?thesis using out left unfolding lim_def by (intro exI [of _ "take lim all"]) (auto simp: lim_def)
qed

section \<open>Witnesses\<close>

definition demo_usage_env :: call_env where
  "demo_usage_env = \<lparr>ce_now = 0, ce_newid = Inr ''a'', ce_fault = (\<lambda>_. None), ce_landed = True\<rparr>"

definition demo_bucket :: bucket where
  "demo_bucket = (''0001-01-01'', ''lookup'', ''ny'')"

definition demo_ops :: "call_env usage_op list" where
  "demo_ops = [UInc 0 ''lookup'' ''ny'', UFlush demo_usage_env 0 [(demo_bucket, 1)], UInc 0 ''lookup'' ''ny'']"

lemma demo_day: "fmt_date 0 = ''0001-01-01''"
  by code_simp

lemma demo_Increment: "ur_buf (Increment 0 ''lookup'' ''ny'' new_recorder) = [(demo_bucket, 1)]"
  by (simp add: Increment_def new_recorder_def maxKeyLen_def maxBufferedKeys_def demo_day demo_bucket_def mput_def)

lemma demo_flush:
  "ur_buf r = [(demo_bucket, 1)] \<Longrightarrow> Flush sqlite_usage 0 demo_usage_env 0 [(demo_bucket, 1)] (r, []) =
     (Inr (), r\<lparr>ur_buf := [], ur_dropped := 0\<rparr>, [(demo_bucket, 1)])"
  by (simp add: Flush_def sqlite_usage_def UpsertUsageCounts_def buffered_counts_def q_UpsertUsageCount_def
      with_fault_def usage_kinds_def demo_usage_env_def demo_bucket_def cutoff_day_def mput_def mget_def)

theorem usage_counts_exact_witness:
  "let (r, t) = usage_run sqlite_usage 0 demo_ops (new_recorder, []) in
     table_count demo_bucket t + buffered demo_bucket r = 2"
proof -
  let ?r1 = "Increment 0 ''lookup'' ''ny'' new_recorder"
  have ok: "usage_ok sqlite_usage 0 demo_ops (new_recorder, [])"
    by (simp add: demo_ops_def demo_Increment ranges_over_def)
  have "lossless sqlite_usage 0 demo_bucket (UFlush demo_usage_env 0 [(demo_bucket, 1)]) (?r1, [])"
    using demo_flush [OF demo_Increment] by (simp add: cutoff_day_def demo_bucket_def)
  then have less: "usage_lossless sqlite_usage 0 demo_bucket demo_ops (new_recorder, [])"
    using demo_flush [OF demo_Increment] by (simp add: demo_ops_def new_recorder_def maxBufferedKeys_def)
  have n: "total_events demo_bucket demo_ops = 2"
    by (simp add: total_events_def demo_ops_def usage_events_def demo_day demo_bucket_def maxKeyLen_def)
  obtain r t where run: "usage_run sqlite_usage 0 demo_ops (new_recorder, []) = (r, t)" by (metis prod.exhaust)
  from usage_counts_exact [OF ok run, of demo_bucket] less n run show ?thesis by simp
qed

theorem usage_retention_witness:
  "\<exists>r' t'. Flush sqlite_usage 1 demo_usage_env (2 * day) [(demo_bucket, 1)]
      (Increment 0 ''lookup'' ''ny'' new_recorder, []) = (Inr (), r', t') \<and> table_count demo_bucket t' = 0"
proof -
  have y: "four_digit_year (2 * day)" "four_digit_year (2 * day - 1 * day)" "four_digit_year 0" by code_simp+
  have d: "(0 :: int) div day < 2 * day div day - 1" by (simp add: duration_defs)
  have inv: "recorder_inv (Increment 0 ''lookup'' ''ny'' new_recorder)" by (rule Increment_inv) (rule new_recorder_inv)
  from usage_retention [OF inv, where es = "[(demo_bucket, 1)]" and keepDays = 1 and now = "2 * day" and at = 0
      and E = demo_usage_env and t = "[]" and kind = "''lookup''" and key = "''ny''"] y d
  show ?thesis
    unfolding demo_Increment demo_day
    by (auto simp: demo_usage_env_def mkeys_def demo_bucket_def usage_kinds_def)
qed

definition demo_usage_query :: usage_query where
  "demo_usage_query = \<lparr>uq_From = ''0001-01-01'', uq_To = ''0001-01-31'', uq_Kind = [], uq_GroupBy = ''key'', uq_Limit = 0\<rparr>"

theorem ListUsage_top_totals_witness:
  "\<exists>out. ListUsage demo_usage_env demo_usage_query [(demo_bucket, 3)] = Inr out \<and>
     (\<forall>c\<in>set out. uc_Count c = range_total [(demo_bucket, 3)] ''0001-01-01'' ''0001-01-31'' (uc_Kind c) (uc_Key c))"
proof -
  have "\<And>stmt. ce_fault demo_usage_env stmt = None" "uq_GroupBy demo_usage_query \<noteq> UsageGroupByDay"
    by (simp_all add: demo_usage_env_def demo_usage_query_def UsageGroupByDay_def)
  from ListUsage_top_totals [OF this, of "[(demo_bucket, 3)]"] show ?thesis by (auto simp: demo_usage_query_def)
qed

end
