(* ===== verification/Coverage.thy ===== *)
theory Coverage
  imports Submission_Store Complex_Main
begin

text \<open>
  Coverage gaps: \<open>api/internal/coverage/recorder.go\<close>, which samples empty results and writes them in the
  background, over the table behind \<open>api/internal/store/sqlite/coverage.go\<close> (queries of
  gen/coverage_gaps.sql.go, migration 0002).

  At most four background writes run at a time, counted by a semaphore; each inserts its row and then
  prunes the table. Requests and writes interleave: the actions of a write are steps of a relation. The
  sampling source is a parameter, one number per event.
\<close>

section \<open>The table\<close>

record gap_row =
  gr_ID :: int
  gr_Kind :: string
  gr_Country :: string
  gr_Input :: string
  gr_CreatedAt :: string

record gap_db =
  gd_rows :: "gap_row list"
  gd_seq :: int

definition q_InsertCoverageGap :: "call_env \<Rightarrow> string \<Rightarrow> string \<Rightarrow> string \<Rightarrow> string \<Rightarrow> gap_db \<Rightarrow> unit result \<times> gap_db" where
  "q_InsertCoverageGap E kind country input created_at db =
     with_fault E ''InsertCoverageGap''
       (if kind \<notin> {''lookup'', ''search''} then (Inl (Errorf ''CHECK constraint failed: kind'' []), db)
        else (Inr (), db\<lparr>gd_rows := gd_rows db @ [\<lparr>gr_ID = gd_seq db + 1, gr_Kind = kind, gr_Country = country,
                 gr_Input = input, gr_CreatedAt = created_at\<rparr>], gd_seq := gd_seq db + 1\<rparr>)) db"

text \<open>ORDER BY created_at DESC, id DESC\<close>

definition gap_newer :: "gap_row \<Rightarrow> gap_row \<Rightarrow> bool" where
  "gap_newer a b = (if gr_CreatedAt a \<noteq> gr_CreatedAt b then gr_CreatedAt a > gr_CreatedAt b else gr_ID a > gr_ID b)"

definition newest_gaps :: "int \<Rightarrow> gap_db \<Rightarrow> gap_row list" where
  "newest_gaps limit db = take (nat limit) (sort_slice gap_newer (gd_rows db))"

text \<open>DELETE \<dots> WHERE id NOT IN (SELECT id \<dots> LIMIT keep)\<close>

definition q_PruneCoverageGaps :: "call_env \<Rightarrow> int \<Rightarrow> gap_db \<Rightarrow> unit result \<times> gap_db" where
  "q_PruneCoverageGaps E keep db = with_fault E ''PruneCoverageGaps''
     (Inr (), db\<lparr>gd_rows := filter (\<lambda>r. gr_ID r \<in> gr_ID ` set (newest_gaps keep db)) (gd_rows db)\<rparr>) db"

definition q_ListCoverageGaps :: "call_env \<Rightarrow> int \<Rightarrow> gap_db \<Rightarrow> gap_row list result" where
  "q_ListCoverageGaps E limit db = fst (with_fault E ''ListCoverageGaps'' (Inr (newest_gaps limit db), db) db)"

definition RecordCoverageGap :: "call_env \<Rightarrow> string \<Rightarrow> string \<Rightarrow> string \<Rightarrow> gap_db \<Rightarrow> unit result \<times> gap_db" where
  "RecordCoverageGap E kind country input db =
     (case q_InsertCoverageGap E kind country input (fmt_millis (ce_now E)) db of
        (Inl e, db') \<Rightarrow> (Inl (Wrap ''sqlite.RecordCoverageGap'' e), db')
      | (Inr u, db') \<Rightarrow> (Inr (), db'))"

definition PruneCoverageGaps :: "call_env \<Rightarrow> int \<Rightarrow> gap_db \<Rightarrow> unit result \<times> gap_db" where
  "PruneCoverageGaps E maxRows db =
     (if maxRows \<le> 0 then (Inr (), db)
      else case q_PruneCoverageGaps E maxRows db of
        (Inl e, db') \<Rightarrow> (Inl (Wrap ''sqlite.PruneCoverageGaps'' e), db')
      | (Inr u, db') \<Rightarrow> (Inr (), db'))"

record coverage_gap =
  cg_Kind :: string
  cg_Country :: string
  cg_Input :: string
  cg_CreatedAt :: instant

fun gaps_of_rows :: "payload_codec \<Rightarrow> gap_row list \<Rightarrow> coverage_gap list result" where
  "gaps_of_rows J [] = Inr []"
| "gaps_of_rows J (r # rs) =
     (case parseSQLiteTime J (gr_CreatedAt r) of
        Inl e \<Rightarrow> Inl (Wrap (''sqlite: coverage_gap '' @ itoa (gr_ID r) @ '': parse created_at'') e)
      | Inr t \<Rightarrow> (case gaps_of_rows J rs of
          Inl e \<Rightarrow> Inl e
        | Inr gs \<Rightarrow> Inr (\<lparr>cg_Kind = gr_Kind r, cg_Country = gr_Country r, cg_Input = gr_Input r, cg_CreatedAt = t\<rparr> # gs)))"

definition ListCoverageGaps :: "payload_codec \<Rightarrow> call_env \<Rightarrow> int \<Rightarrow> gap_db \<Rightarrow> coverage_gap list result" where
  "ListCoverageGaps J E limit db =
     (let l1 = (if limit \<le> 0 then 50 else limit); l2 = (if l1 > 200 then 200 else l1) in
      case q_ListCoverageGaps E l2 db of
        Inl e \<Rightarrow> Inl (Wrap ''sqlite.ListCoverageGaps'' e)
      | Inr rows \<Rightarrow> gaps_of_rows J rows)"

section \<open>The recorder\<close>

definition maxConcurrentWrites :: nat where "maxConcurrentWrites = 4"
definition maxInputLen :: nat where "maxInputLen = 400"

text \<open>\<open>strings.ToValidUTF8(s, "")\<close>: an invalid byte decodes to the error rune in one byte.\<close>

definition to_valid_utf8 :: "string \<Rightarrow> string" where
  "to_valid_utf8 s = concat (map snd (filter (\<lambda>(r, bs). \<not> (r = 65533 \<and> length bs = 1)) (chunks s)))"

definition truncate_input :: "string \<Rightarrow> nat \<Rightarrow> string" where
  "truncate_input s n = (if length s \<le> n then s else to_valid_utf8 (take n s))"

datatype write_phase = Started | Inserted

record gap_write =
  gw_phase :: write_phase
  gw_kind :: string
  gw_country :: string
  gw_input :: string

record coverage_state =
  cv_writes :: "gap_write list"
  cv_db :: gap_db
  cv_unpruned :: nat

text \<open>\<open>cv_unpruned\<close> counts the prunes that failed or never ran since the last one that succeeded: history.\<close>

definition RecordEmpty :: "real \<Rightarrow> real \<Rightarrow> string \<Rightarrow> string \<Rightarrow> string \<Rightarrow> coverage_state \<Rightarrow> coverage_state" where
  "RecordEmpty sampleRate sample kind country input s =
     (if sampleRate \<le> 0 then s
      else if sample \<ge> sampleRate then s
      else if length (cv_writes s) \<ge> maxConcurrentWrites then s
      else s\<lparr>cv_writes := cv_writes s @ [\<lparr>gw_phase = Started, gw_kind = kind, gw_country = country,
              gw_input = truncate_input input maxInputLen\<rparr>]\<rparr>)"

text \<open>Steps of the background writes; a panic ends a write at any point.\<close>

inductive coverage_step :: "real \<Rightarrow> int \<Rightarrow> coverage_state \<Rightarrow> coverage_state \<Rightarrow> bool" for sampleRate maxRows where
  event: "coverage_step sampleRate maxRows s (RecordEmpty sampleRate sample kind country input s)"
| insert_ok: "cv_writes s = ws @ w # ws' \<Longrightarrow> gw_phase w = Started \<Longrightarrow>
    RecordCoverageGap E (gw_kind w) (gw_country w) (gw_input w) (cv_db s) = (Inr (), db') \<Longrightarrow>
    coverage_step sampleRate maxRows s (s\<lparr>cv_writes := ws @ w\<lparr>gw_phase := Inserted\<rparr> # ws', cv_db := db'\<rparr>)"
| insert_failed: "cv_writes s = ws @ w # ws' \<Longrightarrow> gw_phase w = Started \<Longrightarrow>
    RecordCoverageGap E (gw_kind w) (gw_country w) (gw_input w) (cv_db s) = (Inl e, db') \<Longrightarrow>
    coverage_step sampleRate maxRows s (s\<lparr>cv_writes := ws @ ws', cv_db := db'\<rparr>)"
| prune_ok: "cv_writes s = ws @ w # ws' \<Longrightarrow> gw_phase w = Inserted \<Longrightarrow>
    PruneCoverageGaps E maxRows (cv_db s) = (Inr (), db') \<Longrightarrow>
    coverage_step sampleRate maxRows s (s\<lparr>cv_writes := ws @ ws', cv_db := db', cv_unpruned := 0\<rparr>)"
| prune_failed: "cv_writes s = ws @ w # ws' \<Longrightarrow> gw_phase w = Inserted \<Longrightarrow>
    PruneCoverageGaps E maxRows (cv_db s) = (Inl e, db') \<Longrightarrow>
    coverage_step sampleRate maxRows s (s\<lparr>cv_writes := ws @ ws', cv_db := db', cv_unpruned := cv_unpruned s + 1\<rparr>)"
| panic: "cv_writes s = ws @ w # ws' \<Longrightarrow>
    coverage_step sampleRate maxRows s
      (s\<lparr>cv_writes := ws @ ws', cv_unpruned := cv_unpruned s + (if gw_phase w = Inserted then 1 else 0)\<rparr>)"

inductive_cases coverage_stepE: "coverage_step sampleRate maxRows s s'"

section \<open>Invariant\<close>

definition gap_rows_ok :: "gap_db \<Rightarrow> bool" where
  "gap_rows_ok db \<longleftrightarrow> distinct (map gr_ID (gd_rows db)) \<and>
     (\<forall>r\<in>set (gd_rows db). gr_ID r \<le> gd_seq db \<and> length (gr_Input r) \<le> maxInputLen \<and> gr_Kind r \<in> {''lookup'', ''search''})"

definition inserted :: "gap_write list \<Rightarrow> nat" where
  "inserted ws = length (filter (\<lambda>w. gw_phase w = Inserted) ws)"

lemma inserted_simps [simp]:
  "inserted [] = 0"
  "inserted (w # ws) = (if gw_phase w = Inserted then Suc (inserted ws) else inserted ws)"
  "inserted (ws @ ws') = inserted ws + inserted ws'"
  by (simp_all add: inserted_def)

definition coverage_inv :: "int \<Rightarrow> coverage_state \<Rightarrow> bool" where
  "coverage_inv maxRows s \<longleftrightarrow> length (cv_writes s) \<le> maxConcurrentWrites \<and> gap_rows_ok (cv_db s) \<and>
     (\<forall>w\<in>set (cv_writes s). length (gw_input w) \<le> maxInputLen) \<and>
     (0 < maxRows \<longrightarrow> length (gd_rows (cv_db s)) \<le> nat maxRows + inserted (cv_writes s) + cv_unpruned s)"

lemma length_to_valid_utf8: "length (to_valid_utf8 s) \<le> length s"
proof -
  have "length (concat (map snd (filter P cs))) \<le> length (concat (map snd cs))" for P and cs :: "(rune \<times> string) list"
    by (induction cs) auto
  then show ?thesis unfolding to_valid_utf8_def by (metis chunks_concat)
qed

lemma length_truncate_input: "length (truncate_input s n) \<le> n"
  using length_to_valid_utf8 [of "take n s"] by (auto simp: truncate_input_def)

lemma RecordEmpty_inv: "coverage_inv maxRows s \<Longrightarrow> coverage_inv maxRows (RecordEmpty rate x kind country input s)"
  by (auto simp: RecordEmpty_def coverage_inv_def length_truncate_input)

lemma RecordCoverageGap_ok:
  assumes "RecordCoverageGap E kind country input db = (r, db')" "gap_rows_ok db" "length input \<le> maxInputLen"
  shows "gap_rows_ok db'" "r = Inr u \<Longrightarrow> length (gd_rows db') = Suc (length (gd_rows db))" "r = Inl e \<Longrightarrow> db' = db"
  using assms
  by (force simp: RecordCoverageGap_def q_InsertCoverageGap_def with_fault_def gap_rows_ok_def
      split: option.splits if_splits)+

lemma length_filter_ids: "distinct (map gr_ID rows) \<Longrightarrow> length (filter (\<lambda>r. gr_ID r \<in> gr_ID ` set keep) rows) \<le> length keep"
proof -
  assume d: "distinct (map gr_ID rows)"
  let ?f = "filter (\<lambda>r. gr_ID r \<in> gr_ID ` set keep) rows"
  have "length ?f = card (gr_ID ` set ?f)"
    using d by (metis distinct_card distinct_map_filter length_map list.set_map)
  also have "\<dots> \<le> card (gr_ID ` set keep)" by (rule card_mono) auto
  also have "\<dots> \<le> length keep" by (metis card_image_le card_length finite_set order_trans)
  finally show ?thesis .
qed

lemma PruneCoverageGaps_ok:
  assumes "PruneCoverageGaps E maxRows db = (r, db')" "gap_rows_ok db"
  shows "gap_rows_ok db'" "r = Inl e \<Longrightarrow> db' = db" "r = Inr u \<Longrightarrow> 0 < maxRows \<Longrightarrow> length (gd_rows db') \<le> nat maxRows"
proof -
  have keep: "db' = db \<or> 0 < maxRows \<and> db' = db\<lparr>gd_rows := filter (\<lambda>x. gr_ID x \<in> gr_ID ` set (newest_gaps maxRows db)) (gd_rows db)\<rparr>"
    and ok: "r = Inr u \<Longrightarrow> 0 < maxRows \<Longrightarrow> db' = db\<lparr>gd_rows := filter (\<lambda>x. gr_ID x \<in> gr_ID ` set (newest_gaps maxRows db)) (gd_rows db)\<rparr>"
    using assms(1) by (auto simp: PruneCoverageGaps_def q_PruneCoverageGaps_def with_fault_def split: option.splits if_splits)
  show "gap_rows_ok db'" using keep assms(2) by (auto simp: gap_rows_ok_def distinct_map_filter)
  show "db' = db" if "r = Inl e" using assms(1) that
    by (auto simp: PruneCoverageGaps_def q_PruneCoverageGaps_def with_fault_def split: option.splits if_splits)
  have "length (newest_gaps maxRows db) \<le> nat maxRows" by (simp add: newest_gaps_def)
  then show "length (gd_rows db') \<le> nat maxRows" if "r = Inr u" "0 < maxRows"
    using ok [OF that] length_filter_ids [of "gd_rows db" "newest_gaps maxRows db"] assms(2)
    by (auto simp: gap_rows_ok_def)
qed

lemma coverage_step_inv:
  assumes "coverage_step rate maxRows s s'" "coverage_inv maxRows s"
  shows "coverage_inv maxRows s'"
  using assms
proof (induction rule: coverage_step.induct)
  case (event s sample kind country input)
  then show ?case by (rule RecordEmpty_inv)
next
  case (insert_ok s ws w ws' E db')
  have "gap_rows_ok (cv_db s)" "length (gw_input w) \<le> maxInputLen" using insert_ok.prems insert_ok.hyps by (auto simp: coverage_inv_def)
  note db = RecordCoverageGap_ok [OF insert_ok.hyps(3) this]
  show ?case using insert_ok.prems insert_ok.hyps(1,2) db(1) db(2) by (auto simp: coverage_inv_def)
next
  case (insert_failed s ws w ws' E e db')
  have "gap_rows_ok (cv_db s)" "length (gw_input w) \<le> maxInputLen" using insert_failed.prems insert_failed.hyps by (auto simp: coverage_inv_def)
  note db = RecordCoverageGap_ok [OF insert_failed.hyps(3) this]
  show ?case using insert_failed.prems insert_failed.hyps(1,2) db(1) db(3) by (auto simp: coverage_inv_def)
next
  case (prune_ok s ws w ws' E db')
  have "gap_rows_ok (cv_db s)" using prune_ok.prems by (simp add: coverage_inv_def)
  note db = PruneCoverageGaps_ok [OF prune_ok.hyps(3) this]
  show ?case using prune_ok.prems prune_ok.hyps(1,2) db(1) db(3) by (auto simp: coverage_inv_def)
next
  case (prune_failed s ws w ws' E e db')
  have "gap_rows_ok (cv_db s)" using prune_failed.prems by (simp add: coverage_inv_def)
  note db = PruneCoverageGaps_ok [OF prune_failed.hyps(3) this]
  show ?case using prune_failed.prems prune_failed.hyps(1,2) db(1) db(2) by (auto simp: coverage_inv_def)
next
  case (panic s ws w ws')
  then show ?case by (auto simp: coverage_inv_def)
qed

definition new_coverage :: coverage_state where
  "new_coverage = \<lparr>cv_writes = [], cv_db = \<lparr>gd_rows = [], gd_seq = 0\<rparr>, cv_unpruned = 0\<rparr>"

lemma new_coverage_inv: "coverage_inv maxRows new_coverage"
  by (simp add: coverage_inv_def new_coverage_def gap_rows_ok_def)

interpretation coverage: transition_invariant "coverage_step rate maxRows" "\<lambda>s. s = new_coverage" "coverage_inv maxRows"
  for rate maxRows
  by unfold_locales (auto intro: new_coverage_inv coverage_step_inv)

lemma capture_off_step: "coverage_step rate maxRows s s' \<Longrightarrow> rate \<le> 0 \<Longrightarrow> cv_writes s = [] \<Longrightarrow> s' = s"
  by (induction rule: coverage_step.induct) (auto simp: RecordEmpty_def)

interpretation capture_off: transition_invariant "\<lambda>s s'. rate \<le> 0 \<and> coverage_step rate maxRows s s'"
  "\<lambda>s. s = new_coverage" "\<lambda>s. s = new_coverage" for rate maxRows
  using capture_off_step by unfold_locales (auto simp: new_coverage_def)

interpretation gap_order: weak_order gap_newer
proof -
  have "weak_order (\<lambda>a b. if gr_CreatedAt a \<noteq> gr_CreatedAt b then gr_CreatedAt a > gr_CreatedAt b else gr_ID a > gr_ID b)"
    by (intro weak_order_then_desc weak_order_key_desc)
  then show "weak_order gap_newer" unfolding gap_newer_def [abs_def] .
qed

section \<open>Properties\<close>


text \<open>
  Pruning to a positive cap keeps exactly the newest rows: as many as fit, and none that is older
  than one it deletes.
\<close>

theorem PruneCoverageGaps_keeps_newest:
  assumes "gap_rows_ok db" "0 < maxRows" "\<And>stmt. ce_fault E stmt = None"
  shows "\<exists>db'. PruneCoverageGaps E maxRows db = (Inr (), db') \<and>
    length (gd_rows db') = min (nat maxRows) (length (gd_rows db)) \<and> set (gd_rows db') \<subseteq> set (gd_rows db) \<and>
    (\<forall>kept\<in>set (gd_rows db'). \<forall>gone\<in>set (gd_rows db) - set (gd_rows db'). gap_newer kept gone)"
proof -
  let ?all = "sort_slice gap_newer (gd_rows db)" and ?n = "nat maxRows"
  let ?keep = "newest_gaps maxRows db"
  let ?rows = "filter (\<lambda>r. gr_ID r \<in> gr_ID ` set ?keep) (gd_rows db)"
  have d: "distinct (map gr_ID (gd_rows db))" using assms(1) by (simp add: gap_rows_ok_def)
  have sub: "set ?keep \<subseteq> set (gd_rows db)"
    using set_take_subset [of ?n ?all] by (simp add: newest_gaps_def)
  have rows: "set ?rows = set ?keep"
  proof -
    have "r \<in> set ?keep" if "r \<in> set (gd_rows db)" "gr_ID r = gr_ID k" "k \<in> set ?keep" for r k
      using d that sub by (metis distinct_map inj_on_def subsetD)
    with sub show ?thesis by auto
  qed
  have "distinct (gd_rows db)" using d by (simp add: distinct_map)
  then have "length ?rows = card (set ?keep)" "distinct ?keep"
    using rows by (simp_all add: newest_gaps_def distinct_card [symmetric])
  then have len: "length ?rows = min ?n (length (gd_rows db))"
    by (simp add: distinct_card newest_gaps_def min.commute)
  have new: "gap_newer kept gone" if k: "kept \<in> set ?rows" and g: "gone \<in> set (gd_rows db) - set ?rows" for kept gone
  proof -
    have "gone \<in> set (take ?n ?all) \<union> set (drop ?n ?all)"
      using g by (metis DiffD1 append_take_drop_id set_append set_sort_slice)
    with g rows have "gone \<in> set (drop ?n ?all)" by (auto simp: newest_gaps_def)
    moreover have "kept \<in> set (take ?n ?all)" using k [unfolded rows] by (simp only: newest_gaps_def)
    ultimately have "\<not> gap_newer gone kept"
      using gap_order.sort_ordered [of "gd_rows db"] by (metis append_take_drop_id sorted_wrt_append)
    moreover have "gr_ID kept \<noteq> gr_ID gone" using k g d by (auto simp: distinct_map inj_on_def)
    ultimately show ?thesis by (auto simp: gap_newer_def split: if_splits)
  qed
  have "PruneCoverageGaps E maxRows db = (Inr (), db\<lparr>gd_rows := ?rows\<rparr>)"
    using assms(2,3) by (simp add: PruneCoverageGaps_def q_PruneCoverageGaps_def with_fault_def)
  with len new show ?thesis by (intro exI [of _ "db\<lparr>gd_rows := ?rows\<rparr>"]) simp
qed

section \<open>Witnesses\<close>

definition demo_gap_env :: call_env where
  "demo_gap_env = \<lparr>ce_now = 0, ce_newid = Inr ''a'', ce_fault = (\<lambda>_. None), ce_landed = True\<rparr>"

definition demo_gap :: "int \<Rightarrow> gap_row" where
  "demo_gap i = \<lparr>gr_ID = i, gr_Kind = ''search'', gr_Country = [], gr_Input = ''q'', gr_CreatedAt = ''0001-01-01T00:00:00.000Z''\<rparr>"


theorem PruneCoverageGaps_keeps_newest_witness:
  "\<exists>db'. PruneCoverageGaps demo_gap_env 1 \<lparr>gd_rows = [demo_gap 1, demo_gap 2], gd_seq = 2\<rparr> = (Inr (), db') \<and> length (gd_rows db') = 1"
proof -
  have "gap_rows_ok \<lparr>gd_rows = [demo_gap 1, demo_gap 2], gd_seq = 2\<rparr>" "\<And>stmt. ce_fault demo_gap_env stmt = None"
    by (simp_all add: gap_rows_ok_def demo_gap_def demo_gap_env_def maxInputLen_def)
  from PruneCoverageGaps_keeps_newest [OF this(1) _ this(2), of 1] show ?thesis by auto
qed

end
