(* ===== verification/Http_Wire.thy ===== *)
theory Http_Wire
  imports Lookup Submission_Store Usage Coverage "HOL-Library.Word"
begin

text \<open>
  The wire types of \<open>internal/httpapi/oapi\<close> that responses carry and the adapters of oapi_adapters.go,
  submissions.go, usage.go and coverage.go that build them. An optional field is an \<open>option\<close>, an
  \<open>int32\<close> a word that wraps as Go's conversion does, and a date an instant. Slices are never nil here,
  so \<open>nonNilSlice\<close> is the identity.
\<close>

section \<open>Wire types\<close>

record oapi_region =
  wr_Id :: id64
  wr_Kind :: string
  wr_Name :: string
  wr_Slug :: string
  wr_Country :: string
  wr_ScopeTier :: string
  wr_ParentSlugs :: "string list"

record oapi_org =
  wo_Id :: id64
  wo_Slug :: string
  wo_Name :: string
  wo_ShortDesc :: string
  wo_WebsiteUrl :: string
  wo_ContactUrl :: "string option"
  wo_Tags :: "string list"
  wo_Regions :: "oapi_region list"
  wo_AddedAt :: instant

record oapi_lookup_org = oapi_org +
  wo_MatchedRegionSlugs :: "string list"

record oapi_lookup_result =
  wl_QueryPostalCode :: string
  wl_QueryCountry :: string
  wl_ResolvedPlaceLabel :: string
  wl_ResolvedAncestry :: "oapi_region list"
  wl_Local :: "oapi_lookup_org list"
  wl_Regional :: "oapi_lookup_org list"
  wl_Statewide :: "oapi_lookup_org list"

record oapi_region_summary =
  ws_Region :: oapi_region
  ws_OrgCount :: "32 word"
  ws_DirectOrgCount :: "32 word"
  ws_BrowseParentSlug :: "string option"

record oapi_region_search_result =
  wsr_Region :: oapi_region
  wsr_ContextLabel :: string

record oapi_region_detail =
  wd_Region :: oapi_region
  wd_Local :: "oapi_lookup_org list"
  wd_Regional :: "oapi_lookup_org list"
  wd_Statewide :: "oapi_lookup_org list"
  wd_Ancestry :: "oapi_region list"
  wd_DescendantRegionNames :: "(string, string) gomap"

record oapi_country_stats =
  wc_Country :: string
  wc_OrgCount :: "32 word"
  wc_RegionCount :: "32 word"

record oapi_stats =
  wt_TotalOrgCount :: "32 word"
  wt_TotalRegionCount :: "32 word"
  wt_BrowseRegionCount :: "32 word"
  wt_ByCountry :: "oapi_country_stats list"

record oapi_submission_payload =
  wp_Name :: string
  wp_ShortDesc :: string
  wp_WebsiteUrl :: string
  wp_ContactUrl :: "string option"
  wp_RegionSlugs :: "string list option"

record oapi_new_submission =
  wn_Payload :: oapi_submission_payload
  wn_SubmitterName :: "string option"
  wn_SubmitterEmail :: "string option"
  wn_SubmitterNote :: "string option"

record oapi_submission =
  wb_Id :: string
  wb_Status :: string
  wb_CreatedAt :: instant
  wb_ProcessedAt :: "instant option"
  wb_Payload :: oapi_submission_payload
  wb_SubmitterName :: "string option"
  wb_SubmitterEmail :: "string option"
  wb_SubmitterNote :: "string option"
  wb_PromotionPrUrl :: "string option"
  wb_PromotionError :: "string option"
  wb_RejectionReason :: "string option"

record oapi_usage_count =
  wu_Kind :: string
  wu_Key :: string
  wu_Count :: int
  wu_Day :: "instant option"

record oapi_coverage_gap =
  wg_Kind :: string
  wg_Input :: string
  wg_Country :: "string option"
  wg_CreatedAt :: instant

section \<open>Adapters\<close>

definition strPtrIfSet :: "string \<Rightarrow> string option" where
  "strPtrIfSet s = (if s = [] then None else Some s)"

definition int32 :: "nat \<Rightarrow> 32 word" where
  "int32 n = of_nat n"

definition toOAPIRegion :: "region \<Rightarrow> oapi_region" where
  "toOAPIRegion r =
     \<lparr>wr_Id = reg_ID r, wr_Kind = reg_Kind r, wr_Name = reg_Name r, wr_Slug = reg_Slug r, wr_Country = reg_Country r,
      wr_ScopeTier = reg_ScopeTier r, wr_ParentSlugs = reg_ParentSlugs r\<rparr>"

definition toOAPIOrg :: "org \<Rightarrow> oapi_org" where
  "toOAPIOrg x =
     \<lparr>wo_Id = org_ID x, wo_Slug = org_Slug x, wo_Name = org_Name x, wo_ShortDesc = org_ShortDesc x,
      wo_WebsiteUrl = org_WebsiteURL x, wo_ContactUrl = strPtrIfSet (org_ContactURL x), wo_Tags = org_Tags x,
      wo_Regions = map toOAPIRegion (org_Regions x), wo_AddedAt = org_AddedAt x\<rparr>"

definition toOAPIOrgs :: "org list \<Rightarrow> oapi_org list" where
  "toOAPIOrgs xs = map toOAPIOrg xs"

definition toOAPILookupOrg :: "org \<Rightarrow> oapi_lookup_org" where
  "toOAPILookupOrg x = oapi_org.extend (toOAPIOrg x) \<lparr>wo_MatchedRegionSlugs = org_MatchedRegionSlugs x\<rparr>"

definition toOAPILookupOrgs :: "org list \<Rightarrow> oapi_lookup_org list" where
  "toOAPILookupOrgs xs = map toOAPILookupOrg xs"

definition toOAPILookupResult :: "lookup_result \<Rightarrow> oapi_lookup_result" where
  "toOAPILookupResult x =
     \<lparr>wl_QueryPostalCode = lq_PostalCode (lr_Query x), wl_QueryCountry = lq_Country (lr_Query x),
      wl_ResolvedPlaceLabel = lr_ResolvedPlaceLabel x, wl_ResolvedAncestry = map toOAPIRegion (lr_ResolvedAncestry x),
      wl_Local = toOAPILookupOrgs (lr_Local x), wl_Regional = toOAPILookupOrgs (lr_Regional x),
      wl_Statewide = toOAPILookupOrgs (lr_Statewide x)\<rparr>"

definition toOAPIRegionSummaries :: "region_summary list \<Rightarrow> oapi_region_summary list" where
  "toOAPIRegionSummaries xs =
     map (\<lambda>rs. \<lparr>ws_Region = toOAPIRegion (rs_Region rs), ws_OrgCount = int32 (rs_OrgCount rs),
        ws_DirectOrgCount = int32 (rs_DirectOrgCount rs), ws_BrowseParentSlug = strPtrIfSet (rs_BrowseParentSlug rs)\<rparr>) xs"

definition toOAPIStats :: "stats \<Rightarrow> oapi_stats" where
  "toOAPIStats x =
     \<lparr>wt_TotalOrgCount = int32 (st_TotalOrgCount x), wt_TotalRegionCount = int32 (st_TotalRegionCount x),
      wt_BrowseRegionCount = int32 (st_BrowseRegionCount x),
      wt_ByCountry = map (\<lambda>c. \<lparr>wc_Country = cs_Country c, wc_OrgCount = int32 (cs_OrgCount c),
        wc_RegionCount = int32 (cs_RegionCount c)\<rparr>) (st_ByCountry x)\<rparr>"

definition toOAPIRegionSearchResults :: "region_search_result list \<Rightarrow> oapi_region_search_result list" where
  "toOAPIRegionSearchResults xs =
     map (\<lambda>x. \<lparr>wsr_Region = toOAPIRegion (rsr_Region x), wsr_ContextLabel = rsr_ContextLabel x\<rparr>) xs"

definition toOAPIRegionDetail :: "region_detail \<Rightarrow> oapi_region_detail" where
  "toOAPIRegionDetail x =
     \<lparr>wd_Region = toOAPIRegion (rd_Region x), wd_Local = toOAPILookupOrgs (rd_Local x),
      wd_Regional = toOAPILookupOrgs (rd_Regional x), wd_Statewide = toOAPILookupOrgs (rd_Statewide x),
      wd_Ancestry = map toOAPIRegion (rd_Ancestry x), wd_DescendantRegionNames = rd_DescendantRegionNames x\<rparr>"

text \<open>\<open>uuid.Parse\<close> is a parameter with the canonical text of the id; the zero id stands for one that does not parse.\<close>

type_synonym uuid_parser = "string \<Rightarrow> string option"

definition nil_uuid :: string where "nil_uuid = ''00000000-0000-0000-0000-000000000000''"

definition toOAPISubmissionPayload :: "submission_payload \<Rightarrow> oapi_submission_payload" where
  "toOAPISubmissionPayload p =
     \<lparr>wp_Name = sp_Name p, wp_ShortDesc = sp_ShortDesc p, wp_WebsiteUrl = sp_WebsiteURL p,
      wp_ContactUrl = strPtrIfSet (sp_ContactURL p), wp_RegionSlugs = Some (sp_RegionSlugs p)\<rparr>"

definition toOAPISubmission :: "uuid_parser \<Rightarrow> submission \<Rightarrow> oapi_submission" where
  "toOAPISubmission uuid s =
     \<lparr>wb_Id = (case uuid (sub_PublicID s) of None \<Rightarrow> nil_uuid | Some i \<Rightarrow> i), wb_Status = sub_Status s,
      wb_CreatedAt = sub_CreatedAt s, wb_ProcessedAt = sub_ProcessedAt s, wb_Payload = toOAPISubmissionPayload (sub_Payload s),
      wb_SubmitterName = strPtrIfSet (sub_SubmitterName s), wb_SubmitterEmail = strPtrIfSet (sub_SubmitterEmail s),
      wb_SubmitterNote = strPtrIfSet (sub_SubmitterNote s), wb_PromotionPrUrl = strPtrIfSet (sub_PromotionPRURL s),
      wb_PromotionError = strPtrIfSet (sub_PromotionError s), wb_RejectionReason = strPtrIfSet (sub_RejectionReason s)\<rparr>"

definition or_empty :: "'a list option \<Rightarrow> 'a list" where
  "or_empty x = (case x of None \<Rightarrow> [] | Some v \<Rightarrow> v)"

definition fromOAPINewSubmission :: "oapi_new_submission \<Rightarrow> new_submission_input" where
  "fromOAPINewSubmission b =
     \<lparr>ni_Payload = \<lparr>sp_Name = wp_Name (wn_Payload b), sp_ShortDesc = wp_ShortDesc (wn_Payload b),
        sp_WebsiteURL = wp_WebsiteUrl (wn_Payload b), sp_ContactURL = or_empty (wp_ContactUrl (wn_Payload b)),
        sp_Tags = [], sp_RegionSlugs = or_empty (wp_RegionSlugs (wn_Payload b))\<rparr>,
      ni_SubmitterName = or_empty (wn_SubmitterName b), ni_SubmitterEmail = or_empty (wn_SubmitterEmail b),
      ni_SubmitterNote = or_empty (wn_SubmitterNote b)\<rparr>"

definition toOAPICoverageGap :: "coverage_gap \<Rightarrow> oapi_coverage_gap" where
  "toOAPICoverageGap g =
     \<lparr>wg_Kind = cg_Kind g, wg_Input = cg_Input g, wg_Country = strPtrIfSet (cg_Country g), wg_CreatedAt = cg_CreatedAt g\<rparr>"

text \<open>\<open>time.Parse("2006-01-02", s)\<close>\<close>

definition parse_day :: "string \<Rightarrow> instant option" where
  "parse_day s0 = do {
     (y, s1) \<leftarrow> parse_year s0;
     s2 \<leftarrow> skip CHR ''-'' s1;
     (m, s3) \<leftarrow> getnum True s2;
     check (1 \<le> m \<and> m \<le> 12);
     s4 \<leftarrow> skip CHR ''-'' s3;
     (d, s5) \<leftarrow> getnum True s4;
     check (s5 = []);
     check (1 \<le> d \<and> d \<le> month_lengths y ! nat (m - 1));
     Some (day_of_civil y m d * day)
   }"

text \<open>\<open>None\<close> is the error of a day that cannot be parsed.\<close>

definition toOAPIUsageCount :: "usage_count \<Rightarrow> oapi_usage_count option" where
  "toOAPIUsageCount c =
     (let out = \<lparr>wu_Kind = uc_Kind c, wu_Key = uc_Key c, wu_Count = uc_Count c, wu_Day = None\<rparr> in
      if uc_Day c = [] then Some out
      else case parse_day (uc_Day c) of None \<Rightarrow> None | Some t \<Rightarrow> Some (out\<lparr>wu_Day := Some t\<rparr>))"

section \<open>What the wire keeps\<close>

lemma toOAPI_empty [simp]:
  "toOAPILookupOrgs xs = [] \<longleftrightarrow> xs = []"
  "toOAPIRegionSearchResults ys = [] \<longleftrightarrow> ys = []"
  by (simp_all add: toOAPILookupOrgs_def toOAPIRegionSearchResults_def)

lemma toOAPILookupResult_sel [simp]:
  "wl_Local (toOAPILookupResult x) = toOAPILookupOrgs (lr_Local x)"
  "wl_Regional (toOAPILookupResult x) = toOAPILookupOrgs (lr_Regional x)"
  "wl_Statewide (toOAPILookupResult x) = toOAPILookupOrgs (lr_Statewide x)"
  by (simp_all add: toOAPILookupResult_def)

lemma or_empty_strPtrIfSet [simp]: "or_empty (strPtrIfSet s) = s"
  by (simp add: or_empty_def strPtrIfSet_def)

lemma unat_int32: "n < 2 ^ 32 \<Longrightarrow> unat (int32 n) = n"
  by (simp add: int32_def unat_of_nat take_bit_nat_eq_self)

lemma toOAPILookupOrg_matched [simp]: "wo_MatchedRegionSlugs (toOAPILookupOrg x) = org_MatchedRegionSlugs x"
  by (simp add: toOAPILookupOrg_def oapi_org.defs oapi_lookup_org.defs toOAPIOrg_def)

text \<open>What a client may send back: the payload and the submitter of a submission, but for its tags.\<close>

definition input_of_submission :: "submission \<Rightarrow> new_submission_input" where
  "input_of_submission s =
     \<lparr>ni_Payload = (sub_Payload s)\<lparr>sp_Tags := []\<rparr>, ni_SubmitterName = sub_SubmitterName s,
      ni_SubmitterEmail = sub_SubmitterEmail s, ni_SubmitterNote = sub_SubmitterNote s\<rparr>"

definition resubmit :: "oapi_submission \<Rightarrow> oapi_new_submission" where
  "resubmit w = \<lparr>wn_Payload = wb_Payload w, wn_SubmitterName = wb_SubmitterName w, wn_SubmitterEmail = wb_SubmitterEmail w,
     wn_SubmitterNote = wb_SubmitterNote w\<rparr>"

lemma wire_roundtrip: "fromOAPINewSubmission (resubmit (toOAPISubmission uuid s)) = input_of_submission s"
  by (simp add: fromOAPINewSubmission_def resubmit_def toOAPISubmission_def toOAPISubmissionPayload_def input_of_submission_def
      or_empty_def [of "Some _"])

end
