(* ===== verification/Http.thy ===== *)
theory Http
  imports Http_Wire
begin

text \<open>
  What the handlers of \<open>api/internal/httpapi\<close> share: requests and responses, problem documents
  (problem.go), parameters (params.go), metric labels (metrics.go) and the tuning constants (tuning.go).

  A request has its method, path and remote address, and its query, headers and body as functions and
  bytes. A response body is the wire value handed to the JSON encoder. A handler returns the response with the effects it has on the recorders and
  counters, in order; what it does to the submission store and the worker is explicit in its type.
\<close>

section \<open>Requests and responses\<close>

record http_request =
  hq_Method :: string
  hq_Path :: string
  hq_query :: "string \<Rightarrow> string"
  hq_header :: "string \<Rightarrow> string"
  hq_RemoteAddr :: string
  hq_body :: string

record problem =
  pb_Type :: string
  pb_Title :: string
  pb_Status :: int
  pb_Detail :: string
  pb_Instance :: string
  pb_RequestID :: string
  pb_Errors :: "(string, string) gomap"

datatype http_body =
    NoBody
  | TextBody string
  | SpecBody
  | ProblemBody problem
  | LookupBody oapi_lookup_result
  | RegionsBody "oapi_region_summary list"
  | SearchBody "oapi_region_search_result list"
  | RegionBody oapi_region_detail
  | OrgBody oapi_org
  | OrgsBody "oapi_org list"
  | StatsBody oapi_stats
  | SubmissionBody oapi_submission
  | SubmissionsBody "oapi_submission list"
  | UsageBody "oapi_usage_count list"
  | GapsBody "oapi_coverage_gap list"

type_synonym headers = "(string, string list) gomap"

record http_response =
  hs_status :: int
  hs_header :: headers
  hs_body :: http_body

definition hset :: "string \<Rightarrow> string \<Rightarrow> headers \<Rightarrow> headers" where
  "hset k v h = mput k [v] h"

definition hadd :: "string \<Rightarrow> string \<Rightarrow> headers \<Rightarrow> headers" where
  "hadd k v h = mput k (mget_list h k @ [v]) h"

lemma mget_list_hset [simp]: "mget_list (hset k v h) k' = (if k = k' then [v] else mget_list h k')"
  by (simp add: hset_def)

lemma mget_list_hadd [simp]: "mget_list (hadd k v h) k' = (if k = k' then mget_list h k @ [v] else mget_list h k')"
  by (simp add: hadd_def)

section \<open>Effects\<close>

datatype effect =
    IncLookup string string
  | IncLookupTier string string
  | IncRegionView bool
  | IncOrgView bool
  | IncRegionSearch nat nat
  | IncSubmissions string
  | IncValidationFailure string
  | IncAdminAction string string
  | IncRateLimit string
  | IncStorePingFailure
  | UsageIncrement string string
  | CoverageEmpty string string string

section \<open>Responses\<close>

definition problemValidation :: string where "problemValidation = ''https://urbanistatlas.com/problems/validation''"
definition problemNotFound :: string where "problemNotFound = ''https://urbanistatlas.com/problems/not-found''"
definition problemMilitaryZIP :: string where "problemMilitaryZIP = ''https://urbanistatlas.com/problems/military-postal-code''"
definition problemInternal :: string where "problemInternal = ''https://urbanistatlas.com/problems/internal''"
definition problemUnauthorized :: string where "problemUnauthorized = ''https://urbanistatlas.com/problems/unauthorized''"
definition problemConflict :: string where "problemConflict = ''https://urbanistatlas.com/problems/conflict''"
definition problemRateLimited :: string where "problemRateLimited = ''https://urbanistatlas.com/problems/rate-limited''"
definition problemAdminDisabled :: string where "problemAdminDisabled = ''https://urbanistatlas.com/problems/admin-disabled''"

definition writeJSON :: "headers \<Rightarrow> int \<Rightarrow> http_body \<Rightarrow> http_response" where
  "writeJSON h status body =
     \<lparr>hs_status = status, hs_header = hset ''Content-Type'' ''application/json; charset=utf-8'' h, hs_body = body\<rparr>"

definition writeProblemWithErrors :: "headers \<Rightarrow> http_request \<Rightarrow> int \<Rightarrow> string \<Rightarrow> string \<Rightarrow> string \<Rightarrow> string \<Rightarrow>
    (string, string) gomap \<Rightarrow> http_response" where
  "writeProblemWithErrors h r status typeURI title detail requestID fieldErrors =
     \<lparr>hs_status = status, hs_header = hset ''Content-Type'' ''application/problem+json'' h,
      hs_body = ProblemBody \<lparr>pb_Type = typeURI, pb_Title = title, pb_Status = status, pb_Detail = detail,
        pb_Instance = hq_Path r, pb_RequestID = requestID, pb_Errors = fieldErrors\<rparr>\<rparr>"

definition writeProblem :: "headers \<Rightarrow> http_request \<Rightarrow> int \<Rightarrow> string \<Rightarrow> string \<Rightarrow> string \<Rightarrow> string \<Rightarrow> http_response" where
  "writeProblem h r status typeURI title detail requestID =
     writeProblemWithErrors h r status typeURI title detail requestID []"

definition writeInternalProblem :: "headers \<Rightarrow> http_request \<Rightarrow> string \<Rightarrow> http_response" where
  "writeInternalProblem h r rid =
     writeProblem h r 500 problemInternal ''Internal Server Error''
       ''Something went wrong on our end. Please try again in a moment.'' rid"

text \<open>\<open>respondCollection\<close>: the envelope's license block is constant but for its time, which is left out.\<close>

definition respondCollection :: "headers \<Rightarrow> http_body \<Rightarrow> http_response" where
  "respondCollection h items =
     \<lparr>hs_status = 200, hs_header = hset ''Content-Type'' ''application/json; charset=utf-8'' h, hs_body = items\<rparr>"

text \<open>
  A response is well formed when an error is a problem document with its media type, its own status and
  the request's id and path.
\<close>

definition response_ok :: "http_request \<Rightarrow> string \<Rightarrow> http_response \<Rightarrow> bool" where
  "response_ok r rid resp \<longleftrightarrow>
     (if hs_status resp < 400 then \<forall>p. hs_body resp \<noteq> ProblemBody p
      else mget_list (hs_header resp) ''Content-Type'' = [''application/problem+json''] \<and>
        (\<exists>p. hs_body resp = ProblemBody p \<and> pb_Status p = hs_status resp \<and> pb_RequestID p = rid \<and>
           pb_Instance p = hq_Path r \<and> (hs_status resp = 500 \<longrightarrow> pb_Errors p = [])))"

text \<open>The headers a handler starts from stay, the content type and those it adds apart.\<close>

definition handler_headers :: "string set" where
  "handler_headers = {''Content-Type'', ''X-Next-Cursor'', ''Retry-After'', ''Cache-Control'', ''X-Data-License'', ''X-Data-Attribution''}"

lemma handler_headers_mem [simp]:
  "''Content-Type'' \<in> handler_headers" "''X-Next-Cursor'' \<in> handler_headers" "''Retry-After'' \<in> handler_headers"
  "''Cache-Control'' \<in> handler_headers" "''X-Data-License'' \<in> handler_headers" "''X-Data-Attribution'' \<in> handler_headers"
  by (simp_all add: handler_headers_def)

definition keeps_headers :: "headers \<Rightarrow> http_response \<Rightarrow> bool" where
  "keeps_headers h resp \<longleftrightarrow>
     (\<forall>k. k \<notin> handler_headers \<longrightarrow>
        mget_list (hs_header resp) k = mget_list h k)"

lemma writeProblem_ok [simp]:
  "400 \<le> status \<Longrightarrow> response_ok r rid (writeProblem h r status t title detail rid)"
  "400 \<le> status \<Longrightarrow> status \<noteq> 500 \<Longrightarrow> response_ok r rid (writeProblemWithErrors h r status t title detail rid fe)"
  "response_ok r rid (writeInternalProblem h r rid)"
  by (simp_all add: response_ok_def writeInternalProblem_def writeProblem_def writeProblemWithErrors_def)

lemma writeJSON_ok [simp]:
  "status < 400 \<Longrightarrow> (\<And>p. body \<noteq> ProblemBody p) \<Longrightarrow> response_ok r rid (writeJSON h status body)"
  "(\<And>p. body \<noteq> ProblemBody p) \<Longrightarrow> response_ok r rid (respondCollection h body)"
  by (simp_all add: response_ok_def writeJSON_def respondCollection_def)

lemma keeps_headers_write [simp]:
  "keeps_headers h (writeProblem h r status t title detail rid)"
  "keeps_headers h (writeProblemWithErrors h r status t title detail rid fe)"
  "keeps_headers h (writeInternalProblem h r rid)"
  "keeps_headers h (writeJSON h status body)"
  "keeps_headers h (respondCollection h body)"
  by (simp_all add: keeps_headers_def writeInternalProblem_def writeProblem_def writeProblemWithErrors_def
      writeJSON_def respondCollection_def)

lemma status_write [simp]:
  "hs_status (writeProblem h r status t title detail rid) = status"
  "hs_status (writeProblemWithErrors h r status t title detail rid fe) = status"
  "hs_status (writeInternalProblem h r rid) = 500"
  "hs_status (writeJSON h status body) = status"
  "hs_status (respondCollection h body) = 200"
  by (simp_all add: writeInternalProblem_def writeProblem_def writeProblemWithErrors_def
      writeJSON_def respondCollection_def)

section \<open>Parameters\<close>

definition parseLimitParam :: "headers \<Rightarrow> http_request \<Rightarrow> int \<Rightarrow> string \<Rightarrow> http_response + int" where
  "parseLimitParam h r maxLimit rid =
     (let raw = trim_space (hq_query r ''limit'');
          bad = writeProblem h r 400 problemValidation ''Invalid Limit''
            (''The limit query parameter must be an integer between 1 and '' @ itoa maxLimit @ ''.'') rid
      in if raw = [] then Inr 0
         else case Atoi raw of
           None \<Rightarrow> Inl bad
         | Some n \<Rightarrow> if n < 1 \<or> n > maxLimit then Inl bad else Inr n)"

lemma parseLimitParam_Inr: "parseLimitParam h r m rid = Inr n \<Longrightarrow> 0 \<le> n \<and> (n = 0 \<or> n \<le> m)"
  by (auto simp: parseLimitParam_def Let_def split: if_splits option.splits)

lemma parseLimitParam_Inl:
  "parseLimitParam h r m rid = Inl resp \<Longrightarrow> response_ok r rid resp \<and> keeps_headers h resp \<and> hs_status resp = 400"
  by (auto simp: parseLimitParam_def Let_def split: if_splits option.splits)

section \<open>Labels and constants\<close>

definition metricCountry :: "string \<Rightarrow> string" where
  "metricCountry country = (if country = CountryUS \<or> country = CountryCA then country else ''other'')"

definition metricSubmissionField :: "string \<Rightarrow> string" where
  "metricSubmissionField field =
     (if field \<in> {''name'', ''short_desc'', ''website_url'', ''contact_url'', ''region_slugs'', ''submitter_name'',
        ''submitter_email'', ''submitter_note''} then field else ''other'')"

definition lookupTier :: "nat \<Rightarrow> nat \<Rightarrow> nat \<Rightarrow> string" where
  "lookupTier loc rgn stw =
     (if loc > 0 then ''local'' else if rgn > 0 then ''regional'' else if stw > 0 then ''statewide'' else ''empty'')"

definition submissionBodyLimit :: nat where "submissionBodyLimit = 64 * 1024"
definition maxAdminListLimit :: int where "maxAdminListLimit = 200"
definition httpMaxRegionSearchLimit :: int where "httpMaxRegionSearchLimit = 20"
definition maxRegionSearchQueryLen :: nat where "maxRegionSearchQueryLen = 100"
definition maxPostalCodeLen :: nat where "maxPostalCodeLen = 16"
definition maxCountryLen :: nat where "maxCountryLen = 4"

end
