(* ===== verification/Http_Reads.thy ===== *)
theory Http_Reads
  imports Http
begin

text \<open>
  The read handlers: lookup.go, regions.go, orgs.go, stats.go, recent.go, and the probes of health.go, over
  the \<open>Store\<close> interface. \<open>U\<close> holds the case tables, \<open>rng\<close> the order in which \<open>GetRegion\<close> visits a map.
\<close>

section \<open>Handlers\<close>

definition lookupHandler :: "go_unicode \<Rightarrow> store_ops \<Rightarrow> string \<Rightarrow> headers \<Rightarrow> http_request \<Rightarrow> http_response \<times> effect list" where
  "lookupHandler U st rid h r =
     (let rawPostalIn = hq_query r ''postal_code''; rawCountryIn = hq_query r ''country'';
          bad = (\<lambda>title detail. (writeProblem h r 400 problemValidation title detail rid, [])) in
      if length rawPostalIn > maxPostalCodeLen then
        bad ''Invalid Postal Code'' ''The postal_code query parameter is longer than the maximum allowed length.''
      else if length rawCountryIn > maxCountryLen then
        bad ''Invalid Country'' ''The country query parameter is longer than the maximum allowed length.''
      else
        (let rawPostal = trim_space rawPostalIn; country = to_upper U (trim_space rawCountryIn) in
         if rawPostal = [] then bad ''Missing Postal Code'' ''The postal_code query parameter is required.''
         else if country = [] then bad ''Missing Country'' ''The country query parameter is required.''
         else
           (let postal = NormalizePostalCode U country rawPostal in
            case Lookup st \<lparr>lq_PostalCode = postal, lq_Country = country\<rparr> of
              Inl err \<Rightarrow>
                if errors_is err ErrPostalCodeNotFound then
                  if IsMilitaryPostalCode country postal then
                    (writeProblem h r 404 problemMilitaryZIP ''Military or Diplomatic ZIP Code''
                       ''APO, FPO, and DPO ZIP codes are military and diplomatic addresses that aren't tied to a local region. Enter a residential ZIP code to find organizations near you.'' rid,
                     [IncLookup country ''military'', UsageIncrement ''lookup_result'' ''military'',
                      UsageIncrement ''lookup_country'' (metricCountry country)])
                  else
                    (writeProblem h r 404 problemNotFound ''Postal Code Not Found''
                       ''No region is mapped to that postal code. Try a nearby code, or file a tip if you know an organization there.'' rid,
                     [IncLookup country ''miss'', UsageIncrement ''lookup_result'' ''miss'',
                      UsageIncrement ''lookup_country'' (metricCountry country)])
                else (writeInternalProblem h r rid, [])
            | Inr result \<Rightarrow>
                (let tier = lookupTier (length (lr_Local result)) (length (lr_Regional result)) (length (lr_Statewide result)) in
                 (writeJSON h 200 (LookupBody (toOAPILookupResult result)),
                  [IncLookup country ''hit'', IncLookupTier country tier, UsageIncrement ''lookup_result'' ''hit'',
                   UsageIncrement ''lookup_tier'' tier, UsageIncrement ''lookup_country'' (metricCountry country)] @
                  (case lr_ResolvedAncestry result of [] \<Rightarrow> [] | leaf # _ \<Rightarrow> [UsageIncrement ''lookup'' (reg_Slug leaf)]) @
                  (if tier = ''empty'' then [CoverageEmpty ''lookup'' country postal] else []))))))"

definition listRegionsHandler :: "store_ops \<Rightarrow> string \<Rightarrow> headers \<Rightarrow> http_request \<Rightarrow> http_response \<times> effect list" where
  "listRegionsHandler st rid h r =
     (case so_ListRegions st of
        Inl err \<Rightarrow> (writeInternalProblem h r rid, [])
      | Inr regions \<Rightarrow> (respondCollection h (RegionsBody (toOAPIRegionSummaries regions)), []))"

definition searchRegionsHandler :: "store_ops \<Rightarrow> string \<Rightarrow> headers \<Rightarrow> http_request \<Rightarrow> http_response \<times> effect list" where
  "searchRegionsHandler st rid h r =
     (let rawQ = hq_query r ''q'' in
      if rune_count rawQ > maxRegionSearchQueryLen then
        (writeProblem h r 400 problemValidation ''Invalid Query''
           (''The q query parameter must be at most '' @ itoa (int maxRegionSearchQueryLen) @ '' characters.'') rid, [])
      else
        (let q = trim_space rawQ in
         case parseLimitParam h r httpMaxRegionSearchLimit rid of
           Inl resp \<Rightarrow> (resp, [])
         | Inr limit \<Rightarrow>
            (case so_SearchRegions st q limit of
               Inl err \<Rightarrow> (writeInternalProblem h r rid, [])
             | Inr results \<Rightarrow>
                 (respondCollection h (SearchBody (toOAPIRegionSearchResults results)),
                  IncRegionSearch (length q) (length results) #
                  (if results = [] \<and> q \<noteq> [] then [CoverageEmpty ''search'' [] q] else [])))))"

definition getRegionHandler :: "((id64, region) gomap \<Rightarrow> (id64 \<times> region) list) \<Rightarrow> store_ops \<Rightarrow> string \<Rightarrow> string \<Rightarrow> headers \<Rightarrow>
    http_request \<Rightarrow> http_response \<times> effect list" where
  "getRegionHandler rng st slugParam rid h r =
     (let slug = trim_space slugParam in
      case GetRegion rng st slug of
        Inl err \<Rightarrow> (writeInternalProblem h r rid, [])
      | Inr None \<Rightarrow>
          (writeProblem h r 404 problemNotFound ''Region Not Found''
             ''We don't have this region in the atlas yet. It may not be indexed, or the link you followed may be out of date.'' rid,
           [IncRegionView False])
      | Inr (Some detail) \<Rightarrow>
          (writeJSON h 200 (RegionBody (toOAPIRegionDetail detail)),
           [IncRegionView True, UsageIncrement ''region_view'' (reg_Slug (rd_Region detail))]))"

definition getOrgHandler :: "store_ops \<Rightarrow> string \<Rightarrow> string \<Rightarrow> headers \<Rightarrow> http_request \<Rightarrow> http_response \<times> effect list" where
  "getOrgHandler st slugParam rid h r =
     (let slug = trim_space slugParam in
      case so_GetOrgBySlug st slug of
        Inl err \<Rightarrow>
          if errors_is err ErrOrgNotFound then
            (writeProblem h r 404 problemNotFound ''Organization Not Found''
               ''We don't have this organization in the atlas yet. It may not be indexed, or the link you followed may be out of date.'' rid,
             [IncOrgView False])
          else (writeInternalProblem h r rid, [])
      | Inr org \<Rightarrow>
          (writeJSON h 200 (OrgBody (toOAPIOrg org)), [IncOrgView True, UsageIncrement ''org_view'' (org_Slug org)]))"

definition recentHandler :: "store_ops \<Rightarrow> string \<Rightarrow> headers \<Rightarrow> http_request \<Rightarrow> http_response \<times> effect list" where
  "recentHandler st rid h r =
     (case so_ListRecent st of
        Inl err \<Rightarrow> (writeInternalProblem h r rid, [])
      | Inr os \<Rightarrow> (respondCollection h (OrgsBody (toOAPIOrgs os)), []))"

definition statsHandler :: "store_ops \<Rightarrow> string \<Rightarrow> headers \<Rightarrow> http_request \<Rightarrow> http_response \<times> effect list" where
  "statsHandler st rid h r =
     (case so_Stats st of
        Inl err \<Rightarrow> (writeInternalProblem h r rid, [])
      | Inr stats \<Rightarrow> (writeJSON h 200 (StatsBody (toOAPIStats stats)), []))"

definition newline_text :: "string \<Rightarrow> string" where
  "newline_text s = s @ [CHR 0x0A]"

definition plainText :: "headers \<Rightarrow> string \<Rightarrow> http_response" where
  "plainText h body =
     \<lparr>hs_status = 200, hs_header = hset ''Content-Type'' ''text/plain; charset=utf-8'' h, hs_body = TextBody body\<rparr>"

definition healthHandler :: "headers \<Rightarrow> http_response \<times> effect list" where
  "healthHandler h = (plainText h (newline_text ''ok''), [])"

text \<open>\<open>ping\<close> is the answer of the submission store's ping, \<open>None\<close> without one.\<close>

definition readyHandler :: "unit result option \<Rightarrow> headers \<Rightarrow> http_response \<times> effect list" where
  "readyHandler ping h =
     (case ping of
        Some (Inl e) \<Rightarrow> (plainText h (newline_text ''degraded''), [IncStorePingFailure])
      | _ \<Rightarrow> (plainText h (newline_text ''ok''), []))"

definition openapiHandler :: "headers \<Rightarrow> http_response \<times> effect list" where
  "openapiHandler h =
     (\<lparr>hs_status = 200, hs_header = hset ''Cache-Control'' ''public, max-age=60'' (hset ''Content-Type'' ''application/yaml'' h),
       hs_body = SpecBody\<rparr>, [])"

section \<open>Responses are well formed\<close>

definition good_response :: "http_request \<Rightarrow> string \<Rightarrow> headers \<Rightarrow> http_response \<Rightarrow> bool" where
  "good_response r rid h resp \<longleftrightarrow> response_ok r rid resp \<and> keeps_headers h resp"

lemma good_writes [simp]:
  "400 \<le> status \<Longrightarrow> good_response r rid h (writeProblem h r status t title detail rid)"
  "400 \<le> status \<Longrightarrow> status \<noteq> 500 \<Longrightarrow> good_response r rid h (writeProblemWithErrors h r status t title detail rid fe)"
  "good_response r rid h (writeInternalProblem h r rid)"
  "status < 400 \<Longrightarrow> (\<And>p. body \<noteq> ProblemBody p) \<Longrightarrow> good_response r rid h (writeJSON h status body)"
  "(\<And>p. body \<noteq> ProblemBody p) \<Longrightarrow> good_response r rid h (respondCollection h body)"
  by (simp_all add: good_response_def)

lemma good_limit: "parseLimitParam h r m rid = Inl resp \<Longrightarrow> good_response r rid h resp"
  using parseLimitParam_Inl by (simp add: good_response_def)

lemma good_reads:
  "good_response r rid h (fst (lookupHandler U st rid h r))"
  "good_response r rid h (fst (listRegionsHandler st rid h r))"
  "good_response r rid h (fst (searchRegionsHandler st rid h r))"
  "good_response r rid h (fst (getRegionHandler rng st slug rid h r))"
  "good_response r rid h (fst (getOrgHandler st slug rid h r))"
  "good_response r rid h (fst (recentHandler st rid h r))"
  "good_response r rid h (fst (statsHandler st rid h r))"
proof -
  show "good_response r rid h (fst (lookupHandler U st rid h r))"
    by (simp add: lookupHandler_def Let_def split: sum.split)
  show "good_response r rid h (fst (listRegionsHandler st rid h r))"
    by (simp add: listRegionsHandler_def split: sum.split)
  show "good_response r rid h (fst (searchRegionsHandler st rid h r))"
    by (simp add: searchRegionsHandler_def Let_def good_limit split: sum.split)
  show "good_response r rid h (fst (getRegionHandler rng st slug rid h r))"
    by (simp add: getRegionHandler_def Let_def split: sum.split option.split)
  show "good_response r rid h (fst (getOrgHandler st slug rid h r))"
    by (simp add: getOrgHandler_def Let_def split: sum.split)
  show "good_response r rid h (fst (recentHandler st rid h r))"
    by (simp add: recentHandler_def split: sum.split)
  show "good_response r rid h (fst (statsHandler st rid h r))"
    by (simp add: statsHandler_def split: sum.split)
qed

lemma good_probes:
  "good_response r rid h (fst (healthHandler h))"
  "good_response r rid h (fst (readyHandler ping h))"
  "good_response r rid h (fst (openapiHandler h))"
  by (auto simp: healthHandler_def readyHandler_def openapiHandler_def plainText_def good_response_def response_ok_def
      keeps_headers_def split: option.split sum.split)

section \<open>Lookups over the in-memory store\<close>

text \<open>The parameters of a lookup that pass its checks: the country and the postal code in normal form.\<close>

definition lookup_params :: "go_unicode \<Rightarrow> http_request \<Rightarrow> (string \<times> string) option" where
  "lookup_params U r =
     (let country = to_upper U (trim_space (hq_query r ''country'')); rawPostal = trim_space (hq_query r ''postal_code'') in
      if length (hq_query r ''postal_code'') \<le> maxPostalCodeLen \<and> length (hq_query r ''country'') \<le> maxCountryLen \<and>
         rawPostal \<noteq> [] \<and> country \<noteq> []
      then Some (country, NormalizePostalCode U country rawPostal) else None)"

lemma lookupHandler_params:
  "lookupHandler U st rid h r =
     (case lookup_params U r of
        None \<Rightarrow> lookupHandler U st rid h r
      | Some (country, postal) \<Rightarrow>
         (case Lookup st \<lparr>lq_PostalCode = postal, lq_Country = country\<rparr> of
            Inl err \<Rightarrow> lookupHandler U st rid h r
          | Inr result \<Rightarrow>
             (let tier = lookupTier (length (lr_Local result)) (length (lr_Regional result)) (length (lr_Statewide result)) in
              (writeJSON h 200 (LookupBody (toOAPILookupResult result)),
               [IncLookup country ''hit'', IncLookupTier country tier, UsageIncrement ''lookup_result'' ''hit'',
                UsageIncrement ''lookup_tier'' tier, UsageIncrement ''lookup_country'' (metricCountry country)] @
               (case lr_ResolvedAncestry result of [] \<Rightarrow> [] | leaf # _ \<Rightarrow> [UsageIncrement ''lookup'' (reg_Slug leaf)]) @
               (if tier = ''empty'' then [CoverageEmpty ''lookup'' country postal] else [])))))"
  by (auto simp: lookup_params_def lookupHandler_def Let_def split: option.split sum.split)

lemma lookup_bad_params:
  "lookup_params U r = None \<Longrightarrow> hs_status (fst (lookupHandler U st rid h r)) = 400 \<and> snd (lookupHandler U st rid h r) = []"
  by (auto simp: lookup_params_def lookupHandler_def Let_def split: if_splits)

lemma lookup_hit:
  assumes "lookup_params U r = Some (country, postal)" "Lookup st \<lparr>lq_PostalCode = postal, lq_Country = country\<rparr> = Inr result"
  shows "fst (lookupHandler U st rid h r) = writeJSON h 200 (LookupBody (toOAPILookupResult result))"
  by (subst lookupHandler_params) (simp add: assms Let_def)

lemma lookup_miss:
  assumes "lookup_params U r = Some (country, postal)" "Lookup st \<lparr>lq_PostalCode = postal, lq_Country = country\<rparr> = Inl e"
    "errors_is e ErrPostalCodeNotFound"
  shows "hs_status (fst (lookupHandler U st rid h r)) = 404"
  using assms by (auto simp: lookup_params_def lookupHandler_def Let_def split: if_splits)

lemma Lookup_mem_leaf:
  "ResolveLeafRegion U s (lq_Country q) (lq_PostalCode q) = Inr leaf \<Longrightarrow>
     \<exists>result. Lookup (mem_ops U ro s) q = Inr result \<and> lr_ResolvedAncestry result = AncestorRegions s (reg_ID leaf)"
  by (simp add: Lookup_def split: prod.split)

lemma Lookup_mem_no_leaf:
  "ResolveLeafRegion U s (lq_Country q) (lq_PostalCode q) = Inl e \<Longrightarrow>
     Lookup (mem_ops U ro s) q = Inl (Wrap ''atlas: resolve postal code'' e) \<and> e = Sentinel ErrPostalCodeNotFound"
  by (auto simp: Lookup_def ResolveLeafRegion_def split: option.splits)

text \<open>
  C12. Over the in-memory store a lookup request always gets one of three answers: 400 exactly when a
  parameter is missing or too long, 200 exactly when the code belongs to a leaf region, then with the
  result of the lookup whose ancestry is that of the leaf, and 404 otherwise. It never fails with a 500.
\<close>

theorem lookupHandler_MemStore:
  "case lookup_params U r of
     None \<Rightarrow> hs_status (fst (lookupHandler U (mem_ops U ro s) rid h r)) = 400
   | Some (country, postal) \<Rightarrow>
       (case ResolveLeafRegion U s country postal of
          Inl e \<Rightarrow> hs_status (fst (lookupHandler U (mem_ops U ro s) rid h r)) = 404
        | Inr leaf \<Rightarrow> \<exists>result. fst (lookupHandler U (mem_ops U ro s) rid h r) = writeJSON h 200 (LookupBody (toOAPILookupResult result)) \<and>
            Lookup (mem_ops U ro s) \<lparr>lq_PostalCode = postal, lq_Country = country\<rparr> = Inr result \<and>
            lr_ResolvedAncestry result = AncestorRegions s (reg_ID leaf))"
proof (cases "lookup_params U r")
  case None
  then show ?thesis using lookup_bad_params by simp
next
  case (Some p)
  obtain country postal where p: "p = (country, postal)" by fastforce
  let ?q = "\<lparr>lq_PostalCode = postal, lq_Country = country\<rparr>"
  show ?thesis
  proof (cases "ResolveLeafRegion U s country postal")
    case (Inl e)
    with Some p Lookup_mem_no_leaf [of U s ?q e ro] show ?thesis by (simp add: lookup_miss)
  next
    case (Inr leaf)
    then obtain result where "Lookup (mem_ops U ro s) ?q = Inr result" "lr_ResolvedAncestry result = AncestorRegions s (reg_ID leaf)"
      using Lookup_mem_leaf [of U s ?q leaf ro] by auto
    with Some p Inr show ?thesis by (simp add: lookup_hit)
  qed
qed

section \<open>What is recorded\<close>

definition fixed_labels :: "string set" where
  "fixed_labels = {''hit'', ''miss'', ''military'', ''local'', ''regional'', ''statewide'', ''empty'', CountryUS, CountryCA, ''other''}"

text \<open>The usage keys that may appear: a fixed label, or the slug of a region or an org of the store.\<close>

definition public_key :: "memstore \<Rightarrow> string \<Rightarrow> bool" where
  "public_key s key \<longleftrightarrow> key \<in> fixed_labels \<or> (\<exists>i r. live_region s i = Some r \<and> key = reg_Slug r) \<or>
     key \<in> org_Slug ` set (orgs s)"

definition usage_public :: "memstore \<Rightarrow> effect list \<Rightarrow> bool" where
  "usage_public s fx \<longleftrightarrow> (\<forall>kind key. UsageIncrement kind key \<in> set fx \<longrightarrow> public_key s key \<and> kind \<in> set usage_kinds)"

text \<open>Raw input is recorded for a request only when its answer is an empty result.\<close>

fun empty_result :: "http_body \<Rightarrow> bool" where
  "empty_result (LookupBody res) = (wl_Local res = [] \<and> wl_Regional res = [] \<and> wl_Statewide res = [])"
| "empty_result (SearchBody results) = (results = [])"
| "empty_result _ = False"

definition coverage_empty_only :: "http_response \<times> effect list \<Rightarrow> bool" where
  "coverage_empty_only out \<longleftrightarrow> (\<forall>kind country input. CoverageEmpty kind country input \<in> set (snd out) \<longrightarrow>
     hs_status (fst out) = 200 \<and> empty_result (hs_body (fst out)) \<and> kind \<in> {''lookup'', ''search''})"

definition recording_ok :: "memstore \<Rightarrow> http_response \<times> effect list \<Rightarrow> bool" where
  "recording_ok s out \<longleftrightarrow> usage_public s (snd out) \<and> coverage_empty_only out"

lemma recording_ok_none: "(\<And>k x. UsageIncrement k x \<notin> set fx) \<Longrightarrow> (\<And>k c i. CoverageEmpty k c i \<notin> set fx) \<Longrightarrow> recording_ok s (resp, fx)"
  by (simp add: recording_ok_def usage_public_def coverage_empty_only_def)

lemma metricCountry_fixed: "public_key s (metricCountry c)"
  by (simp add: public_key_def metricCountry_def fixed_labels_def)

lemma lookupTier_fixed: "public_key s (lookupTier a b c)"
  by (simp add: public_key_def lookupTier_def fixed_labels_def)

lemma lookupTier_empty: "lookupTier a b c = ''empty'' \<Longrightarrow> a = 0 \<and> b = 0 \<and> c = 0"
  by (simp add: lookupTier_def split: if_splits)

lemma label_fixed: "public_key s ''hit''" "public_key s ''miss''" "public_key s ''military''"
  by (simp_all add: public_key_def fixed_labels_def)

lemma lookup_recording: "recording_ok s (lookupHandler U (mem_ops U ro s) rid h r)"
proof (cases "lookup_params U r")
  case None
  then have "snd (lookupHandler U (mem_ops U ro s) rid h r) = []" using lookup_bad_params by blast
  then show ?thesis by (simp add: recording_ok_def usage_public_def coverage_empty_only_def)
next
  case (Some p)
  obtain country postal where p: "p = (country, postal)" by fastforce
  let ?q = "\<lparr>lq_PostalCode = postal, lq_Country = country\<rparr>"
  show ?thesis
  proof (cases "Lookup (mem_ops U ro s) ?q")
    case (Inl e)
    with Some p show ?thesis
      by (auto simp: lookup_params_def lookupHandler_def Let_def recording_ok_def usage_public_def coverage_empty_only_def
          usage_kinds_def metricCountry_fixed label_fixed split: if_splits)
  next
    case (Inr result)
    have "\<exists>leaf :: region. lr_ResolvedAncestry result = AncestorRegions s (reg_ID leaf)"
      using Lookup_mem_leaf [of U s ?q _ ro] Lookup_mem_no_leaf [of U s ?q _ ro] Inr
      by (cases "ResolveLeafRegion U s country postal") auto
    then obtain leaf :: region where anc: "lr_ResolvedAncestry result = AncestorRegions s (reg_ID leaf)" by blast
    have slug: "public_key s (reg_Slug x)" if "lr_ResolvedAncestry result = x # xs" for x xs
    proof -
      have "x \<in> set (AncestorRegions s (reg_ID leaf))" using that anc by simp
      then show ?thesis using set_AncestorRegions by (force simp: public_key_def)
    qed
    show ?thesis
      by (subst lookupHandler_params)
        (auto simp: Some p Inr Let_def recording_ok_def usage_public_def coverage_empty_only_def usage_kinds_def
          metricCountry_fixed lookupTier_fixed label_fixed slug slug [OF sym] writeJSON_def dest!: lookupTier_empty
          split: list.splits if_splits)
  qed
qed

lemma region_recording: "recording_ok s (getRegionHandler rng (mem_ops U ro s) slug rid h r)"
proof (cases "GetRegion rng (mem_ops U ro s) (trim_space slug)")
  case (Inl e)
  then show ?thesis by (simp add: getRegionHandler_def recording_ok_none)
next
  case (Inr d)
  show ?thesis
  proof (cases d)
    case None
    with Inr show ?thesis by (simp add: getRegionHandler_def recording_ok_none)
  next
    case (Some detail)
    have "ResolveRegionBySlug U s (trim_space slug) = Inr (rd_Region detail)"
      using Inr Some by (auto simp: GetRegion_def Let_def split: sum.splits if_splits prod.splits)
    then have "\<exists>i. live_region s i = Some (rd_Region detail)"
      by (auto simp: ResolveRegionBySlug_def live_region_def split: option.splits if_splits)
    then have "public_key s (reg_Slug (rd_Region detail))" by (auto simp: public_key_def)
    with Inr Some show ?thesis
      by (auto simp: getRegionHandler_def recording_ok_def usage_public_def coverage_empty_only_def usage_kinds_def)
  qed
qed

lemma find_org_Some: "find_org slug os = Some x \<Longrightarrow> x \<in> set os \<and> org_Slug x = slug"
  by (induction slug os rule: find_org.induct) (auto split: if_splits)

lemma org_recording: "recording_ok s (getOrgHandler (mem_ops U ro s) slug rid h r)"
proof (cases "GetOrgBySlug U s (trim_space slug)")
  case (Inl e)
  then show ?thesis by (simp add: getOrgHandler_def mem_ops_def recording_ok_none)
next
  case (Inr x)
  then have "org_Slug x \<in> org_Slug ` set (orgs s)"
    by (force simp: GetOrgBySlug_def dest: find_org_Some split: option.splits)
  with Inr show ?thesis
    by (auto simp: getOrgHandler_def mem_ops_def recording_ok_def usage_public_def coverage_empty_only_def usage_kinds_def public_key_def)
qed

lemma search_recording: "recording_ok s (searchRegionsHandler st rid h r)"
  by (auto simp: searchRegionsHandler_def Let_def recording_ok_def usage_public_def coverage_empty_only_def respondCollection_def
      split: sum.split)

text \<open>
  C13. No read request of the API can make the usage counts hold anything but public names: every key a
  handler reports is a fixed label or the slug of a region or an org of the store, under one of the six
  kinds of the table, whatever the request contains. The raw input of a lookup or a search reaches the
  coverage recorder only when the answer is a success without any result.
\<close>

theorem reads_record_public_keys:
  "list_all (recording_ok s)
     [lookupHandler U (mem_ops U ro s) rid h r, listRegionsHandler (mem_ops U ro s) rid h r,
      searchRegionsHandler (mem_ops U ro s) rid h r, getRegionHandler rng (mem_ops U ro s) slug rid h r,
      getOrgHandler (mem_ops U ro s) slug rid h r, recentHandler (mem_ops U ro s) rid h r,
      statsHandler (mem_ops U ro s) rid h r]"
proof -
  have "recording_ok s (listRegionsHandler (mem_ops U ro s) rid h r)" "recording_ok s (recentHandler (mem_ops U ro s) rid h r)"
    "recording_ok s (statsHandler (mem_ops U ro s) rid h r)"
    by (simp_all add: listRegionsHandler_def recentHandler_def statsHandler_def mem_ops_def recording_ok_none)
  then show ?thesis by (simp add: lookup_recording search_recording region_recording org_recording)
qed

end
