(* ===== verification/Submission_Pages.thy ===== *)
theory Submission_Pages
  imports Submission_Store
begin

text \<open>
  Keyset pagination of the submission store: following \<open>NextCursor\<close> from the empty cursor visits every
  matching submission once, newest first, and comes to an end.
\<close>

interpretation newer: weak_order row_newer
proof -
  have "weak_order (\<lambda>a b. if row_CreatedAt a \<noteq> row_CreatedAt b then row_CreatedAt a > row_CreatedAt b
      else row_PublicID a > row_PublicID b)"
    by (intro weak_order_then_desc weak_order_key_desc)
  then show "weak_order row_newer" by (simp add: row_newer_def [abs_def])
qed

definition status_filter :: "string \<Rightarrow> sub_row \<Rightarrow> bool" where
  "status_filter status r \<longleftrightarrow> status = [] \<or> row_Status r = status"

definition listing :: "string \<Rightarrow> sub_db \<Rightarrow> sub_row list" where
  "listing status db = sort_slice row_newer (filter (status_filter status) (db_rows db))"

lemma row_after_newer: "row_after (row_CreatedAt a) (row_PublicID a) r = row_newer a r"
  by (auto simp: row_after_def row_newer_def)

lemma ordered_strict:
  "distinct (map row_PublicID rs) \<Longrightarrow> newer.ordered rs \<Longrightarrow> sorted_wrt row_newer rs"
proof (induction rs)
  case (Cons a rs)
  have "row_newer a b" if "b \<in> set rs" for b
  proof -
    from that Cons.prems have "\<not> row_newer b a" "row_PublicID b \<noteq> row_PublicID a" by (auto simp: image_iff)
    then show ?thesis by (auto simp: row_newer_def split: if_splits)
  qed
  with Cons show ?case by simp
qed simp

lemma listing_ids: "db_inv J db \<Longrightarrow> distinct (map row_PublicID (listing status db))"
  unfolding listing_def by (simp add: db_inv_def distinct_map_filter)

lemma listing_strict: "db_inv J db \<Longrightarrow> sorted_wrt row_newer (listing status db)"
  by (rule ordered_strict [OF listing_ids]) (simp_all add: listing_def newer.sort_ordered)

text \<open>Past the \<open>k\<close>-th row of the listing come the rows after it.\<close>

lemma filter_newer_drop:
  "sorted_wrt row_newer rs \<Longrightarrow> k < length rs \<Longrightarrow> filter (row_newer (rs ! k)) rs = drop (Suc k) rs"
proof (induction rs arbitrary: k)
  case (Cons a rs)
  show ?case
  proof (cases k)
    case 0
    with Cons.prems have "filter (row_newer a) rs = rs" by (auto simp: filter_id_conv)
    with 0 show ?thesis using newer.asym [of a a] by auto
  next
    case (Suc j)
    with Cons.prems have "row_newer a (rs ! j)" "j < length rs" by auto
    with Cons Suc show ?thesis using newer.asym [of a "rs ! j"] by auto
  qed
qed simp

section \<open>One page\<close>

definition list_healthy :: "call_env \<Rightarrow> bool" where
  "list_healthy E \<longleftrightarrow> (\<forall>stmt \<in> set [''ListSubmissionsAll'', ''ListSubmissionsAllAfter'',
     ''ListSubmissionsByStatus'', ''ListSubmissionsByStatusAfter'']. ce_fault E stmt = None)"

definition the_sub :: "payload_codec \<Rightarrow> sub_row \<Rightarrow> submission" where
  "the_sub J r = (case rowToSubmission J r of Inr x \<Rightarrow> x | Inl _ \<Rightarrow> created [] 0 \<lparr>ni_Payload =
     \<lparr>sp_Name = [], sp_ShortDesc = [], sp_WebsiteURL = [], sp_ContactURL = [], sp_Tags = [], sp_RegionSlugs = []\<rparr>,
     ni_SubmitterName = [], ni_SubmitterEmail = [], ni_SubmitterNote = []\<rparr>)"

lemma rows_to_submissions_ok:
  "list_all (row_ok J) rs \<Longrightarrow> rows_to_submissions J rs = Inr (map (the_sub J) rs)"
  by (induction rs) (auto simp: row_ok_def the_sub_def)

text \<open>The cursor that stands for having read the first \<open>i\<close> rows.\<close>

definition cursor_at :: "sub_row list \<Rightarrow> nat \<Rightarrow> string" where
  "cursor_at rs i = (if i = 0 then [] else encodeCursor (row_CreatedAt (rs ! (i - 1))) (row_PublicID (rs ! (i - 1))))"

lemma decode_row_cursor:
  assumes "row_ok J r"
  shows "decodeCursor (encodeCursor (row_CreatedAt r) (row_PublicID r)) = Inr (Some (row_CreatedAt r, row_PublicID r))"
proof -
  obtain t where "four_digit_year t" "row_CreatedAt r = fmt_millis t" "row_PublicID r \<noteq> []"
    using assms by (auto simp: row_ok_def)
  then show ?thesis using fmt_millis_chars by (intro decode_encodeCursor) auto
qed

lemma clamp_list_limit_bounds: "1 \<le> clamp_list_limit l" "clamp_list_limit l \<le> 200"
  by (auto simp: clamp_list_limit_def Let_def)

lemma select_after:
  assumes "db_inv J db" "k < length (listing status db)"
  shows "sort_slice row_newer (filter (\<lambda>r. status_filter status r \<and>
      row_after (row_CreatedAt (listing status db ! k)) (row_PublicID (listing status db ! k)) r) (db_rows db))
    = drop (Suc k) (listing status db)"
proof -
  have "filter (\<lambda>r. status_filter status r \<and> row_newer a r) rs = filter (row_newer a) (filter (status_filter status) rs)"
    for a rs by (simp add: conj_commute)
  then show ?thesis
    unfolding row_after_newer
    using filter_newer_drop [OF listing_strict [OF assms(1)] assms(2)]
    by (simp add: newer.sort_filter listing_def)
qed

lemma page_rows:
  assumes inv: "db_inv J db" and E: "list_healthy E" and i: "i \<le> length (listing status db)"
    and cur: "decodeCursor (cursor_at (listing status db) i) = Inr cur"
  shows "(case cur of
      None \<Rightarrow> if status = [] then q_ListSubmissionsAll E n db else q_ListSubmissionsByStatus E status n db
    | Some (ts, pid) \<Rightarrow> if status = [] then q_ListSubmissionsAllAfter E ts pid n db
                        else q_ListSubmissionsByStatusAfter E status ts pid n db)
    = Inr (take (nat n) (drop i (listing status db)))"
proof (cases i)
  case 0
  then have "cur = None" using cur by (simp add: cursor_at_def decodeCursor_def)
  then show ?thesis
    using E 0 by (simp add: list_healthy_def q_ListSubmissionsAll_def q_ListSubmissionsByStatus_def with_fault_def
        select_rows_def listing_def status_filter_def [abs_def])
next
  case (Suc k)
  let ?r = "listing status db ! k"
  have k: "k < length (listing status db)" using i Suc by simp
  then have "?r \<in> set (db_rows db)" using nth_mem [OF k] by (auto simp: listing_def)
  then have "row_ok J ?r" using inv by (auto simp: db_inv_def list_all_iff)
  then have "cur = Some (row_CreatedAt ?r, row_PublicID ?r)"
    using cur Suc by (simp add: cursor_at_def decode_row_cursor)
  then show ?thesis
    using E Suc select_after [OF inv k]
    by (cases "status = []") (simp_all add: list_healthy_def q_ListSubmissionsAllAfter_def q_ListSubmissionsByStatusAfter_def with_fault_def
        select_rows_def status_filter_def [abs_def])
qed

lemma ListPage_at:
  fixes limit :: int
  assumes inv: "db_inv J db" and E: "list_healthy E" and i: "i \<le> length (listing status db)"
  defines "n \<equiv> nat (clamp_list_limit limit)"
  shows "ListPage J E \<lparr>lsq_Status = status, lsq_Limit = limit, lsq_Cursor = cursor_at (listing status db) i\<rparr> db =
     Inr \<lparr>lsp_Items = map (the_sub J) (take n (drop i (listing status db))),
          lsp_NextCursor = (if i + n < length (listing status db) then cursor_at (listing status db) (i + n) else [])\<rparr>"
proof -
  let ?S = "listing status db"
  have n: "1 \<le> n" "int n = clamp_list_limit limit" "nat (clamp_list_limit limit + 1) = n + 1"
    using clamp_list_limit_bounds [of limit] by (auto simp: n_def nat_add_distrib)
  have ok: "list_all (row_ok J) ?S" using inv by (auto simp: db_inv_def list_all_iff listing_def)
  then have sub: "list_all (row_ok J) (take k (drop i ?S))" for k
    by (auto simp: list_all_iff dest: in_set_takeD in_set_dropD)
  have "\<exists>cur. decodeCursor (cursor_at ?S i) = Inr cur"
  proof (cases i)
    case (Suc k)
    then have "row_ok J (?S ! k)" using ok i by (simp add: list_all_length)
    then show ?thesis using Suc by (simp add: cursor_at_def decode_row_cursor)
  qed (simp add: cursor_at_def decodeCursor_def)
  then obtain cur where cur: "decodeCursor (cursor_at ?S i) = Inr cur" by blast
  have rows: "take (nat (clamp_list_limit limit + 1)) (drop i ?S) = take (n + 1) (drop i ?S)" by (simp add: n(3))
  show ?thesis
  proof (cases "i + n < length ?S")
    case True
    then have more: "int (length (take (n + 1) (drop i ?S))) > clamp_list_limit limit"
      unfolding n(2) [symmetric] by simp
    have last: "take (n + 1) (drop i ?S) ! nat (clamp_list_limit limit - 1) = ?S ! (i + n - 1)"
      using True n by (simp add: n_def nat_diff_distrib add_diff_eq)
    have nxt: "cursor_at ?S (i + n) = encodeCursor (row_CreatedAt (?S ! (i + n - 1))) (row_PublicID (?S ! (i + n - 1)))"
      using n(1) by (simp add: cursor_at_def)
    show ?thesis
      unfolding ListPage_def Let_def list_query.simps cur sum.case page_rows [OF inv E i cur] rows nxt
      using True more last by (simp add: rows_to_submissions_ok [OF sub] n_def [symmetric])
  next
    case False
    then have more: "\<not> int (length (take (n + 1) (drop i ?S))) > clamp_list_limit limit"
      unfolding n(2) [symmetric] by simp
    have "take (n + 1) (drop i ?S) = take n (drop i ?S)" using False by simp
    then show ?thesis
      unfolding ListPage_def Let_def list_query.simps cur sum.case page_rows [OF inv E i cur] rows
      using False more rows_to_submissions_ok [OF sub, of "length ?S"] by simp
  qed
qed

section \<open>All pages\<close>

text \<open>
  A client that follows \<open>NextCursor\<close> until it is empty, reading at most \<open>fuel\<close> pages; \<open>None\<close> if a page
  fails or the fuel runs out.
\<close>

fun follow_pages :: "nat \<Rightarrow> payload_codec \<Rightarrow> call_env \<Rightarrow> string \<Rightarrow> int \<Rightarrow> string \<Rightarrow> sub_db \<Rightarrow> submission list option" where
  "follow_pages 0 J E status limit cursor db = None"
| "follow_pages (Suc fuel) J E status limit cursor db =
     (case ListPage J E \<lparr>lsq_Status = status, lsq_Limit = limit, lsq_Cursor = cursor\<rparr> db of
        Inl _ \<Rightarrow> None
      | Inr page \<Rightarrow> if lsp_NextCursor page = [] then Some (lsp_Items page)
          else map_option (\<lambda>rest. lsp_Items page @ rest) (follow_pages fuel J E status limit (lsp_NextCursor page) db))"

lemma follow_pages_from:
  assumes inv: "db_inv J db" and E: "list_healthy E"
  shows "i \<le> length (listing status db) \<Longrightarrow> length (listing status db) - i < fuel \<Longrightarrow>
    follow_pages fuel J E status limit (cursor_at (listing status db) i) db =
      Some (map (the_sub J) (drop i (listing status db)))"
proof (induction fuel arbitrary: i)
  case (Suc fuel)
  let ?S = "listing status db" and ?n = "nat (clamp_list_limit limit)"
  have n: "1 \<le> ?n" using clamp_list_limit_bounds(1) [of limit] by simp
  show ?case
  proof (cases "i + ?n < length ?S")
    case True
    then have "cursor_at ?S (i + ?n) \<noteq> []" using clamp_list_limit_bounds(1) [of limit] by (simp add: cursor_at_def encodeCursor_nonempty)
    moreover have "follow_pages fuel J E status limit (cursor_at ?S (i + ?n)) db =
        Some (map (the_sub J) (drop (i + ?n) ?S))"
      using True n Suc.prems by (intro Suc.IH) auto
    moreover have "take ?n (drop i ?S) @ drop (i + ?n) ?S = drop i ?S"
      by (metis append_take_drop_id drop_drop add.commute)
    ultimately show ?thesis
      using True ListPage_at [OF inv E Suc.prems(1), of limit] by (simp flip: map_append)
  next
    case False
    then have "take ?n (drop i ?S) = drop i ?S" by simp
    then show ?thesis using False ListPage_at [OF inv E Suc.prems(1), of limit] by simp
  qed
qed simp

text \<open>What the pages hold, in terms of the abstract queue.\<close>

lemma set_listing_abs:
  assumes "db_inv J db"
  shows "x \<in> set (map (the_sub J) (listing status db)) \<longleftrightarrow>
    (\<exists>pid. sub_abs J db pid = Some x \<and> (status = [] \<or> sub_Status x = status))"
proof
  assume "x \<in> set (map (the_sub J) (listing status db))"
  then obtain r where r: "r \<in> set (db_rows db)" "status_filter status r" "x = the_sub J r"
    by (auto simp: listing_def)
  have "find_row (row_PublicID r) (db_rows db) = Some r"
  proof (cases "find_row (row_PublicID r) (db_rows db)")
    case None
    with r(1) show ?thesis by (auto simp: find_row_None)
  next
    case (Some r')
    with r(1) find_row_Some [OF Some] assms show ?thesis
      by (auto simp: db_inv_def distinct_map dest: inj_onD)
  qed
  then obtain y where "rowToSubmission J r = Inr y" "sub_abs J db (row_PublicID r) = Some y" "sub_Status y = row_Status r"
    using sub_abs_row [OF assms] by metis
  with r show "\<exists>pid. sub_abs J db pid = Some x \<and> (status = [] \<or> sub_Status x = status)"
    by (auto simp: the_sub_def status_filter_def)
next
  assume "\<exists>pid. sub_abs J db pid = Some x \<and> (status = [] \<or> sub_Status x = status)"
  then obtain pid where p: "sub_abs J db pid = Some x" "status = [] \<or> sub_Status x = status" by blast
  then obtain r where r: "find_row pid (db_rows db) = Some r" "rowToSubmission J r = Inr x"
    by (auto simp: sub_abs_def split: option.splits sum.splits)
  then have "r \<in> set (listing status db)" "the_sub J r = x"
    using find_row_Some [OF r(1)] rowToSubmission_Inr [OF r(2)] p(2)
    by (auto simp: listing_def status_filter_def the_sub_def)
  then show "x \<in> set (map (the_sub J) (listing status db))" by force
qed

lemma the_sub_fields:
  assumes "row_ok J r"
  shows "sub_PublicID (the_sub J r) = row_PublicID r"
    and "\<exists>t. four_digit_year t \<and> row_CreatedAt r = fmt_millis t \<and> sub_CreatedAt (the_sub J r) = trunc_ms t"
proof -
  obtain x where x: "rowToSubmission J r = Inr x" using assms by (auto simp: row_ok_def)
  then show "sub_PublicID (the_sub J r) = row_PublicID r" by (simp add: the_sub_def rowToSubmission_Inr)
  obtain t where t: "four_digit_year t" "row_CreatedAt r = fmt_millis t" using assms by (auto simp: row_ok_def)
  with x have "sub_CreatedAt x = trunc_ms t"
    by (auto simp: rowToSubmission_def parseSQLiteTime_fmt split: sum.splits option.splits if_splits)
  with x t show "\<exists>t. four_digit_year t \<and> row_CreatedAt r = fmt_millis t \<and> sub_CreatedAt (the_sub J r) = trunc_ms t"
    by (auto simp: the_sub_def)
qed

lemma newer_created:
  assumes "row_ok J a" "row_ok J b" "row_newer a b"
  shows "sub_CreatedAt (the_sub J a) \<ge> sub_CreatedAt (the_sub J b)"
proof -
  obtain s t where s: "four_digit_year s" "row_CreatedAt a = fmt_millis s" "sub_CreatedAt (the_sub J a) = trunc_ms s"
    and t: "four_digit_year t" "row_CreatedAt b = fmt_millis t" "sub_CreatedAt (the_sub J b) = trunc_ms t"
    using the_sub_fields(2) [OF assms(1)] the_sub_fields(2) [OF assms(2)] by blast
  have "\<not> fmt_millis s < fmt_millis t"
    using assms(3) s t by (auto simp: row_newer_def split: if_splits)
  then have "t div millisecond \<le> s div millisecond" using fmt_millis_less_iff [OF s(1) t(1)] by simp
  then show ?thesis unfolding s(3) t(3) trunc_ms_def by (simp add: millisecond_def)
qed

text \<open>Newest first, no id twice, exactly the submissions with the status asked for.\<close>

definition complete_listing :: "sub_map \<Rightarrow> string \<Rightarrow> submission list \<Rightarrow> bool" where
  "complete_listing m status xs \<longleftrightarrow>
     distinct (map sub_PublicID xs) \<and>
     sorted_wrt (\<lambda>x y. sub_CreatedAt x \<ge> sub_CreatedAt y) xs \<and>
     (\<forall>x. x \<in> set xs \<longleftrightarrow> (\<exists>pid. m pid = Some x \<and> (status = [] \<or> sub_Status x = status)))"

lemma listing_complete:
  assumes "db_inv J db"
  shows "complete_listing (sub_abs J db) status (map (the_sub J) (listing status db))"
proof -
  have ok: "row_ok J r" if "r \<in> set (listing status db)" for r
    using that assms by (auto simp: listing_def db_inv_def list_all_iff)
  have "map sub_PublicID (map (the_sub J) (listing status db)) = map row_PublicID (listing status db)"
    by (simp add: the_sub_fields(1) [OF ok])
  then have "distinct (map sub_PublicID (map (the_sub J) (listing status db)))"
    using listing_ids [OF assms] by metis
  moreover have "sorted_wrt (\<lambda>x y. sub_CreatedAt x \<ge> sub_CreatedAt y) (map (the_sub J) (listing status db))"
    unfolding sorted_wrt_map
    by (rule sorted_wrt_mono_rel [OF _ listing_strict [OF assms]]) (rule newer_created [OF ok ok])
  ultimately show ?thesis
    unfolding complete_listing_def using set_listing_abs [OF assms] by blast
qed

lemma follow_pages_complete:
  assumes "db_inv J db" "list_healthy E" "length (db_rows db) < fuel"
  shows "\<exists>xs. follow_pages fuel J E status limit [] db = Some xs \<and> complete_listing (sub_abs J db) status xs"
proof -
  have "length (listing status db) < fuel"
    using assms(3) le_less_trans [OF length_filter_le] by (simp add: listing_def)
  then have "follow_pages fuel J E status limit (cursor_at (listing status db) 0) db =
      Some (map (the_sub J) (listing status db))"
    using follow_pages_from [OF assms(1,2), of 0] by simp
  then show ?thesis using listing_complete [OF assms(1)] by (auto simp: cursor_at_def)
qed

section \<open>Properties\<close>

text \<open>C1. The SQLite store implements the contract of \<open>atlas.SubmissionStore\<close>. From a well-formed table,
  and whatever statements the driver fails, a call leaves a well-formed table, has exactly the specified
  effect on the queue or none at all, and answers without an error only when it had the specified effect
  and with the specified answer. When no statement fails (and a new id is unused), the answer, errors
  included, and the effect are the specified ones: create adds a pending submission, approve and reject
  decide a pending one, refuse a decided one with ErrSubmissionNotPending and an unknown one with
  ErrSubmissionNotFound, and the promotion result is recorded as given.\<close>

theorem sqlite_store_refines:
  assumes "db_inv J db" "env_ok J E op" "sqlite_exec J E op db = (r, db')"
    "spec_exec (ce_now E) (spec_id E) op (sub_abs J db) = (r0, m0)"
  shows "db_inv J db' \<and> (sub_abs J db' = sub_abs J db \<or> sub_abs J db' = m0) \<and>
    (\<forall>y. r = Inr y \<longrightarrow> r0 = Inr y \<and> sub_abs J db' = m0) \<and>
    (fault_free J E op (sub_abs J db) \<longrightarrow> r = r0 \<and> sub_abs J db' = m0)"
  using sqlite_refines_at [OF assms(1,2)]
  unfolding refines_at_def Let_def assms(3,4) prod.case .

text \<open>C2. Over any sequence of calls, faults of the driver included, a submission is decided at most
  once (at most one Approve or Reject of it is answered without an error), no submission disappears, what
  was submitted never changes, and the status, time and reason of a decision are final.\<close>

theorem submission_decided_once:
  assumes "db_inv J db" "\<forall>(E, op)\<in>set calls. env_ok J E op" "run (sqlite_exec J) calls db = (answers, db')"
  shows "length (filter (decides pid) answers) \<le> 1 \<and>
    (\<forall>x. sub_abs J db pid = Some x \<longrightarrow> (\<exists>y. sub_abs J db' pid = Some y \<and> evolves x y))"
  using sq.decided_once [OF assms, of pid] sq.run_inv_evolves [OF assms] by blast

text \<open>C3. A client that follows NextCursor from the empty cursor reaches the last page, for every page
  size and status filter (the empty status means all), and has then seen every matching submission once,
  newest first: one more page than there are rows is always enough.\<close>

theorem ListPage_pages_complete:
  assumes "db_inv J db" "list_healthy E"
  shows "\<exists>xs. follow_pages (Suc (length (db_rows db))) J E status limit [] db = Some xs \<and>
    complete_listing (sub_abs J db) status xs"
  by (rule follow_pages_complete [OF assms]) simp

text \<open>The timestamps the store writes sort, as TEXT, in the order of the instants they stand for, to
  the millisecond, and are read back as the instant truncated to the millisecond (for years of at most
  four digits).\<close>

theorem sqlite_time_text:
  assumes "four_digit_year s" "four_digit_year t"
  shows "(fmt_millis s < fmt_millis t \<longleftrightarrow> trunc_ms s < trunc_ms t) \<and>
    (fmt_millis s = fmt_millis t \<longleftrightarrow> trunc_ms s = trunc_ms t) \<and>
    parseSQLiteTime J (fmt_millis s) = Inr (trunc_ms s)"
  using fmt_millis_less_iff [OF assms] fmt_millis_eq_iff [OF assms] parseSQLiteTime_fmt [OF assms(1)]
  by (simp add: trunc_ms_def millisecond_def)


section \<open>Instances\<close>

definition demo_payload :: submission_payload where
  "demo_payload = \<lparr>sp_Name = ''Walk'', sp_ShortDesc = ''d'', sp_WebsiteURL = ''https://w.org'', sp_ContactURL = [],
     sp_Tags = [], sp_RegionSlugs = [''ny'']\<rparr>"

definition demo_new :: new_submission_input where
  "demo_new = \<lparr>ni_Payload = demo_payload, ni_SubmitterName = [], ni_SubmitterEmail = ''a@b.c'', ni_SubmitterNote = []\<rparr>"

definition demo_codec :: payload_codec where
  "demo_codec = \<lparr>js_marshal = (\<lambda>p. Inr (sp_Name p)),
     js_unmarshal = (\<lambda>j. Inr (demo_payload\<lparr>sp_Name := j\<rparr>)), tm_parse = (\<lambda>_ _. None)\<rparr>"

definition demo_env :: "instant \<Rightarrow> string \<Rightarrow> call_env" where
  "demo_env now pid = \<lparr>ce_now = now, ce_newid = Inr pid, ce_fault = (\<lambda>_. None), ce_landed = True\<rparr>"

lemma empty_db_inv [simp]: "db_inv J empty_db"
  by (simp add: db_inv_def empty_db_def)

lemma demo_four_digit: "four_digit_year 0" "four_digit_year (3 * second)"
  by code_simp+

lemma demo_env_ok:
  "four_digit_year now \<Longrightarrow> pid \<noteq> [] \<Longrightarrow> op \<in> {OpCreate demo_new, OpApprove q, OpReject q reason} \<Longrightarrow>
   env_ok demo_codec (demo_env now pid) op"
  by (auto simp: env_ok_def demo_env_def demo_codec_def demo_new_def demo_payload_def)

lemma demo_fault_free: "fault_free demo_codec (demo_env now pid) (OpCreate demo_new) (sub_abs demo_codec empty_db)"
  by (simp add: fault_free_def demo_env_def demo_codec_def sub_abs_def empty_db_def)

theorem sqlite_store_refines_witness:
  "let E = demo_env 0 ''a''; (r, db') = sqlite_exec demo_codec E (OpCreate demo_new) empty_db in
     db_inv demo_codec db' \<and> r = Inr (Some (created ''a'' 0 demo_new)) \<and>
     sub_abs demo_codec db' ''a'' = Some (created ''a'' 0 demo_new)"
proof -
  obtain r db' where ex: "sqlite_exec demo_codec (demo_env 0 ''a'') (OpCreate demo_new) empty_db = (r, db')"
    by fastforce
  have spec: "spec_exec (ce_now (demo_env 0 ''a'')) (spec_id (demo_env 0 ''a'')) (OpCreate demo_new)
      (sub_abs demo_codec empty_db) =
      (Inr (Some (created ''a'' 0 demo_new)), (sub_abs demo_codec empty_db)(''a'' \<mapsto> created ''a'' 0 demo_new))"
    by (simp add: spec_id_def demo_env_def sub_abs_def empty_db_def)
  have ok: "env_ok demo_codec (demo_env 0 ''a'') (OpCreate demo_new)"
    by (rule demo_env_ok) (simp_all add: demo_four_digit)
  from sqlite_store_refines [OF empty_db_inv ok ex spec] demo_fault_free
  have "db_inv demo_codec db'" "r = Inr (Some (created ''a'' 0 demo_new))"
    "sub_abs demo_codec db' = (sub_abs demo_codec empty_db)(''a'' \<mapsto> created ''a'' 0 demo_new)" by blast+
  then show ?thesis unfolding Let_def ex prod.case by simp
qed

definition demo_calls :: "(call_env \<times> sub_op) list" where
  "demo_calls = [(demo_env 0 ''a'', OpCreate demo_new), (demo_env (3 * second) ''b'', OpCreate demo_new),
     (demo_env (3 * second) ''c'', OpApprove ''a''), (demo_env (3 * second) ''c'', OpReject ''a'' ''dup'')]"

lemma demo_calls_ok: "\<forall>(E, op)\<in>set demo_calls. env_ok demo_codec E op"
  by (simp add: demo_calls_def demo_env_ok demo_four_digit)

theorem submission_decided_once_witness:
  "length (filter (decides ''a'') (fst (run (sqlite_exec demo_codec) demo_calls empty_db))) \<le> 1"
proof -
  obtain rs db' where r: "run (sqlite_exec demo_codec) demo_calls empty_db = (rs, db')" by fastforce
  from submission_decided_once [OF empty_db_inv demo_calls_ok r, of "''a''"] r show ?thesis by simp
qed

theorem ListPage_pages_complete_witness:
  "let db = snd (run (sqlite_exec demo_codec) demo_calls empty_db) in
   \<exists>xs. follow_pages (Suc (length (db_rows db))) demo_codec (demo_env 0 ''a'') [] 1 [] db = Some xs \<and>
     complete_listing (sub_abs demo_codec db) [] xs"
proof -
  obtain rs db' where r: "run (sqlite_exec demo_codec) demo_calls empty_db = (rs, db')" by fastforce
  have inv: "db_inv demo_codec db'" using sq.run_inv_evolves [OF empty_db_inv demo_calls_ok r] by blast
  have h: "list_healthy (demo_env 0 ''a'')" by (simp add: list_healthy_def demo_env_def)
  from ListPage_pages_complete [OF inv h, of "[]" 1] show ?thesis by (simp only: r Let_def snd_conv)
qed

theorem sqlite_time_text_witness:
  "fmt_millis 0 = ''0001-01-01T00:00:00.000Z'' \<and> fmt_millis (3 * second) = ''0001-01-01T00:00:03.000Z'' \<and>
   fmt_millis 0 < fmt_millis (3 * second) \<and> parseSQLiteTime demo_codec (fmt_millis 0) = Inr 0"
proof -
  have "fmt_millis 0 = ''0001-01-01T00:00:00.000Z''" "fmt_millis (3 * second) = ''0001-01-01T00:00:03.000Z''"
    by code_simp+
  moreover have "trunc_ms 0 < trunc_ms (3 * second)" "trunc_ms 0 = 0"
    by (simp_all add: trunc_ms_def duration_defs)
  ultimately show ?thesis using sqlite_time_text [OF demo_four_digit, of demo_codec] by metis
qed


end
