(* ===== verification/Rate_Limit.thy ===== *)
theory Rate_Limit
  imports Submission_Pages "HOL-Library.Word"
begin

unbundle bit_operations_syntax

text \<open>
  The submission limits of the HTTP layer, \<open>api/internal/httpapi/ratelimit.go\<close> with the constants of
  tuning.go: the sliding-window limiter, the bucketing of client addresses and the pending-queue check.

  The limiter's slices share their backing arrays with what \<open>keepRecent\<close> returns, but every branch of
  \<open>allow\<close> stores the filtered slice back (or deletes the key), so slices are values here. The parser and
  printer of \<open>net/netip\<close> addresses are parameters; unmapping, dropping the zone and masking are written
  out on 32- and 128-bit words.
\<close>

section \<open>The sliding window\<close>

record ip_rate_limiter =
  rl_hits :: "(string, instant list) gomap"
  rl_global :: "instant list"
  rl_window :: int
  rl_maxPerWin :: int
  rl_globalMax :: int
  rl_lastSwept :: instant
  rl_sweepEvery :: int

definition rateLimitWindow :: int where "rateLimitWindow = hour"
definition submissionsGlobalPerWindow :: int where "submissionsGlobalPerWindow = 30"
definition rateLimitSweepInterval :: int where "rateLimitSweepInterval = 5 * minute"

definition newIPRateLimiter :: "int \<Rightarrow> int \<Rightarrow> ip_rate_limiter" where
  "newIPRateLimiter maxPerWindow window =
     \<lparr>rl_hits = [], rl_global = [],
      rl_window = (if window \<le> 0 then rateLimitWindow else window),
      rl_maxPerWin = (if maxPerWindow \<le> 0 then 5 else maxPerWindow),
      rl_globalMax = submissionsGlobalPerWindow, rl_lastSwept = 0, rl_sweepEvery = rateLimitSweepInterval\<rparr>"

definition keepRecent :: "instant list \<Rightarrow> instant \<Rightarrow> instant list" where
  "keepRecent ts cutoff = filter (\<lambda>t. t > cutoff) ts"

text \<open>\<open>int(d.Seconds())\<close> truncates toward zero; the float64 is exact enough for a window of hours.\<close>

definition trunc_seconds :: "int \<Rightarrow> int" where
  "trunc_seconds d = (if d \<ge> 0 then d div second else - ((- d) div second))"

definition retryAfter :: "int \<Rightarrow> instant \<Rightarrow> instant \<Rightarrow> int" where
  "retryAfter window oldest now = max (trunc_seconds (oldest + window - now) + 1) 1"

text \<open>The sweep: each key keeps its recent hits, or is deleted when none is left.\<close>

definition sweep :: "instant \<Rightarrow> (string, instant list) gomap \<Rightarrow> (string, instant list) gomap" where
  "sweep cutoff m = filter (\<lambda>(k, ts). ts \<noteq> []) (map (\<lambda>(k, ts). (k, keepRecent ts cutoff)) m)"

definition allow_key :: "string \<Rightarrow> instant \<Rightarrow> ip_rate_limiter \<Rightarrow> (bool \<times> int) \<times> ip_rate_limiter" where
  "allow_key key now l =
     (let cutoff = now - rl_window l;
          l1 = (if now - rl_lastSwept l > rl_sweepEvery l
                then l\<lparr>rl_hits := sweep cutoff (rl_hits l), rl_lastSwept := now\<rparr> else l);
          recent = keepRecent (mget_list (rl_hits l1) key) cutoff
      in if int (length recent) \<ge> rl_maxPerWin l1
         then ((False, retryAfter (rl_window l1) (hd recent) now), l1\<lparr>rl_hits := mput key recent (rl_hits l1)\<rparr>)
         else
          (let l2 = l1\<lparr>rl_global := keepRecent (rl_global l1) cutoff\<rparr>
           in if int (length (rl_global l2)) \<ge> rl_globalMax l2
              then ((False, retryAfter (rl_window l2) (hd (rl_global l2)) now),
                    if recent = [] then l2\<lparr>rl_hits := mdel key (rl_hits l2)\<rparr>
                    else l2\<lparr>rl_hits := mput key recent (rl_hits l2)\<rparr>)
              else ((True, 0), l2\<lparr>rl_hits := mput key (recent @ [now]) (rl_hits l2),
                                 rl_global := rl_global l2 @ [now]\<rparr>)))"

section \<open>Client addresses\<close>

text \<open>A parsed address; an IPv6 address has a zone, empty when absent.\<close>

datatype ip_addr = IPv4 "32 word" | IPv6 "128 word" string

record netip =
  na_ParseAddr :: "string \<Rightarrow> ip_addr option"
  na_String :: "ip_addr \<Rightarrow> string"
  na_PrefixString :: "ip_addr \<Rightarrow> nat \<Rightarrow> string"

text \<open>\<open>Addr.Unmap\<close>: an address of ::ffff:0:0/96 is the IPv4 address in its low 32 bits.\<close>

fun Unmap :: "ip_addr \<Rightarrow> ip_addr" where
  "Unmap (IPv4 a) = IPv4 a"
| "Unmap (IPv6 a z) = (if drop_bit 32 a = 0xFFFF then IPv4 (ucast a) else IPv6 a z)"

fun WithoutZone :: "ip_addr \<Rightarrow> ip_addr" where
  "WithoutZone (IPv4 a) = IPv4 a"
| "WithoutZone (IPv6 a z) = IPv6 a []"

definition mask64 :: "128 word \<Rightarrow> 128 word" where
  "mask64 a = a AND 0xFFFFFFFFFFFFFFFF0000000000000000"

definition rateLimitKey :: "netip \<Rightarrow> string \<Rightarrow> string" where
  "rateLimitKey N ip =
     (case na_ParseAddr N ip of
        None \<Rightarrow> ip
      | Some a \<Rightarrow> (case WithoutZone (Unmap a) of
          IPv4 v \<Rightarrow> na_String N (IPv4 v)
        | IPv6 v z \<Rightarrow> na_PrefixString N (IPv6 (mask64 v) []) 64))"

definition allow :: "netip \<Rightarrow> string \<Rightarrow> instant \<Rightarrow> ip_rate_limiter \<Rightarrow> (bool \<times> int) \<times> ip_rate_limiter" where
  "allow N ip now l = allow_key (rateLimitKey N ip) now l"

text \<open>\<open>net.SplitHostPort\<close>; \<open>None\<close> is an error.\<close>

definition has_byte :: "string \<Rightarrow> char \<Rightarrow> bool" where
  "has_byte s c \<longleftrightarrow> index_byte s c \<noteq> None"

definition SplitHostPort :: "string \<Rightarrow> (string \<times> string) option" where
  "SplitHostPort hp =
     (case last_index_byte hp CHR '':'' of
        None \<Rightarrow> None
      | Some i \<Rightarrow>
         if hd hp = CHR ''['' then
           (case index_byte hp CHR '']'' of
              None \<Rightarrow> None
            | Some e \<Rightarrow>
                if e + 1 \<noteq> i then None
                else if has_byte (drop 1 hp) CHR ''['' \<or> has_byte (drop (e + 1) hp) CHR '']'' then None
                else Some (drop 1 (take e hp), drop (i + 1) hp))
         else if has_byte (take i hp) CHR '':'' then None
         else if has_byte hp CHR ''['' \<or> has_byte hp CHR '']'' then None
         else Some (take i hp, drop (i + 1) hp))"

text \<open>The header is the value of Fly-Client-IP, empty when absent.\<close>

definition clientIP :: "string \<Rightarrow> string \<Rightarrow> string" where
  "clientIP flyClientIP remoteAddr =
     (if flyClientIP \<noteq> [] then trim_space flyClientIP
      else case SplitHostPort remoteAddr of None \<Rightarrow> remoteAddr | Some (host, _) \<Rightarrow> host)"

section \<open>The pending queue\<close>

definition maxPendingSubmissions :: int where "maxPendingSubmissions = 200"
definition pendingQueueCheckInterval :: int where "pendingQueueCheckInterval = minute"
definition pendingQueueRetryInterval :: int where "pendingQueueRetryInterval = 5 * second"

lemmas queue_tuning = maxPendingSubmissions_def pendingQueueCheckInterval_def pendingQueueRetryInterval_def duration_defs

record pending_queue =
  pq_maxPending :: int
  pq_checkedAt :: instant
  pq_isFull :: bool

definition newPendingQueue :: "int \<Rightarrow> pending_queue" where
  "newPendingQueue maxPending = \<lparr>pq_maxPending = maxPending, pq_checkedAt = 0, pq_isFull = False\<rparr>"

text \<open>\<open>list\<close> is the store's \<open>List\<close>.\<close>

definition full :: "(list_query \<Rightarrow> submission list result) \<Rightarrow> instant \<Rightarrow> pending_queue \<Rightarrow> bool \<times> pending_queue" where
  "full list now q =
     (if pq_checkedAt q \<noteq> 0 \<and> now - pq_checkedAt q < pendingQueueCheckInterval then (pq_isFull q, q)
      else case list \<lparr>lsq_Status = SubmissionPending, lsq_Limit = pq_maxPending q, lsq_Cursor = []\<rparr> of
        Inl e \<Rightarrow> (pq_isFull q, q\<lparr>pq_checkedAt := now + (pendingQueueRetryInterval - pendingQueueCheckInterval)\<rparr>)
      | Inr items \<Rightarrow>
          (let isFull = int (length items) \<ge> pq_maxPending q
           in (isFull, q\<lparr>pq_isFull := isFull, pq_checkedAt := now\<rparr>)))"

section \<open>The limiter keeps both budgets\<close>

lemma keepRecent_keepRecent [simp]: "c \<le> c' \<Longrightarrow> keepRecent (keepRecent ts c) c' = keepRecent ts c'"
  unfolding keepRecent_def filter_filter by (rule filter_cong) auto

lemma keepRecent_append [simp]: "keepRecent (ts @ us) c = keepRecent ts c @ keepRecent us c"
  by (simp add: keepRecent_def)

lemma keepRecent_Nil [simp]: "keepRecent [] c = []"
  by (simp add: keepRecent_def)

lemma wf_sweep: "wf_map m \<Longrightarrow> wf_map (sweep c m)"
proof -
  assume "wf_map m"
  then have "distinct (map fst (map (\<lambda>(k, ts). (k, keepRecent ts c)) m))"
    by (simp add: wf_map_def case_prod_beta comp_def)
  then show ?thesis unfolding wf_map_def sweep_def by (rule distinct_map_filter)
qed

lemma mget_list_absent: "k \<notin> fst ` set m \<Longrightarrow> mget_list m k = []"
  by (simp add: mget_list_def mget_def map_of_eq_None_iff split: option.split) (metis map_of_eq_None_iff option.distinct(1))

lemma keys_sweep: "fst ` set (sweep c m) \<subseteq> fst ` set m"
  by (force simp: sweep_def)

lemma mget_list_sweep: "wf_map m \<Longrightarrow> mget_list (sweep c m) k = keepRecent (mget_list m k) c"
proof (induction m)
  case (Cons e m)
  obtain k' ts where e: "e = (k', ts)" by fastforce
  have wf: "wf_map m" "k' \<notin> fst ` set m" using Cons.prems e by (auto simp: wf_map_def)
  have none: "mget_list (sweep c m) k' = []"
    using wf(2) keys_sweep [of c m] by (intro mget_list_absent) auto
  show ?case
  proof (cases "k = k'")
    case True
    then show ?thesis using none e by (auto simp: sweep_def mget_list_def mget_Cons)
  next
    case False
    then show ?thesis using Cons.IH [OF wf(1)] e by (auto simp: sweep_def mget_list_def mget_Cons)
  qed
qed (simp add: sweep_def)

text \<open>The budgets as the next request at time \<open>now\<close> finds them.\<close>

definition recent_hits :: "string \<Rightarrow> instant \<Rightarrow> ip_rate_limiter \<Rightarrow> instant list" where
  "recent_hits key now l = keepRecent (mget_list (rl_hits l) key) (now - rl_window l)"

definition recent_global :: "instant \<Rightarrow> ip_rate_limiter \<Rightarrow> instant list" where
  "recent_global now l = keepRecent (rl_global l) (now - rl_window l)"

definition client_full :: "string \<Rightarrow> instant \<Rightarrow> ip_rate_limiter \<Rightarrow> bool" where
  "client_full key now l \<longleftrightarrow> int (length (recent_hits key now l)) \<ge> rl_maxPerWin l"

definition global_full :: "instant \<Rightarrow> ip_rate_limiter \<Rightarrow> bool" where
  "global_full now l \<longleftrightarrow> int (length (recent_global now l)) \<ge> rl_globalMax l"

text \<open>\<open>allow_key\<close> after its optional sweep, which later requests cannot tell from no sweep.\<close>

definition after_sweep :: "string \<Rightarrow> instant \<Rightarrow> ip_rate_limiter \<Rightarrow> ip_rate_limiter \<Rightarrow> (bool \<times> int) \<times> ip_rate_limiter" where
  "after_sweep key now l l1 =
     (if client_full key now l
      then ((False, retryAfter (rl_window l) (hd (recent_hits key now l)) now),
            l1\<lparr>rl_hits := mput key (recent_hits key now l) (rl_hits l1)\<rparr>)
      else if global_full now l
      then ((False, retryAfter (rl_window l) (hd (recent_global now l)) now),
            l1\<lparr>rl_global := recent_global now l, rl_hits := (if recent_hits key now l = [] then mdel key (rl_hits l1)
               else mput key (recent_hits key now l) (rl_hits l1))\<rparr>)
      else ((True, 0), l1\<lparr>rl_hits := mput key (recent_hits key now l @ [now]) (rl_hits l1),
              rl_global := recent_global now l @ [now]\<rparr>))"

lemma allow_key_step:
  assumes "wf_map (rl_hits l)"
  obtains l1 where "rl_window l1 = rl_window l" "rl_maxPerWin l1 = rl_maxPerWin l" "rl_globalMax l1 = rl_globalMax l"
    and "rl_global l1 = rl_global l" "wf_map (rl_hits l1)"
    and "\<And>k now'. now \<le> now' \<Longrightarrow> keepRecent (mget_list (rl_hits l1) k) (now' - rl_window l) = recent_hits k now' l"
    and "allow_key key now l = after_sweep key now l l1"
proof -
  define c where "c = now - rl_window l"
  define l1 where "l1 = (if now - rl_lastSwept l > rl_sweepEvery l
    then l\<lparr>rl_hits := sweep c (rl_hits l), rl_lastSwept := now\<rparr> else l)"
  have l1: "rl_window l1 = rl_window l" "rl_maxPerWin l1 = rl_maxPerWin l" "rl_globalMax l1 = rl_globalMax l"
    "rl_global l1 = rl_global l" "wf_map (rl_hits l1)"
    using assms(1) by (auto simp: l1_def wf_sweep)
  have hits1: "keepRecent (mget_list (rl_hits l1) k) (now' - rl_window l) = recent_hits k now' l" if "now \<le> now'" for k now'
    using that assms(1) by (simp add: l1_def mget_list_sweep c_def recent_hits_def)
  have r: "keepRecent (mget_list (rl_hits l1) key) c = recent_hits key now l"
    and g: "keepRecent (rl_global l) c = recent_global now l"
    by (simp_all add: hits1 recent_global_def c_def)
  show thesis
    by (rule that [OF l1 hits1])
      (use l1 r g in \<open>auto simp: allow_key_def Let_def c_def [symmetric] l1_def [symmetric] client_full_def global_full_def after_sweep_def\<close>)
qed

lemma mget_list_mdel: "mget_list (mdel key m) k = (if k = key then [] else mget_list m k)"
  by (simp add: mget_list_def)

text \<open>
  One request: what it answers, and what every later request (at \<open>now'\<close>) finds. A refused request
  changes neither budget; an accepted one is counted once in its own and once in the shared budget.
\<close>

lemma allow_key_cases:
  assumes "wf_map (rl_hits l)" "allow_key key now l = ((ok, ra), l')"
  shows "ok \<longleftrightarrow> \<not> client_full key now l \<and> \<not> global_full now l"
    and "wf_map (rl_hits l')" "rl_window l' = rl_window l" "rl_maxPerWin l' = rl_maxPerWin l" "rl_globalMax l' = rl_globalMax l"
    and "now \<le> now' \<Longrightarrow> recent_hits k now' l' =
      recent_hits k now' l @ (if ok \<and> k = key then keepRecent [now] (now' - rl_window l) else [])"
    and "now \<le> now' \<Longrightarrow> recent_global now' l' =
      recent_global now' l @ (if ok then keepRecent [now] (now' - rl_window l) else [])"
    and "\<not> ok \<Longrightarrow> ra = retryAfter (rl_window l)
      (hd (if client_full key now l then recent_hits key now l else recent_global now l)) now"
proof -
  from assms(1) obtain l1 where l1: "rl_window l1 = rl_window l" "rl_maxPerWin l1 = rl_maxPerWin l"
    "rl_globalMax l1 = rl_globalMax l" "rl_global l1 = rl_global l" "wf_map (rl_hits l1)"
    and hits1: "\<And>k now'. now \<le> now' \<Longrightarrow> keepRecent (mget_list (rl_hits l1) k) (now' - rl_window l) = recent_hits k now' l"
    and step: "allow_key key now l = after_sweep key now l l1"
    using allow_key_step [where key = key and now = now] by blast
  note step = step [unfolded after_sweep_def]
  have later: "keepRecent (recent_hits key now l) (now' - rl_window l) = recent_hits key now' l"
    "keepRecent (recent_global now l) (now' - rl_window l) = recent_global now' l" if "now \<le> now'" for now'
    using that by (simp_all add: recent_hits_def recent_global_def)
  show "ok \<longleftrightarrow> \<not> client_full key now l \<and> \<not> global_full now l"
    and "wf_map (rl_hits l')" "rl_window l' = rl_window l" "rl_maxPerWin l' = rl_maxPerWin l" "rl_globalMax l' = rl_globalMax l"
    using assms(2) l1 unfolding step by (auto split: if_splits)
  show "ra = retryAfter (rl_window l) (hd (if client_full key now l then recent_hits key now l else recent_global now l)) now"
    if "\<not> ok" using assms(2) that unfolding step by (auto split: if_splits)
  have win: "rl_window l' = rl_window l" using assms(2) l1 unfolding step by (auto split: if_splits)
  show "recent_hits k now' l' = recent_hits k now' l @ (if ok \<and> k = key then keepRecent [now] (now' - rl_window l) else [])"
    if "now \<le> now'"
    using assms(2) later [OF that] hits1 [OF that] unfolding step recent_hits_def [of k now' l'] win
    by (auto simp: mget_list_mdel split: if_splits)
  show "recent_global now' l' = recent_global now' l @ (if ok then keepRecent [now] (now' - rl_window l) else [])"
    if "now \<le> now'"
    using assms(2) later [OF that] l1(4) unfolding step recent_global_def [of now' l'] win
    by (auto simp: recent_global_def split: if_splits)
qed

section \<open>Any sequence of requests\<close>

text \<open>Requests in order, each a time and a client address; the accepted ones are kept with their key.\<close>

fun serve :: "netip \<Rightarrow> (instant \<times> string) list \<Rightarrow> ip_rate_limiter \<Rightarrow> (instant \<times> string) list \<times> ip_rate_limiter" where
  "serve N [] l = ([], l)"
| "serve N ((now, ip) # reqs) l =
     (let ((ok, ra), l') = allow N ip now l; (acc, l'') = serve N reqs l'
      in (if ok then (now, rateLimitKey N ip) # acc else acc, l''))"

text \<open>The accepted requests of a key in the window that starts after \<open>a\<close>.\<close>

definition in_window :: "int \<Rightarrow> instant \<Rightarrow> instant \<Rightarrow> bool" where
  "in_window w a t \<longleftrightarrow> a < t \<and> t \<le> a + w"

definition window_count :: "int \<Rightarrow> instant \<Rightarrow> string \<Rightarrow> (instant \<times> string) list \<Rightarrow> nat" where
  "window_count w a key log = length (filter (\<lambda>(t, k). k = key \<and> in_window w a t) log)"

definition window_total :: "int \<Rightarrow> instant \<Rightarrow> (instant \<times> string) list \<Rightarrow> nat" where
  "window_total w a log = length (filter (\<lambda>(t, k). in_window w a t) log)"

text \<open>
  The state of the limiter reflects the log of accepted requests, as far as requests from \<open>t0\<close> on can
  tell, and the log respects both budgets in every window.
\<close>

definition log_inv :: "(instant \<times> string) list \<Rightarrow> instant \<Rightarrow> ip_rate_limiter \<Rightarrow> bool" where
  "log_inv log t0 l \<longleftrightarrow> wf_map (rl_hits l) \<and> 0 < rl_window l \<and> 0 < rl_maxPerWin l \<and> 0 < rl_globalMax l \<and> (\<forall>(t, k)\<in>set log. t \<le> t0) \<and>
     (\<forall>now\<ge>t0. (\<forall>key. recent_hits key now l = keepRecent (map fst (filter (\<lambda>(t, k). k = key) log)) (now - rl_window l)) \<and>
        recent_global now l = keepRecent (map fst log) (now - rl_window l)) \<and>
     (\<forall>a key. int (window_count (rl_window l) a key log) \<le> rl_maxPerWin l) \<and>
     (\<forall>a. int (window_total (rl_window l) a log) \<le> rl_globalMax l)"

lemma window_count_snoc:
  "window_count w a key (log @ [(t, k)]) = window_count w a key log + (if k = key \<and> in_window w a t then 1 else 0)"
  "window_total w a (log @ [(t, k)]) = window_total w a log + (if in_window w a t then 1 else 0)"
  by (simp_all add: window_count_def window_total_def)

lemma length_filter_mono: "(\<And>x. x \<in> set xs \<Longrightarrow> P x \<Longrightarrow> Q x) \<Longrightarrow> length (filter P xs) \<le> length (filter Q xs)"
  by (induction xs) auto

text \<open>A window that contains the latest request holds no more of the log than the limiter sees.\<close>

lemma window_count_recent:
  assumes "in_window w a now" "\<forall>(t, k)\<in>set log. t \<le> now"
  shows "window_count w a key log \<le> length (keepRecent (map fst (filter (\<lambda>(t, k). k = key) log)) (now - w))"
    and "window_total w a log \<le> length (keepRecent (map fst log) (now - w))"
  unfolding window_count_def window_total_def keepRecent_def filter_map length_map filter_filter
  using assms by (auto intro!: length_filter_mono simp: in_window_def)

lemma log_inv_step:
  assumes inv: "log_inv log t0 l" and t: "t0 \<le> now" and step: "allow_key key now l = ((ok, ra), l')"
  shows "log_inv (if ok then log @ [(now, key)] else log) now l'"
proof -
  have wf: "wf_map (rl_hits l)" using inv by (simp add: log_inv_def)
  note c = allow_key_cases [OF wf step]
  have le: "\<forall>(s, k)\<in>set log. s \<le> now" using inv t by (force simp: log_inv_def)
  have seen: "recent_hits k now' l = keepRecent (map fst (filter (\<lambda>(t, k'). k' = k) log)) (now' - rl_window l)"
    "recent_global now' l = keepRecent (map fst log) (now' - rl_window l)" if "now \<le> now'" for k now'
    using inv t that by (auto simp: log_inv_def)
  have seen': "recent_hits k now' l' = keepRecent (map fst (filter (\<lambda>(t, k'). k' = k) (if ok then log @ [(now, key)] else log))) (now' - rl_window l)"
    "recent_global now' l' = keepRecent (map fst (if ok then log @ [(now, key)] else log)) (now' - rl_window l)"
    if "now \<le> now'" for k now'
    using c(6) [OF that, of k] c(7) [OF that] seen [OF that] by auto
  have old: "int (window_count (rl_window l) a k log) \<le> rl_maxPerWin l" "int (window_total (rl_window l) a log) \<le> rl_globalMax l" for a k
    using inv by (auto simp: log_inv_def)
  have room: "int (window_count (rl_window l) a key log) < rl_maxPerWin l" "int (window_total (rl_window l) a log) < rl_globalMax l"
    if ok "in_window (rl_window l) a now" for a
    using window_count_recent [OF that(2) le] that(1) seen [of now] unfolding c(1) client_full_def global_full_def
    by (simp_all add: not_le) (meson le_less_trans of_nat_mono)+
  have "int (window_count (rl_window l) a k (if ok then log @ [(now, key)] else log)) \<le> rl_maxPerWin l"
    "int (window_total (rl_window l) a (if ok then log @ [(now, key)] else log)) \<le> rl_globalMax l" for a k
    using old(1) [of a k] old(2) [of a] old(1) [of a key] room [of a] by (auto simp: window_count_snoc)
  then show ?thesis
    using inv c(2-5) le seen' unfolding log_inv_def by auto
qed

lemma log_inv_serve:
  assumes "log_inv log t0 l" "sorted (map fst reqs)" "\<forall>r\<in>set reqs. t0 \<le> fst r" "serve N reqs l = (acc, l')"
  shows "\<exists>t1. (t1 = t0 \<or> t1 \<in> fst ` set reqs) \<and> log_inv (log @ acc) t1 l' \<and> rl_window l' = rl_window l \<and> rl_maxPerWin l' = rl_maxPerWin l \<and> rl_globalMax l' = rl_globalMax l"
  using assms
proof (induction reqs arbitrary: log t0 l acc)
  case (Cons r reqs)
  obtain now ip where r: "r = (now, ip)" by fastforce
  obtain ok ra l1 where a: "allow N ip now l = ((ok, ra), l1)" by (metis prod.exhaust)
  obtain acc1 where s: "serve N reqs l1 = (acc1, l')" and acc: "acc = (if ok then (now, rateLimitKey N ip) # acc1 else acc1)"
    using Cons.prems(4) a r by (auto simp: Let_def split: prod.splits)
  have step: "allow_key (rateLimitKey N ip) now l = ((ok, ra), l1)" using a by (simp add: allow_def)
  have t: "t0 \<le> now" using Cons.prems(3) r by simp
  note i1 = log_inv_step [OF Cons.prems(1) t step]
  have wf: "wf_map (rl_hits l)" using Cons.prems(1) by (simp add: log_inv_def)
  have "sorted (map fst reqs)" "\<forall>r\<in>set reqs. now \<le> fst r" using Cons.prems(2) r by auto
  from Cons.IH [OF i1 this s] allow_key_cases(3-5) [OF wf step] acc r show ?case by (auto split: if_splits)
qed auto

lemma log_inv_new: "log_inv [] t0 (newIPRateLimiter maxPerWindow window)"
  by (auto simp: log_inv_def newIPRateLimiter_def recent_hits_def recent_global_def window_count_def window_total_def
      rateLimitWindow_def submissionsGlobalPerWindow_def duration_defs)

text \<open>The slices the limiter looks at are never longer than their budgets.\<close>

lemma log_inv_recent:
  assumes "log_inv log t0 l" "t0 \<le> now"
  shows "int (length (recent_hits key now l)) \<le> rl_maxPerWin l" "int (length (recent_global now l)) \<le> rl_globalMax l"
    and "t \<in> set (recent_hits key now l) \<union> set (recent_global now l) \<Longrightarrow> now - rl_window l < t \<and> t \<le> now"
proof -
  let ?a = "now - rl_window l"
  have le: "s \<le> now" if "(s, k) \<in> set log" for s k using assms that by (force simp: log_inv_def)
  have h: "recent_hits key now l = keepRecent (map fst (filter (\<lambda>(t, k). k = key) log)) ?a"
    and g: "recent_global now l = keepRecent (map fst log) ?a" using assms by (auto simp: log_inv_def)
  have "length (recent_hits key now l) = window_count (rl_window l) ?a key log"
    "length (recent_global now l) = window_total (rl_window l) ?a log"
    unfolding h g window_count_def window_total_def keepRecent_def filter_map length_map filter_filter
    using le by (auto intro!: arg_cong [where f = length] filter_cong simp: in_window_def)
  then show "int (length (recent_hits key now l)) \<le> rl_maxPerWin l" "int (length (recent_global now l)) \<le> rl_globalMax l"
    using assms(1) by (simp_all add: log_inv_def)
  show "now - rl_window l < t \<and> t \<le> now" if "t \<in> set (recent_hits key now l) \<union> set (recent_global now l)"
    using that le unfolding h g keepRecent_def by auto
qed

text \<open>Waiting \<open>retryAfter\<close> seconds lets the oldest entry of the full slice age out.\<close>

lemma retryAfter_bounds:
  assumes "now - w < oldest" "oldest \<le> now"
  shows "1 \<le> retryAfter w oldest now" "retryAfter w oldest now \<le> w div second + 1"
    and "now + retryAfter w oldest now * second \<le> now' \<Longrightarrow> oldest \<le> now' - w"
proof -
  let ?d = "oldest + w - now"
  have d: "0 < ?d" "?d \<le> w" using assms by simp_all
  have ra: "retryAfter w oldest now = ?d div second + 1"
    using d by (simp add: retryAfter_def trunc_seconds_def second_def pos_imp_zdiv_nonneg_iff)
  show "1 \<le> retryAfter w oldest now" unfolding ra using d by (simp add: second_def pos_imp_zdiv_nonneg_iff)
  show "retryAfter w oldest now \<le> w div second + 1" unfolding ra using d by (simp add: second_def zdiv_mono1)
  assume "now + retryAfter w oldest now * second \<le> now'"
  then have "now + (?d div second) * second + second \<le> now'" unfolding ra by (simp add: algebra_simps)
  moreover have "?d = ?d div second * second + ?d mod second" "?d mod second < second"
    by (simp_all add: second_def)
  ultimately show "oldest \<le> now' - w" by linarith
qed

lemma keepRecent_shorter:
  "ts \<noteq> [] \<Longrightarrow> hd ts \<le> c \<Longrightarrow> length (keepRecent ts c) < length ts"
  by (cases ts) (auto simp: keepRecent_def less_Suc_eq_le)

lemma denied_then_open:
  assumes inv: "log_inv log t0 l" and t: "t0 \<le> now" and step: "allow_key key now l = ((False, ra), l')"
    and wait: "now + ra * second \<le> now'"
  shows "1 \<le> ra \<and> ra \<le> rl_window l div second + 1 \<and>
    (if client_full key now l then \<not> client_full key now' l' else fst (fst (allow_key key now' l')))"
proof -
  have wf: "wf_map (rl_hits l)" "0 < rl_maxPerWin l" "0 < rl_globalMax l" using inv by (auto simp: log_inv_def)
  note c = allow_key_cases [OF wf(1) step]
  note recent = log_inv_recent [OF inv t]
  let ?ts = "if client_full key now l then recent_hits key now l else recent_global now l"
  have ne: "?ts \<noteq> []"
    using c(1) wf(2,3) by (auto simp: client_full_def global_full_def)
  have old: "now - rl_window l < hd ?ts" "hd ?ts \<le> now"
    using recent(3) [of "hd ?ts" key] hd_in_set [OF ne] by (auto split: if_splits)
  note b = retryAfter_bounds [OF old]
  have ra: "ra = retryAfter (rl_window l) (hd ?ts) now" using c(8) by simp
  have aged: "hd ?ts \<le> now' - rl_window l" using b(3) wait ra by simp
  have now': "now \<le> now'" using wait b(1) ra by (simp add: second_def)
  have shrink: "length (keepRecent ?ts (now' - rl_window l)) < length ?ts" by (rule keepRecent_shorter [OF ne aged])
  have later: "recent_hits key now' l' = keepRecent (recent_hits key now l) (now' - rl_window l)"
    "recent_global now' l' = keepRecent (recent_global now l) (now' - rl_window l)"
    using c(6) [OF now', of key] c(7) [OF now'] now' by (simp_all add: recent_hits_def recent_global_def)
  have "if client_full key now l then \<not> client_full key now' l' else fst (fst (allow_key key now' l'))"
  proof (cases "client_full key now l")
    case True
    then show ?thesis
      using shrink recent(1) [of key] later(1) c(4) by (simp add: client_full_def)
  next
    case False
    have "length (keepRecent (recent_hits key now l) (now' - rl_window l)) \<le> length (recent_hits key now l)"
      by (simp add: keepRecent_def)
    then have "\<not> client_full key now' l'" using False later(1) c(4) by (simp add: client_full_def)
    moreover have "\<not> global_full now' l'"
      using False shrink recent(2) later(2) c(5) by (simp add: global_full_def)
    ultimately show ?thesis
      using False allow_key_cases(1) [OF c(2)] by (metis fst_conv prod.exhaust)
  qed
  then show ?thesis using b(1,2) ra by blast
qed

section \<open>Address buckets\<close>

text \<open>The client a key stands for: one IPv4 address, mapped or not, or one IPv6 /64.\<close>

fun bucket :: "ip_addr \<Rightarrow> 32 word + 64 word" where
  "bucket (IPv4 a) = Inl a"
| "bucket (IPv6 a z) = (if drop_bit 32 a = 0xFFFF then Inl (ucast a) else Inr (ucast (drop_bit 64 a)))"

lemma mask64_eq_iff: "mask64 a = mask64 b \<longleftrightarrow> (ucast (drop_bit 64 a) :: 64 word) = ucast (drop_bit 64 b)"
proof -
  have m: "(0xFFFFFFFFFFFFFFFF0000000000000000 :: 128 word) = push_bit 64 (mask 64)"
    by (simp add: mask_eq_exp_minus_1 push_bit_eq_mult)
  have bits: "bit (mask64 a) n \<longleftrightarrow> bit a n \<and> 64 \<le> n \<and> n < 128" for a :: "128 word" and n
    unfolding mask64_def m by (auto simp: bit_simps)
  have ub: "bit (ucast (drop_bit 64 a) :: 64 word) n \<longleftrightarrow> n < 64 \<and> bit a (64 + n)" for a :: "128 word" and n
    by (auto simp: bit_simps)
  show ?thesis
  proof
    assume "mask64 a = mask64 b"
    then have "bit a (64 + n) = bit b (64 + n)" if "n < 64" for n
      using that bits [of a "64 + n"] bits [of b "64 + n"] by simp
    then show "(ucast (drop_bit 64 a) :: 64 word) = ucast (drop_bit 64 b)"
      by (intro bit_eqI) (auto simp: ub)
  next
    assume eq: "(ucast (drop_bit 64 a) :: 64 word) = ucast (drop_bit 64 b)"
    show "mask64 a = mask64 b"
    proof (rule bit_eqI)
      fix n
      show "bit (mask64 a) n = bit (mask64 b) n"
        using eq ub [of a "n - 64"] ub [of b "n - 64"] by (auto simp: bits)
    qed
  qed
qed

text \<open>What is relied on of the printer: distinct addresses and prefixes print differently.\<close>

definition printer_ok :: "netip \<Rightarrow> bool" where
  "printer_ok N \<longleftrightarrow> (\<forall>a b. na_String N a = na_String N b \<longrightarrow> a = b) \<and>
     (\<forall>a b. na_PrefixString N a 64 = na_PrefixString N b 64 \<longrightarrow> a = b) \<and>
     (\<forall>a b. na_String N a \<noteq> na_PrefixString N b 64)"

lemma rateLimitKey_bucket:
  assumes "printer_ok N" "na_ParseAddr N ip = Some a" "na_ParseAddr N ip' = Some b"
  shows "rateLimitKey N ip = rateLimitKey N ip' \<longleftrightarrow> bucket a = bucket b"
proof -
  have s: "na_String N x = na_String N y \<longleftrightarrow> x = y" "na_PrefixString N x 64 = na_PrefixString N y 64 \<longleftrightarrow> x = y"
    "na_String N x \<noteq> na_PrefixString N y 64" for x y
    using assms(1) unfolding printer_ok_def by blast+
  show ?thesis
    unfolding rateLimitKey_def assms(2,3) option.case
    by (cases a; cases b) (auto simp: s s(3) [symmetric] mask64_eq_iff)
qed

section \<open>The queue check against the store\<close>

lemma List_op_pending:
  assumes "db_inv J db" "list_healthy E"
  shows "List_op J E \<lparr>lsq_Status = SubmissionPending, lsq_Limit = limit, lsq_Cursor = []\<rparr> db =
    Inr (map (the_sub J) (take (nat (clamp_list_limit limit)) (listing SubmissionPending db)))"
  using ListPage_at [OF assms, of 0 SubmissionPending limit]
  by (simp add: List_op_def cursor_at_def)

definition pending_ids :: "sub_map \<Rightarrow> string set" where
  "pending_ids m = {pid. \<exists>x. m pid = Some x \<and> sub_Status x = SubmissionPending}"

lemma card_pending:
  assumes "db_inv J db"
  shows "length (listing SubmissionPending db) = card (pending_ids (sub_abs J db))"
proof -
  let ?xs = "map (the_sub J) (listing SubmissionPending db)"
  have c: "distinct (map sub_PublicID ?xs)"
    and mem: "x \<in> set ?xs \<longleftrightarrow> (\<exists>pid. sub_abs J db pid = Some x \<and> sub_Status x = SubmissionPending)" for x
    using listing_complete [OF assms, of SubmissionPending]
    unfolding complete_listing_def by (auto simp: status_defs)
  have pid: "sub_PublicID x = pid" if "sub_abs J db pid = Some x" for pid x
    using that sub_abs_row [OF assms, of pid] sub_abs_None [OF assms, of pid]
    by (metis option.distinct(1) option.exhaust option.inject)
  have "pending_ids (sub_abs J db) = set (map sub_PublicID ?xs)"
  proof
    show "pending_ids (sub_abs J db) \<subseteq> set (map sub_PublicID ?xs)"
      unfolding pending_ids_def set_map [of sub_PublicID] using mem pid by blast
    show "set (map sub_PublicID ?xs) \<subseteq> pending_ids (sub_abs J db)"
      unfolding pending_ids_def set_map [of sub_PublicID] using mem pid by blast
  qed
  then show ?thesis using distinct_card [OF c] by simp
qed

section \<open>Properties\<close>

text \<open>C14. The limiter keeps both budgets. For any sequence of requests in order of time, from a new
  limiter, no window of the configured length holds more accepted requests of one client key than the
  per-client budget, or more accepted requests in total than the shared budget, wherever the window
  starts and whatever the sweeps did.\<close>

theorem rate_limit_bounds:
  assumes "sorted (map fst reqs)" "serve N reqs (newIPRateLimiter maxPerWindow window) = (accepted, l)"
  shows "int (window_count (rl_window l) a key accepted) \<le> (if maxPerWindow \<le> 0 then 5 else maxPerWindow) \<and>
    int (window_total (rl_window l) a accepted) \<le> submissionsGlobalPerWindow"
proof -
  obtain t0 where t0: "\<forall>r\<in>set reqs. t0 \<le> fst r"
    using assms(1) by (cases reqs) auto
  from log_inv_serve [OF log_inv_new assms(1) t0 assms(2)] show ?thesis
    by (auto simp: log_inv_def newIPRateLimiter_def)
qed

text \<open>C15. A refusal names a sufficient wait. After any history, a refused request is told to wait between
  one second and the window's length plus one; once that time has passed the budget that refused it has
  room again: if it was the shared one, the same client is then accepted.\<close>

theorem rate_limit_retry:
  assumes "sorted (map fst reqs @ [now])" "serve N reqs (newIPRateLimiter maxPerWindow window) = (accepted, l)"
    "allow N ip now l = ((False, ra), l')" "now + ra * second \<le> now'"
  shows "1 \<le> ra \<and> ra \<le> rl_window l div second + 1 \<and>
    (if client_full (rateLimitKey N ip) now l then \<not> client_full (rateLimitKey N ip) now' l'
     else fst (fst (allow N ip now' l')))"
proof -
  have s: "sorted (map fst reqs)" "\<forall>r\<in>set reqs. fst r \<le> now" using assms(1) by (auto simp: sorted_append)
  obtain t0 where t0: "\<forall>r\<in>set reqs. t0 \<le> fst r" "t0 \<le> now"
    using s by (cases reqs) auto
  have "\<exists>t1\<le>now. log_inv accepted t1 l"
    using log_inv_serve [OF log_inv_new s(1) t0(1) assms(2)] t0(2) s(2) by auto
  then show ?thesis
    using denied_then_open assms(3,4) unfolding allow_def by blast
qed

text \<open>The key of a client address is its IPv4 address, written plainly or mapped into IPv6, or its IPv6
  /64: two parseable addresses share a budget exactly when they agree in that, whatever the zone and the
  low 64 bits. (Assumed of net/netip: distinct addresses and prefixes print differently.)\<close>

theorem rateLimitKey_iff_bucket:
  assumes "printer_ok N" "na_ParseAddr N ip = Some a" "na_ParseAddr N ip' = Some b"
  shows "rateLimitKey N ip = rateLimitKey N ip' \<longleftrightarrow> bucket a = bucket b"
  using assms by (rule rateLimitKey_bucket)

text \<open>C16. The queue check reads the SQLite store correctly. When the cached answer has expired and the query
  does not fail, the queue is reported full exactly when at least \<open>maxPending\<close> submissions are pending,
  for a bound of 1 to 200, the store's page cap; above the cap it would never be reported full. The answer
  is kept for a minute; a failed query repeats the last answer.\<close>

theorem pendingQueue_full_exact:
  assumes "db_inv J db" "pq_checkedAt q = 0 \<or> pendingQueueCheckInterval \<le> now - pq_checkedAt q" "0 < pq_maxPending q"
    "full (\<lambda>lq. List_op J E lq db) now q = (b, q')"
  shows "(list_healthy E \<longrightarrow>
      (b \<longleftrightarrow> pq_maxPending q \<le> 200 \<and> pq_maxPending q \<le> int (card (pending_ids (sub_abs J db)))) \<and>
      (now \<le> now' \<and> now' < now + pendingQueueCheckInterval \<and> now \<noteq> 0 \<longrightarrow> full list now' q' = (b, q'))) \<and>
    (ce_fault E ''ListSubmissionsByStatus'' \<noteq> None \<longrightarrow> b = pq_isFull q)"
proof (intro conjI impI)
  have stale: "\<not> (pq_checkedAt q \<noteq> 0 \<and> now - pq_checkedAt q < pendingQueueCheckInterval)" using assms(2) by auto
  assume h: "list_healthy E"
  let ?n = "nat (clamp_list_limit (pq_maxPending q))"
  have n: "?n = nat (min (pq_maxPending q) 200)" using assms(3) by (simp add: clamp_list_limit_def Let_def)
  have fresh: "(b, q') = (int (min (card (pending_ids (sub_abs J db))) ?n) \<ge> pq_maxPending q,
      q\<lparr>pq_isFull := int (min (card (pending_ids (sub_abs J db))) ?n) \<ge> pq_maxPending q, pq_checkedAt := now\<rparr>)"
    using assms(4) stale unfolding full_def List_op_pending [OF assms(1) h] sum.case Let_def
    by (auto simp: card_pending [OF assms(1)])
  then show "b \<longleftrightarrow> pq_maxPending q \<le> 200 \<and> pq_maxPending q \<le> int (card (pending_ids (sub_abs J db)))"
    using assms(3) unfolding n by (auto simp: min_def split: if_splits)
  show "full list now' q' = (b, q')" if "now \<le> now' \<and> now' < now + pendingQueueCheckInterval \<and> now \<noteq> 0"
    using fresh that by (simp add: full_def)
next
  assume "ce_fault E ''ListSubmissionsByStatus'' \<noteq> None"
  then obtain e where "ce_fault E ''ListSubmissionsByStatus'' = Some e" by blast
  then have "List_op J E \<lparr>lsq_Status = SubmissionPending, lsq_Limit = l, lsq_Cursor = []\<rparr> db = Inl (Wrap ''sqlite.ListPage'' e)" for l
    by (simp add: List_op_def ListPage_def decodeCursor_def q_ListSubmissionsByStatus_def with_fault_def status_defs)
  then show "b = pq_isFull q" using assms(2,4) by (auto simp: full_def split: if_splits)
qed

section \<open>Instances\<close>

fun demo_str :: "ip_addr \<Rightarrow> string" where
  "demo_str (IPv4 v) = CHR ''4'' # nat_digits (unat v)"
| "demo_str (IPv6 v z) = CHR ''6'' # nat_digits (unat v) @ CHR ''%'' # z"

definition demo_netip :: netip where
  "demo_netip = \<lparr>na_ParseAddr = (\<lambda>s. if s = ''::1'' then Some (IPv6 1 []) else if s = ''::2%eth0'' then Some (IPv6 2 ''eth0'')
       else if s = ''1.2.3.4'' then Some (IPv4 0x01020304) else None),
     na_String = demo_str, na_PrefixString = (\<lambda>a n. CHR ''p'' # demo_str a)\<rparr>"

lemma percent_split:
  assumes "a @ CHR ''%'' # z = b @ CHR ''%'' # y" "CHR ''%'' \<notin> set a" "CHR ''%'' \<notin> set b"
  shows "a = b \<and> z = y"
proof -
  have "takeWhile (\<lambda>c. c \<noteq> CHR ''%'') (s @ CHR ''%'' # r) = s" if "CHR ''%'' \<notin> set s" for s r
    using that by (induction s) auto
  with assms show ?thesis by (metis same_append_eq list.inject)
qed

lemma demo_printer: "printer_ok demo_netip"
proof -
  have inj: "m = n" if "nat_digits m = nat_digits n" for m n
    using that by (metis digits_value_nat_digits)
  have no: "CHR ''%'' \<notin> set (nat_digits n)" for n
    using nat_digits_digits [of "CHR ''%''" n] by auto
  have six: "u = v \<and> z = y" if "nat_digits (unat u) @ CHR ''%'' # z = nat_digits (unat v) @ CHR ''%'' # y"
    for u v :: "128 word" and z y
    using percent_split [OF that no no] inj unsigned_word_eqI [of u v] by blast
  have four: "u = v" if "nat_digits (unat u) = nat_digits (unat v)" for u v :: "32 word"
    using inj [OF that] by (rule unsigned_word_eqI)
  have str: "a = b" if "demo_str a = demo_str b" for a b
    using that by (cases a; cases b) (auto dest: six four)
  have p: "demo_str a \<noteq> CHR ''p'' # s" for a s by (cases a) auto
  show ?thesis
    unfolding printer_ok_def demo_netip_def netip.simps using str p by blast
qed

theorem rateLimitKey_iff_bucket_witness:
  "rateLimitKey demo_netip ''::1'' = rateLimitKey demo_netip ''::2%eth0'' \<and>
   rateLimitKey demo_netip ''::1'' \<noteq> rateLimitKey demo_netip ''1.2.3.4''"
proof -
  have p: "na_ParseAddr demo_netip ''::1'' = Some (IPv6 1 [])" "na_ParseAddr demo_netip ''::2%eth0'' = Some (IPv6 2 ''eth0'')"
    "na_ParseAddr demo_netip ''1.2.3.4'' = Some (IPv4 0x01020304)"
    by (simp_all add: demo_netip_def)
  have "bucket (IPv6 1 []) = bucket (IPv6 2 ''eth0'')" "bucket (IPv6 1 []) \<noteq> bucket (IPv4 0x01020304)"
    by code_simp+
  then show ?thesis
    using rateLimitKey_iff_bucket [OF demo_printer p(1) p(2)] rateLimitKey_iff_bucket [OF demo_printer p(1) p(3)] by simp
qed

definition demo_reqs :: "(instant \<times> string) list" where
  "demo_reqs = [(hour, ''::1''), (hour, ''::2%eth0''), (hour + second, ''1.2.3.4'')]"

theorem rate_limit_bounds_witness:
  "let (accepted, l) = serve demo_netip demo_reqs (newIPRateLimiter 1 0) in
     int (window_total (rl_window l) 0 accepted) \<le> submissionsGlobalPerWindow"
proof -
  obtain acc l where s: "serve demo_netip demo_reqs (newIPRateLimiter 1 0) = (acc, l)" by fastforce
  have "sorted (map fst demo_reqs)" by (simp add: demo_reqs_def second_def)
  from rate_limit_bounds [OF this s, of 0] show ?thesis unfolding s by simp
qed

theorem rate_limit_retry_witness:
  "\<exists>ra l'. allow demo_netip ''::2%eth0'' hour (snd (serve demo_netip [(hour, ''::1'')] (newIPRateLimiter 1 0))) = ((False, ra), l') \<and>
     1 \<le> ra \<and> ra \<le> 3601"
proof -
  obtain acc l where s: "serve demo_netip [(hour, ''::1'')] (newIPRateLimiter 1 0) = (acc, l)" by fastforce
  obtain ok ra l' where a: "allow demo_netip ''::2%eth0'' hour l = ((ok, ra), l')" by (metis prod.exhaust)
  have "\<not> fst (fst (allow demo_netip ''::2%eth0'' hour (snd (serve demo_netip [(hour, ''::1'')] (newIPRateLimiter 1 0)))))
      \<and> rl_window (snd (serve demo_netip [(hour, ''::1'')] (newIPRateLimiter 1 0))) = hour"
    by code_simp
  with s a have no: "\<not> ok" and w: "rl_window l = hour" by simp_all
  from rate_limit_retry [OF _ s, of hour "''::2%eth0''" ra l' "hour + ra * second"] a no w s
  show ?thesis by (simp add: duration_defs)
qed

theorem pendingQueue_full_exact_witness:
  "list_healthy (demo_env 0 ''a'') \<and>
   \<not> fst (full (\<lambda>lq. List_op demo_codec (demo_env 0 ''a'') lq empty_db) hour (newPendingQueue maxPendingSubmissions))"
proof -
  obtain b q' where f: "full (\<lambda>lq. List_op demo_codec (demo_env 0 ''a'') lq empty_db) hour (newPendingQueue maxPendingSubmissions) = (b, q')"
    by fastforce
  have h: "list_healthy (demo_env 0 ''a'')" by (simp add: list_healthy_def demo_env_def)
  have none: "pending_ids (sub_abs demo_codec empty_db) = {}" by (simp add: pending_ids_def sub_abs_def empty_db_def)
  from pendingQueue_full_exact [OF empty_db_inv _ _ f] h none f show ?thesis
    by (simp add: newPendingQueue_def maxPendingSubmissions_def)
qed

end
