(* ===== verification/Promotion.thy ===== *)
theory Promotion
  imports Rate_Limit
begin

text \<open>
  The promotion of an approved submission to a GitHub pull request: \<open>api/internal/githubpr/toml.go\<close> and
  the pipeline of worker.go (slugs, Markdown and branch names, the request layer with its retries, and
  \<open>openPR\<close>).

  GitHub itself is a parameter: \<open>gh_do\<close> answers one HTTP request and may change the state of the world,
  \<open>'w\<close>, in any way; \<open>gh_sleep\<close> waits, or fails when the context ends. The decoders of the JSON answers, the
  TOML encoder and the check of a request URL are parameters too. A logging wrapper records the requests
  a run sends, so that the theorems can speak about them.
\<close>

section \<open>Text helpers\<close>

text \<open>\<open>strings.Fields\<close>\<close>

fun fields_loop :: "(rune \<times> string) list \<Rightarrow> string \<Rightarrow> string list" where
  "fields_loop [] cur = (if cur = [] then [] else [cur])"
| "fields_loop ((r, bs) # cs) cur =
     (if is_space r then (if cur = [] then fields_loop cs [] else cur # fields_loop cs [])
      else fields_loop cs (cur @ bs))"

definition str_fields :: "string \<Rightarrow> string list" where
  "str_fields s = fields_loop (chunks s) []"

text \<open>\<open>strings.Trim(s, "-")\<close>\<close>

definition trim_byte :: "char \<Rightarrow> string \<Rightarrow> string" where
  "trim_byte b s = rev (dropWhile (\<lambda>c. c = b) (rev (dropWhile (\<lambda>c. c = b) s)))"

text \<open>\<open>url.QueryEscape\<close>\<close>

definition unreserved :: "char \<Rightarrow> bool" where
  "unreserved c \<longleftrightarrow> (let b = byte c in 97 \<le> b \<and> b \<le> 122 \<or> 65 \<le> b \<and> b \<le> 90 \<or> 48 \<le> b \<and> b \<le> 57 \<or>
     b = 45 \<or> b = 95 \<or> b = 46 \<or> b = 126)"

definition upper_hex :: "nat \<Rightarrow> char" where
  "upper_hex d = char_of (if d < 10 then 48 + d else 55 + d)"

definition query_escape :: "string \<Rightarrow> string" where
  "query_escape s = concat (map (\<lambda>c. if unreserved c then [c] else if byte c = 32 then ''+''
     else CHR 0x25 # [upper_hex (byte c div 16), upper_hex (byte c mod 16)]) s)"

definition backtick :: char where "backtick = CHR 0x60"

definition codeSpan :: "string \<Rightarrow> string" where
  "codeSpan s = backtick # join (str_fields (remove_byte backtick s)) '' '' @ [backtick]"

definition clean_id :: "string \<Rightarrow> string" where
  "clean_id publicID = remove_byte CHR ''-'' publicID"

definition shortID :: "string \<Rightarrow> string" where
  "shortID publicID = (let clean = clean_id publicID in
     if length clean < 8 then clean else drop (length clean - 8) clean)"

definition branchSuffix :: "string \<Rightarrow> string" where
  "branchSuffix publicID = (let clean = clean_id publicID in if length clean < 16 then clean else take 16 clean)"

definition submissionBranchName :: "string \<Rightarrow> string" where
  "submissionBranchName publicID = ''submission/'' @ branchSuffix publicID"

definition newline :: char where "newline = CHR 0x0A"

definition ensureTrailingNewline :: "string \<Rightarrow> string" where
  "ensureTrailingNewline s = (if s = [] then [] else if has_suffix s [newline] then s else s @ [newline])"

fun region_list :: "nat \<Rightarrow> string list \<Rightarrow> string" where
  "region_list i [] = []"
| "region_list i (slug # slugs) = (if i > 0 then '', '' else []) @ codeSpan slug @ region_list (i + 1) slugs"

definition buildPRBody :: "submission \<Rightarrow> string" where
  "buildPRBody sub =
     ''Promotes public submission '' @ codeSpan (sub_PublicID sub) @ '' (received '' @
     fmt_rfc3339 (sub_CreatedAt sub) @ '') to the seed bundle.'' @ [newline, newline] @
     ''Regions: '' @ (if sp_RegionSlugs (sub_Payload sub) = [] then ''none'' else []) @
     region_list 0 (sp_RegionSlugs (sub_Payload sub)) @ [newline, newline] @
     ''Submitter contact details and notes are private. Editors can read them through the admin API, '' @
     [backtick] @ ''GET /api/v1/admin/submissions'' @ [backtick] @ '', by the submission ID above.'' @ [newline, newline] @
     ''_Auto-opened by the Urbanist Atlas submissions worker. Merge after editorial review._'' @ [newline]"

section \<open>The seed entry\<close>

fun slug_loop :: "rune list \<Rightarrow> bool \<Rightarrow> string" where
  "slug_loop [] prevHyphen = []"
| "slug_loop (r # rs) prevHyphen =
     (if 97 \<le> r \<and> r \<le> 122 \<or> 48 \<le> r \<and> r \<le> 57 then char_of r # slug_loop rs False
      else if \<not> prevHyphen then CHR ''-'' # slug_loop rs True
      else slug_loop rs prevHyphen)"

definition DeriveSlug :: "go_unicode \<Rightarrow> string \<Rightarrow> string" where
  "DeriveSlug U name = trim_byte CHR ''-'' (slug_loop (runes (to_lower U name)) True)"

record org_toml_entry =
  ot_Slug :: string
  ot_AddedAt :: "int \<times> int \<times> int"
  ot_Name :: string
  ot_ShortDesc :: string
  ot_WebsiteURL :: string
  ot_ContactURL :: string
  ot_Tags :: "string list"
  ot_RegionSlugs :: "string list"

type_synonym toml_encoder = "org_toml_entry list \<Rightarrow> string result"

text \<open>A nil tag slice and an empty one are the same list; both render as \<open>tags = []\<close>.\<close>

definition RenderOrgBlock :: "toml_encoder \<Rightarrow> submission \<Rightarrow> string \<Rightarrow> instant \<Rightarrow> string result" where
  "RenderOrgBlock enc sub slug addedAt =
     (if slug = [] then Inl (Errorf ''githubpr: empty slug for submission %s'' [sub_PublicID sub])
      else let p = sub_Payload sub;
               entry = \<lparr>ot_Slug = slug, ot_AddedAt = date_of addedAt, ot_Name = sp_Name p,
                 ot_ShortDesc = sp_ShortDesc p, ot_WebsiteURL = sp_WebsiteURL p, ot_ContactURL = sp_ContactURL p,
                 ot_Tags = sp_Tags p, ot_RegionSlugs = sp_RegionSlugs p\<rparr>
           in case enc [entry] of
                Inl e \<Rightarrow> Inl (Wrap ''githubpr: marshal org entry'' e)
              | Inr s \<Rightarrow> Inr s)"

section \<open>Requests\<close>

datatype jval = JStr string | JBool bool

record gh_request =
  rq_method :: string
  rq_path :: string
  rq_body :: "(string \<times> jval) list option"

record gh_response =
  rs_status :: int
  rs_header :: "string \<Rightarrow> string"
  rs_body :: string
  rs_readErr :: "string option"

record 'w github =
  gh_do :: "gh_request \<Rightarrow> 'w \<Rightarrow> gh_response result \<times> 'w"
  gh_sleep :: "int \<Rightarrow> 'w \<Rightarrow> go_error option \<times> 'w"
  gh_urlErr :: "string \<Rightarrow> go_error option"
  gh_refSHA :: "gh_response \<Rightarrow> string result"
  gh_contents :: "gh_response \<Rightarrow> (string \<times> string \<times> string) result"
  gh_htmlURL :: "gh_response \<Rightarrow> string result"
  gh_prURLs :: "gh_response \<Rightarrow> string list result"
  gh_toml :: toml_encoder
  gh_unicode :: go_unicode

record worker_config =
  wc_Token :: string
  wc_Owner :: string
  wc_Repo :: string
  wc_BaseBranch :: string
  wc_SeedFilePath :: string
  wc_BufferSize :: int

text \<open>\<open>New\<close>: the defaults of the configuration.\<close>

definition New :: "worker_config \<Rightarrow> worker_config" where
  "New c =
     \<lparr>wc_Token = wc_Token c,
      wc_Owner = (if wc_Owner c = [] then ''mjrossi'' else wc_Owner c),
      wc_Repo = (if wc_Repo c = [] then ''urbanist-atlas'' else wc_Repo c),
      wc_BaseBranch = (if wc_BaseBranch c = [] then ''main'' else wc_BaseBranch c),
      wc_SeedFilePath = (if wc_SeedFilePath c = [] then ''api/seed/orgs.toml'' else wc_SeedFilePath c),
      wc_BufferSize = (if wc_BufferSize c \<le> 0 then 32 else wc_BufferSize c)\<rparr>"

definition repo_path :: "worker_config \<Rightarrow> string \<Rightarrow> string" where
  "repo_path c rest = ''/repos/'' @ wc_Owner c @ ''/'' @ wc_Repo c @ ''/'' @ rest"

definition doRequest :: "'w github \<Rightarrow> string \<Rightarrow> string \<Rightarrow> (string \<times> jval) list option \<Rightarrow> 'w \<Rightarrow> gh_response result \<times> 'w" where
  "doRequest G method path body w =
     (case gh_urlErr G path of
        Some e \<Rightarrow> (Inl (Wrap ''new request'' e), w)
      | None \<Rightarrow> gh_do G \<lparr>rq_method = method, rq_path = path, rq_body = body\<rparr> w)"

definition retryMaxAttempts :: nat where "retryMaxAttempts = 4"
definition retryBaseBackoff :: int where "retryBaseBackoff = 250 * millisecond"

definition retryableStatus :: "int \<Rightarrow> bool" where
  "retryableStatus status \<longleftrightarrow> status \<in> {429, 502, 503}"

definition isSecondaryRateLimit :: "go_unicode \<Rightarrow> gh_response \<Rightarrow> string \<Rightarrow> bool" where
  "isSecondaryRateLimit U resp body \<longleftrightarrow> rs_status resp = 403 \<and>
     (rs_header resp ''Retry-After'' \<noteq> [] \<or> rs_header resp ''X-RateLimit-Remaining'' = ''0'' \<or>
      contains (to_lower U body) ''rate limit'')"

text \<open>The buffered response of a 403, and whether to try again.\<close>

definition classify_response :: "go_unicode \<Rightarrow> gh_response \<Rightarrow> gh_response \<times> bool" where
  "classify_response U resp =
     (if rs_status resp = 403 then
        (let buf = take 4096 (rs_body resp) in
         (resp\<lparr>rs_body := buf, rs_readErr := None\<rparr>, isSecondaryRateLimit U resp buf))
      else (resp, retryableStatus (rs_status resp)))"

text \<open>The loop of \<open>doIdempotentRequest\<close>; \<open>k\<close> attempts are left after this one.\<close>

fun attempt_loop :: "'w github \<Rightarrow> string \<Rightarrow> string \<Rightarrow> nat \<Rightarrow> nat \<Rightarrow> 'w \<Rightarrow> gh_response result \<times> 'w" where
  "attempt_loop G method path k attempt w =
     (case doRequest G method path None w of
        (Inl e, w1) \<Rightarrow> (Inl e, w1)
      | (Inr resp0, w1) \<Rightarrow>
         (let (resp, retryable) = classify_response (gh_unicode G) resp0 in
          case k of
            0 \<Rightarrow> (Inr resp, w1)
          | Suc k' \<Rightarrow>
             if \<not> retryable then (Inr resp, w1)
             else (case gh_sleep G (retryBaseBackoff * 2 ^ (attempt - 1)) w1 of
                 (Some e, w2) \<Rightarrow> (Inl e, w2)
               | (None, w2) \<Rightarrow> attempt_loop G method path k' (attempt + 1) w2)))"

declare attempt_loop.simps [simp del]

definition doIdempotentRequest :: "'w github \<Rightarrow> string \<Rightarrow> string \<Rightarrow> 'w \<Rightarrow> gh_response result \<times> 'w" where
  "doIdempotentRequest G method path w = attempt_loop G method path (retryMaxAttempts - 1) 1 w"

definition body_text :: "gh_response \<Rightarrow> string" where
  "body_text resp = trim_space (take 4096 (rs_body resp)) @
     (case rs_readErr resp of None \<Rightarrow> [] | Some e \<Rightarrow> '' [body read truncated: '' @ e @ '']'')"

definition apiError :: "string \<Rightarrow> gh_response \<Rightarrow> go_error" where
  "apiError op resp = Errorf ''%s: github returned %d: %s'' [op, itoa (rs_status resp), body_text resp]"

definition expectStatus :: "gh_response \<Rightarrow> int \<Rightarrow> string \<Rightarrow> go_error option" where
  "expectStatus resp want op = (if rs_status resp \<noteq> want then Some (apiError op resp) else None)"

definition getBranchSHA :: "'w github \<Rightarrow> worker_config \<Rightarrow> string \<Rightarrow> 'w \<Rightarrow> string result \<times> 'w" where
  "getBranchSHA G c branch w =
     (case doIdempotentRequest G ''GET'' (repo_path c (''git/ref/heads/'' @ branch)) w of
        (Inl e, w1) \<Rightarrow> (Inl e, w1)
      | (Inr resp, w1) \<Rightarrow>
         (case expectStatus resp 200 ''get ref'' of
            Some e \<Rightarrow> Inl e
          | None \<Rightarrow> (case gh_refSHA G resp of
              Inl e \<Rightarrow> Inl (Wrap ''decode ref'' e)
            | Inr sha \<Rightarrow> if sha = [] then Inl (Errorf ''get ref: empty object.sha in response'' []) else Inr sha), w1))"

record file_contents =
  fc_Content :: string
  fc_SHA :: string

definition getFile :: "'w github \<Rightarrow> worker_config \<Rightarrow> string \<Rightarrow> string \<Rightarrow> 'w \<Rightarrow> file_contents result \<times> 'w" where
  "getFile G c path branch w =
     (case doIdempotentRequest G ''GET'' (repo_path c (''contents/'' @ path @ ''?ref='' @ branch)) w of
        (Inl e, w1) \<Rightarrow> (Inl e, w1)
      | (Inr resp, w1) \<Rightarrow>
         (case expectStatus resp 200 ''get contents'' of
            Some e \<Rightarrow> Inl e
          | None \<Rightarrow> (case gh_contents G resp of
              Inl e \<Rightarrow> Inl (Wrap ''decode contents'' e)
            | Inr (content, encoding, sha) \<Rightarrow>
                if encoding \<noteq> ''base64'' then Inl (Errorf ''unexpected encoding %q'' [encoding])
                else (case StdDecode (remove_byte newline content) of
                    None \<Rightarrow> Inl (Wrap ''decode base64 contents'' (Errorf ''illegal base64 data'' []))
                  | Some decoded \<Rightarrow> Inr \<lparr>fc_Content = decoded, fc_SHA = sha\<rparr>)), w1))"

definition resetBranch :: "'w github \<Rightarrow> worker_config \<Rightarrow> string \<Rightarrow> string \<Rightarrow> 'w \<Rightarrow> go_error option \<times> 'w" where
  "resetBranch G c branch sha w =
     (case doRequest G ''PATCH'' (repo_path c (''git/refs/heads/'' @ branch))
             (Some [(''sha'', JStr sha), (''force'', JBool True)]) w of
        (Inl e, w1) \<Rightarrow> (Some e, w1)
      | (Inr resp, w1) \<Rightarrow> (expectStatus resp 200 ''reset ref'', w1))"

definition createBranch :: "'w github \<Rightarrow> worker_config \<Rightarrow> string \<Rightarrow> string \<Rightarrow> 'w \<Rightarrow> go_error option \<times> 'w" where
  "createBranch G c branch sha w =
     (case doRequest G ''POST'' (repo_path c ''git/refs'')
             (Some [(''ref'', JStr (''refs/heads/'' @ branch)), (''sha'', JStr sha)]) w of
        (Inl e, w1) \<Rightarrow> (Some e, w1)
      | (Inr resp, w1) \<Rightarrow>
          if rs_status resp = 201 then (None, w1)
          else (let buf = take 4096 (rs_body resp) in
            if rs_status resp = 422 \<and> contains (to_lower (gh_unicode G) buf) ''reference already exists''
            then resetBranch G c branch sha w1
            else (Some (Errorf ''create ref: github returned %d: %s'' [itoa (rs_status resp), trim_space buf]), w1)))"

definition putFile :: "'w github \<Rightarrow> worker_config \<Rightarrow> string \<Rightarrow> string \<Rightarrow> string \<Rightarrow> string \<Rightarrow> string \<Rightarrow> 'w \<Rightarrow>
    go_error option \<times> 'w" where
  "putFile G c path branch content sha message w =
     (case doRequest G ''PUT'' (repo_path c (''contents/'' @ path))
             (Some [(''message'', JStr message), (''content'', JStr (StdEncode content)),
                    (''sha'', JStr sha), (''branch'', JStr branch)]) w of
        (Inl e, w1) \<Rightarrow> (Some e, w1)
      | (Inr resp, w1) \<Rightarrow>
          (if rs_status resp \<noteq> 200 \<and> rs_status resp \<noteq> 201 then Some (apiError ''put contents'' resp) else None, w1))"

text \<open>\<open>url.Values.Encode\<close> writes the parameters in the order of their names.\<close>

definition findOpenPR :: "'w github \<Rightarrow> worker_config \<Rightarrow> string \<Rightarrow> string \<Rightarrow> 'w \<Rightarrow> string result \<times> 'w" where
  "findOpenPR G c head base w =
     (let q = ''base='' @ query_escape base @ ''&head='' @ query_escape (wc_Owner c @ '':'' @ head) @ ''&state=open'' in
      case doIdempotentRequest G ''GET'' (repo_path c (''pulls?'' @ q)) w of
        (Inl e, w1) \<Rightarrow> (Inl e, w1)
      | (Inr resp, w1) \<Rightarrow>
         (case expectStatus resp 200 ''list PRs'' of
            Some e \<Rightarrow> Inl e
          | None \<Rightarrow> (case gh_prURLs G resp of
              Inl e \<Rightarrow> Inl (Wrap ''decode PR list'' e)
            | Inr urls \<Rightarrow> Inr (case urls of [] \<Rightarrow> [] | u # _ \<Rightarrow> u)), w1))"

definition createPR :: "'w github \<Rightarrow> worker_config \<Rightarrow> string \<Rightarrow> string \<Rightarrow> string \<Rightarrow> string \<Rightarrow> 'w \<Rightarrow> string result \<times> 'w" where
  "createPR G c title body head base w =
     (case doRequest G ''POST'' (repo_path c ''pulls'')
             (Some [(''title'', JStr title), (''body'', JStr body), (''head'', JStr head), (''base'', JStr base)]) w of
        (Inl e, w1) \<Rightarrow> (Inl e, w1)
      | (Inr resp, w1) \<Rightarrow>
          if rs_status resp = 422 then
            (let createErr = apiError ''create PR'' resp in
             case findOpenPR G c head base w1 of
               (Inl e, w2) \<Rightarrow> (Inl (WrapBoth createErr ''existing PR lookup'' e), w2)
             | (Inr prURL, w2) \<Rightarrow> (if prURL = [] then Inl createErr else Inr prURL, w2))
          else
            (case expectStatus resp 201 ''create PR'' of
               Some e \<Rightarrow> Inl e
             | None \<Rightarrow> (case gh_htmlURL G resp of
                 Inl e \<Rightarrow> Inl (Wrap ''decode PR response'' e)
               | Inr u \<Rightarrow> Inr u), w1))"

definition commit_message :: "submission \<Rightarrow> string" where
  "commit_message sub = ''Add '' @ codeSpan (sp_Name (sub_Payload sub)) @ '' (submission '' @ shortID (sub_PublicID sub) @ '')''"

text \<open>\<open>now\<close> is the time of the call, used for \<open>added_at\<close> when the submission has no approval time.\<close>

definition openPR :: "'w github \<Rightarrow> worker_config \<Rightarrow> instant \<Rightarrow> submission \<Rightarrow> 'w \<Rightarrow> string result \<times> 'w" where
  "openPR G c now sub w =
     (case getBranchSHA G c (wc_BaseBranch c) w of
        (Inl e, w1) \<Rightarrow> (Inl (Wrap ''get base branch'' e), w1)
      | (Inr baseSHA, w1) \<Rightarrow>
     (case getFile G c (wc_SeedFilePath c) (wc_BaseBranch c) w1 of
        (Inl e, w2) \<Rightarrow> (Inl (Wrap ''get seed file'' e), w2)
      | (Inr existing, w2) \<Rightarrow>
     (let slug = DeriveSlug (gh_unicode G) (sp_Name (sub_Payload sub));
          addedAt = (case sub_ProcessedAt sub of None \<Rightarrow> now | Some t \<Rightarrow> t) in
      case RenderOrgBlock (gh_toml G) sub slug addedAt of
        Inl e \<Rightarrow> (Inl (Wrap ''render org block'' e), w2)
      | Inr block \<Rightarrow>
     (let newContent = ensureTrailingNewline (fc_Content existing) @ block;
          branchName = submissionBranchName (sub_PublicID sub) in
      case createBranch G c branchName baseSHA w2 of
        (Some e, w3) \<Rightarrow> (Inl (Wrap (''create branch '' @ quote (gh_unicode G) branchName) e), w3)
      | (None, w3) \<Rightarrow>
     (case putFile G c (wc_SeedFilePath c) branchName newContent (fc_SHA existing) (commit_message sub) w3 of
        (Some e, w4) \<Rightarrow> (Inl (Wrap (''put file on '' @ quote (gh_unicode G) branchName) e), w4)
      | (None, w4) \<Rightarrow>
     (case createPR G c (''Add '' @ codeSpan (sp_Name (sub_Payload sub))) (buildPRBody sub) branchName (wc_BaseBranch c) w4 of
        (Inl e, w5) \<Rightarrow> (Inl (Wrap ''open PR'' e), w5)
      | (Inr prURL, w5) \<Rightarrow> (Inr prURL, w5)))))))"

definition ProcessNow :: "'w github \<Rightarrow> worker_config \<Rightarrow> instant \<Rightarrow> submission \<Rightarrow> 'w \<Rightarrow> string result \<times> 'w" where
  "ProcessNow G c now sub w =
     (if wc_Token c = [] then (Inl (Sentinel ErrPromotionDisabled), w) else openPR G c now sub w)"

section \<open>Markdown code spans\<close>

lemma decode_cont:
  "decode2 b0 bs = Some (r, w) \<Longrightarrow> \<forall>b\<in>set (take (w - 1) bs). 128 \<le> b"
  "decode3 b0 bs = Some (r, w) \<Longrightarrow> \<forall>b\<in>set (take (w - 1) bs). 128 \<le> b"
  "decode4 b0 bs = Some (r, w) \<Longrightarrow> \<forall>b\<in>set (take (w - 1) bs). 128 \<le> b"
  by (auto simp: decode2_def decode3_def decode4_def is_cont_def take_Cons' split: if_splits list.splits)

lemma decode_rune_cont:
  assumes "decode_rune b0 bs = (r, w)" "128 \<le> b0"
  shows "\<forall>b\<in>set (take (w - 1) bs). 128 \<le> b"
proof -
  consider "decode2 b0 bs = Some (r, w)" | "decode3 b0 bs = Some (r, w)" | "decode4 b0 bs = Some (r, w)" | "w = 1"
    using assms by (auto simp: decode_rune_def split: option.splits)
  then show ?thesis using decode_cont by cases auto
qed

text \<open>An ASCII byte of a string is a rune by itself.\<close>

lemma chunks_ascii_byte:
  "(r, bs) \<in> set (chunks s) \<Longrightarrow> c \<in> set bs \<Longrightarrow> byte c < 128 \<Longrightarrow> r = byte c"
proof (induction s rule: chunks.induct)
  case (2 a s)
  obtain r0 w where d: "decode_rune (byte a) (map byte s) = (r0, w)" by fastforce
  consider "(r, bs) = (r0, a # take (w - 1) s)" | "(r, bs) \<in> set (chunks (drop (w - 1) s))"
    using 2(2) d by auto
  then show ?case
  proof cases
    case 1
    show ?thesis
    proof (cases "byte a < 128")
      case True
      then have "r0 = byte a" "w = 1" using d by auto
      with 1 2(3) show ?thesis by simp
    next
      case False
      then have "\<forall>b\<in>set (take (w - 1) (map byte s)). 128 \<le> b" using decode_rune_cont [OF d] by simp
      then have "\<forall>x\<in>set bs. 128 \<le> byte x" using 1 False by (auto simp: take_map)
      with 2(3,4) show ?thesis by force
    qed
  next
    case 2
    with "2.IH" [OF d [symmetric] refl] "2.prems" show ?thesis by blast
  qed
qed simp

lemma fields_loop_chars:
  "f \<in> set (fields_loop cs cur) \<Longrightarrow> c \<in> set f \<Longrightarrow> c \<in> set cur \<or> (\<exists>(r, bs)\<in>set cs. \<not> is_space r \<and> c \<in> set bs)"
  by (induction cs cur arbitrary: f rule: fields_loop.induct) (fastforce split: if_splits)+

lemma set_join: "c \<in> set (join xs sep) \<Longrightarrow> c \<in> set sep \<or> (\<exists>x\<in>set xs. c \<in> set x)"
  by (induction xs sep rule: join.induct) auto

lemma set_chunks: "(r, bs) \<in> set (chunks s) \<Longrightarrow> set bs \<subseteq> set s"
proof -
  assume "(r, bs) \<in> set (chunks s)"
  then have "set bs \<subseteq> set (concat (map snd (chunks s)))" by force
  then show ?thesis by (simp only: chunks_concat)
qed

text \<open>
  The text of a code span has no backtick and no white space but single blanks, so it can neither close
  the span nor start a block.
\<close>

lemma codeSpan_inner:
  "codeSpan s = backtick # inner @ [backtick] \<Longrightarrow> c \<in> set inner \<Longrightarrow>
     c \<noteq> backtick \<and> byte c \<notin> {9, 10, 11, 12, 13}"
proof -
  assume span: "codeSpan s = backtick # inner @ [backtick]" and c: "c \<in> set inner"
  let ?t = "remove_byte backtick s"
  have "inner = join (str_fields ?t) '' ''" using span by (simp add: codeSpan_def)
  with c consider "c = CHR '' ''" | f where "f \<in> set (str_fields ?t)" "c \<in> set f"
    using set_join [of c "str_fields ?t" "'' ''"] by auto
  then show ?thesis
  proof cases
    case 1
    then show ?thesis by (simp add: backtick_def)
  next
    case (2 f)
    then obtain r bs where rb: "(r, bs) \<in> set (chunks ?t)" "\<not> is_space r" "c \<in> set bs"
      unfolding str_fields_def using fields_loop_chars [of f "chunks ?t" "[]" c] by auto
    have "c \<in> set ?t" using set_chunks [OF rb(1)] rb(3) by blast
    then have "c \<noteq> backtick" by (simp add: remove_byte_def)
    moreover have "byte c \<notin> {9, 10, 11, 12, 13}"
      using chunks_ascii_byte [OF rb(1,3)] rb(2) by (auto simp: is_space_def space_runes_def ascii_spaces_def)
    ultimately show ?thesis by blast
  qed
qed

section \<open>Slugs\<close>

definition slug_char :: "char \<Rightarrow> bool" where
  "slug_char c \<longleftrightarrow> 97 \<le> byte c \<and> byte c \<le> 122 \<or> 48 \<le> byte c \<and> byte c \<le> 57"

text \<open>Lowercase letters and digits, in groups joined by single hyphens.\<close>

definition slug_shape :: "string \<Rightarrow> bool" where
  "slug_shape s \<longleftrightarrow> list_all (\<lambda>c. slug_char c \<or> c = CHR ''-'') s \<and>
     successively (\<lambda>a b. a \<noteq> CHR ''-'' \<or> b \<noteq> CHR ''-'') s \<and>
     (s \<noteq> [] \<longrightarrow> hd s \<noteq> CHR ''-'' \<and> last s \<noteq> CHR ''-'')"

lemma slug_char_rune: "97 \<le> r \<and> r \<le> 122 \<or> 48 \<le> r \<and> r \<le> 57 \<Longrightarrow> slug_char (char_of r) \<and> char_of r \<noteq> CHR ''-''" for r :: nat
proof -
  assume r: "97 \<le> r \<and> r \<le> 122 \<or> 48 \<le> r \<and> r \<le> 57"
  then have "byte (char_of r) = r" by auto
  with r show ?thesis by (auto simp: slug_char_def dest: arg_cong [of _ _ byte])
qed

lemma slug_loop_chars: "c \<in> set (slug_loop rs p) \<Longrightarrow> slug_char c \<or> c = CHR ''-''"
  by (induction rs p rule: slug_loop.induct) (auto simp: slug_char_rune split: if_splits)

lemma slug_loop_hd: "slug_loop rs True \<noteq> [] \<Longrightarrow> hd (slug_loop rs True) \<noteq> CHR ''-''"
  by (induction rs) (auto simp: slug_char_rune)

lemma slug_loop_successively: "successively (\<lambda>a b. a \<noteq> CHR ''-'' \<or> b \<noteq> CHR ''-'') (slug_loop rs p)"
proof (induction rs p rule: slug_loop.induct)
  case (2 r rs p)
  then show ?case
    using slug_loop_hd [of rs] by (auto simp: successively_Cons slug_char_rune split: if_splits)
qed simp

lemma trim_byte_parts: "\<exists>a b. s = a @ trim_byte c s @ b"
proof -
  have "s = takeWhile (\<lambda>x. x = c) s @ dropWhile (\<lambda>x. x = c) s" by simp
  moreover have "dropWhile (\<lambda>x. x = c) s = trim_byte c s @ rev (takeWhile (\<lambda>x. x = c) (rev (dropWhile (\<lambda>x. x = c) s)))"
    unfolding trim_byte_def by (metis rev_append rev_rev_ident takeWhile_dropWhile_id)
  ultimately show ?thesis by metis
qed

lemma trim_byte_last: "trim_byte c s \<noteq> [] \<Longrightarrow> last (trim_byte c s) \<noteq> c"
  unfolding trim_byte_def by (metis (mono_tags, lifting) hd_dropWhile last_rev rev_is_Nil_conv)

lemma trim_byte_id: "s = [] \<or> hd s \<noteq> c \<and> last s \<noteq> c \<Longrightarrow> trim_byte c s = s"
proof -
  have d: "dropWhile (\<lambda>x. x = c) xs = xs" if "xs = [] \<or> hd xs \<noteq> c" for xs
    using that by (cases xs) auto
  assume "s = [] \<or> hd s \<noteq> c \<and> last s \<noteq> c"
  then show ?thesis by (auto simp: trim_byte_def d hd_rev)
qed

lemma DeriveSlug_shape: "slug_shape (DeriveSlug U name)"
proof -
  let ?s = "slug_loop (runes (to_lower U name)) True"
  obtain a b where ab: "?s = a @ DeriveSlug U name @ b"
    using trim_byte_parts [of ?s "CHR ''-''"] by (auto simp: DeriveSlug_def)
  have "list_all (\<lambda>c. slug_char c \<or> c = CHR ''-'') ?s" using slug_loop_chars by (auto simp: list_all_iff)
  then have "list_all (\<lambda>c. slug_char c \<or> c = CHR ''-'') (DeriveSlug U name)" unfolding ab by simp
  moreover have "successively (\<lambda>a b. a \<noteq> CHR ''-'' \<or> b \<noteq> CHR ''-'') (DeriveSlug U name)"
    using slug_loop_successively [of "runes (to_lower U name)" True] unfolding ab by (simp add: successively_append_iff)
  moreover have "hd (DeriveSlug U name) \<noteq> CHR ''-''" if "DeriveSlug U name \<noteq> []"
  proof (cases a)
    case Nil
    then show ?thesis using slug_loop_hd [of "runes (to_lower U name)"] that ab by (metis append_Nil append_is_Nil_conv hd_append2)
  next
    case (Cons x xs)
    have "dropWhile (\<lambda>c. c = CHR ''-'') ?s = ?s"
      using slug_loop_hd [of "runes (to_lower U name)"] by (cases ?s) auto
    then have "?s = DeriveSlug U name @ rev (takeWhile (\<lambda>c. c = CHR ''-'') (rev ?s))"
      unfolding DeriveSlug_def trim_byte_def by (metis rev_append rev_rev_ident takeWhile_dropWhile_id)
    then show ?thesis using slug_loop_hd [of "runes (to_lower U name)"] that by (metis append_is_Nil_conv hd_append2)
  qed
  moreover have "last (DeriveSlug U name) \<noteq> CHR ''-''" if "DeriveSlug U name \<noteq> []"
    using trim_byte_last [of "CHR ''-''" ?s] that by (simp add: DeriveSlug_def)
  ultimately show ?thesis by (simp add: slug_shape_def)
qed

lemma slug_loop_id:
  assumes "list_all (\<lambda>c. slug_char c \<or> c = CHR ''-'') s" "successively (\<lambda>a b. a \<noteq> CHR ''-'' \<or> b \<noteq> CHR ''-'') s"
    "p \<longrightarrow> s = [] \<or> hd s \<noteq> CHR ''-''"
  shows "slug_loop (map byte s) p = s"
  using assms
proof (induction s arbitrary: p)
  case (Cons c s)
  have rest: "list_all (\<lambda>c. slug_char c \<or> c = CHR ''-'') s" "successively (\<lambda>a b. a \<noteq> CHR ''-'' \<or> b \<noteq> CHR ''-'') s"
    using Cons.prems by (auto simp: successively_Cons)
  show ?case
  proof (cases "slug_char c")
    case True
    then show ?thesis using Cons.IH [OF rest, of False] by (auto simp: slug_char_def)
  next
    case False
    then have "c = CHR ''-''" "\<not> p" using Cons.prems by auto
    moreover have "s = [] \<or> hd s \<noteq> CHR ''-''" using Cons.prems \<open>c = CHR ''-''\<close> by (auto simp: successively_Cons)
    ultimately show ?thesis using Cons.IH [OF rest, of True] by simp
  qed
qed simp

text \<open>A slug is its own slug.\<close>

lemma DeriveSlug_id: "slug_shape s \<Longrightarrow> DeriveSlug U s = s"
proof -
  assume s: "slug_shape s"
  then have ok: "list_all (\<lambda>c. slug_char c \<or> c = CHR ''-'') s" by (simp add: slug_shape_def)
  then have low: "list_all (\<lambda>c. byte c < 128 \<and> \<not> (65 \<le> byte c \<and> byte c \<le> 90)) s"
    by (auto simp: list_all_iff slug_char_def)
  then have "is_ascii s" by (auto simp: is_ascii_def list_all_iff)
  then have "runes (to_lower U s) = map byte s" using to_lower_id [OF low] by (simp add: runes_ascii)
  moreover have "slug_loop (map byte s) True = s" using s by (intro slug_loop_id) (auto simp: slug_shape_def)
  ultimately have "DeriveSlug U s = trim_byte CHR ''-'' s" by (simp add: DeriveSlug_def)
  then show ?thesis using s by (auto simp: slug_shape_def trim_byte_id)
qed

section \<open>The requests of a run\<close>

definition logged :: "'w github \<Rightarrow> (gh_request list \<times> 'w) github" where
  "logged G =
     \<lparr>gh_do = (\<lambda>rq (log, w). let (r, w') = gh_do G rq w in (r, (log @ [rq], w'))),
      gh_sleep = (\<lambda>d (log, w). let (e, w') = gh_sleep G d w in (e, (log, w'))),
      gh_urlErr = gh_urlErr G, gh_refSHA = gh_refSHA G, gh_contents = gh_contents G, gh_htmlURL = gh_htmlURL G,
      gh_prURLs = gh_prURLs G, gh_toml = gh_toml G, gh_unicode = gh_unicode G\<rparr>"

definition get_req :: "string \<Rightarrow> gh_request" where
  "get_req path = \<lparr>rq_method = ''GET'', rq_path = path, rq_body = None\<rparr>"

definition ref_req :: "worker_config \<Rightarrow> string \<Rightarrow> string \<Rightarrow> gh_request" where
  "ref_req c branch sha = \<lparr>rq_method = ''POST'', rq_path = repo_path c ''git/refs'',
     rq_body = Some [(''ref'', JStr (''refs/heads/'' @ branch)), (''sha'', JStr sha)]\<rparr>"

definition reset_req :: "worker_config \<Rightarrow> string \<Rightarrow> string \<Rightarrow> gh_request" where
  "reset_req c branch sha = \<lparr>rq_method = ''PATCH'', rq_path = repo_path c (''git/refs/heads/'' @ branch),
     rq_body = Some [(''sha'', JStr sha), (''force'', JBool True)]\<rparr>"

definition put_req :: "worker_config \<Rightarrow> string \<Rightarrow> string \<Rightarrow> string \<Rightarrow> string \<Rightarrow> gh_request" where
  "put_req c branch content sha message = \<lparr>rq_method = ''PUT'', rq_path = repo_path c (''contents/'' @ wc_SeedFilePath c),
     rq_body = Some [(''message'', JStr message), (''content'', JStr (StdEncode content)),
       (''sha'', JStr sha), (''branch'', JStr branch)]\<rparr>"

definition pull_req :: "worker_config \<Rightarrow> string \<Rightarrow> string \<Rightarrow> string \<Rightarrow> string \<Rightarrow> gh_request" where
  "pull_req c title body head base = \<lparr>rq_method = ''POST'', rq_path = repo_path c ''pulls'',
     rq_body = Some [(''title'', JStr title), (''body'', JStr body), (''head'', JStr head), (''base'', JStr base)]\<rparr>"

lemma doRequest_log:
  assumes "doRequest (logged G) m p b (log, w) = (r, (log', w'))"
  shows "log' = log @ (case r of Inr _ \<Rightarrow> [\<lparr>rq_method = m, rq_path = p, rq_body = b\<rparr>]
      | Inl _ \<Rightarrow> if gh_urlErr G p = None then [\<lparr>rq_method = m, rq_path = p, rq_body = b\<rparr>] else [])"
  using assms by (auto simp: doRequest_def logged_def Let_def split: option.splits prod.splits sum.splits)

text \<open>An idempotent request is sent at most once per attempt and never changes.\<close>

lemma attempt_loop_log:
  assumes "attempt_loop (logged G) ''GET'' p k a (log, w) = (r, (log', w'))"
  shows "\<exists>j \<le> Suc k. log' = log @ replicate j (get_req p)"
  using assms
proof (induction k arbitrary: a log w)
  case (0 a log w)
  obtain r1 log1 w1 where d: "doRequest (logged G) ''GET'' p None (log, w) = (r1, (log1, w1))" by (metis prod.exhaust)
  have "log' = log1"
    using "0.prems" d by (subst (asm) attempt_loop.simps) (auto simp: Let_def split: prod.splits sum.splits)
  with doRequest_log [OF d] have "log' = log \<or> log' = log @ [get_req p]"
    by (auto simp: get_req_def split: sum.splits if_splits)
  then show ?case by (auto intro: exI [of _ 0] exI [of _ "Suc 0"])
next
  case (Suc k a log w)
  obtain r1 log1 w1 where d: "doRequest (logged G) ''GET'' p None (log, w) = (r1, (log1, w1))" by (metis prod.exhaust)
  from doRequest_log [OF d] have l1: "log1 = log \<or> log1 = log @ [get_req p]"
    by (auto simp: get_req_def split: sum.splits if_splits)
  have once: "\<exists>j\<le>Suc (Suc k). log1 = log @ replicate j (get_req p)"
    using l1 by (auto intro: exI [of _ 0] exI [of _ "Suc 0"])
  show ?case
  proof (cases "log' = log1")
    case True
    with once show ?thesis by simp
  next
    case False
    obtain e w2 where s: "gh_sleep G (retryBaseBackoff * 2 ^ (a - 1)) w1 = (e, w2)" by fastforce
    have sl: "gh_sleep (logged G) (retryBaseBackoff * 2 ^ (a - 1)) (log1, w1) = (e, (log1, w2))"
      using s by (simp add: logged_def)
    have "attempt_loop (logged G) ''GET'' p k (a + 1) (log1, w2) = (r, (log', w'))"
      using Suc.prems False d sl
      by (subst (asm) attempt_loop.simps) (auto simp: Let_def split: prod.splits sum.splits if_splits option.splits)
    from Suc.IH [OF this] obtain j where "j \<le> Suc k" "log' = log1 @ replicate j (get_req p)" by blast
    with l1 show ?thesis
      by (auto intro: exI [of _ j] exI [of _ "Suc j"])
  qed
qed

lemma idempotent_log:
  assumes "doIdempotentRequest (logged G) ''GET'' p (log, w) = (r, (log', w'))"
  shows "\<exists>j \<le> 4. log' = log @ replicate j (get_req p)"
  using attempt_loop_log [of G p 3 1 log w r log' w'] assms
  by (simp add: doIdempotentRequest_def retryMaxAttempts_def)

lemma getBranchSHA_log:
  assumes "getBranchSHA (logged G) c b (log, w) = (r, (log', w'))"
  shows "\<exists>j p. j \<le> 4 \<and> log' = log @ replicate j (get_req p)"
  using assms by (auto simp: getBranchSHA_def dest!: idempotent_log split: prod.splits sum.splits)

lemma getFile_log:
  assumes "getFile (logged G) c f b (log, w) = (r, (log', w'))"
  shows "\<exists>j p. j \<le> 4 \<and> log' = log @ replicate j (get_req p)"
  using assms by (auto simp: getFile_def dest!: idempotent_log split: prod.splits sum.splits)

lemma findOpenPR_log:
  assumes "findOpenPR (logged G) c h b (log, w) = (r, (log', w'))"
  shows "\<exists>j p. j \<le> 4 \<and> log' = log @ replicate j (get_req p)"
  using assms by (auto simp: findOpenPR_def Let_def dest!: idempotent_log split: prod.splits sum.splits)

lemma createBranch_log:
  assumes "createBranch (logged G) c b sha (log, w) = (r, (log', w'))"
  shows "\<exists>xs. log' = log @ xs \<and> xs \<in> {[], [ref_req c b sha], [ref_req c b sha, reset_req c b sha]} \<and> (r = None \<longrightarrow> xs \<noteq> [])"
proof -
  obtain r1 log1 w1 where d: "doRequest (logged G) ''POST'' (repo_path c ''git/refs'')
      (Some [(''ref'', JStr (''refs/heads/'' @ b)), (''sha'', JStr sha)]) (log, w) = (r1, (log1, w1))"
    by (metis prod.exhaust)
  note l1 = doRequest_log [OF d, folded ref_req_def]
  show ?thesis
  proof (cases r1)
    case (Inl e)
    with assms d l1 show ?thesis by (auto simp: createBranch_def split: if_splits)
  next
    case (Inr resp)
    show ?thesis
    proof (cases "log' = log1")
      case True
      with l1 Inr show ?thesis by auto
    next
      case False
      then have "resetBranch (logged G) c b sha (log1, w1) = (r, (log', w'))"
        using assms d Inr by (auto simp: createBranch_def Let_def split: if_splits)
      then have "log' = log1 \<or> log' = log1 @ [reset_req c b sha]"
        by (auto simp: resetBranch_def reset_req_def dest!: doRequest_log split: prod.splits sum.splits if_splits)
      with False l1 Inr show ?thesis by auto
    qed
  qed
qed

lemma putFile_log:
  assumes "putFile (logged G) c (wc_SeedFilePath c) b content sha msg (log, w) = (r, (log', w'))"
  shows "\<exists>xs. log' = log @ xs \<and> xs \<in> {[], [put_req c b content sha msg]} \<and> (r = None \<longrightarrow> xs \<noteq> [])"
  using assms by (auto simp: putFile_def put_req_def dest!: doRequest_log split: prod.splits sum.splits if_splits)

lemma createPR_log:
  assumes "createPR (logged G) c title body h b (log, w) = (r, (log', w'))"
  shows "\<exists>xs j p. log' = log @ xs @ replicate j (get_req p) \<and> j \<le> 4 \<and> xs \<in> {[], [pull_req c title body h b]} \<and>
    ((\<exists>u. r = Inr u) \<longrightarrow> xs \<noteq> [])"
proof -
  obtain r1 log1 w1 where d: "doRequest (logged G) ''POST'' (repo_path c ''pulls'')
      (Some [(''title'', JStr title), (''body'', JStr body), (''head'', JStr h), (''base'', JStr b)]) (log, w) = (r1, (log1, w1))"
    by (metis prod.exhaust)
  note l1 = doRequest_log [OF d, folded pull_req_def]
  show ?thesis
  proof (cases r1)
    case (Inl e)
    with assms d have "log' = log1" "r = Inl e" by (auto simp: createPR_def)
    with l1 Inl obtain xs where "log' = log @ xs" "xs \<in> {[], [pull_req c title body h b]}" by (auto split: if_splits)
    with \<open>r = Inl e\<close> show ?thesis by (intro exI [of _ xs] exI [of _ 0]) auto
  next
    case (Inr resp)
    then have ne: "log1 = log @ [pull_req c title body h b]" using l1 by simp
    show ?thesis
    proof (cases "rs_status resp = 422")
      case True
      obtain r2 log2 w2 where f: "findOpenPR (logged G) c h b (log1, w1) = (r2, (log2, w2))" by (metis prod.exhaust)
      then have "log' = log2" using assms d Inr True by (auto simp: createPR_def Let_def split: sum.splits)
      moreover from findOpenPR_log [OF f] obtain j p where "j \<le> 4" "log2 = log1 @ replicate j (get_req p)" by blast
      ultimately show ?thesis using ne by (intro exI [of _ "[pull_req c title body h b]"] exI [of _ j] exI [of _ p]) auto
    next
      case False
      then have "log' = log1" using assms d Inr by (auto simp: createPR_def)
      with ne show ?thesis by (intro exI [of _ "[pull_req c title body h b]"] exI [of _ 0]) auto
    qed
  qed
qed

text \<open>
  The shape of a run: reads of the base branch and of the seed file, then, each at most once and in this
  order, the creation of the branch, its reset, the commit and the pull request, with reads of the open
  pull requests at the end.
\<close>

definition added_at :: "instant \<Rightarrow> submission \<Rightarrow> instant" where
  "added_at now sub = (case sub_ProcessedAt sub of None \<Rightarrow> now | Some t \<Rightarrow> t)"

text \<open>
  The new content is the seed file as a read of the base branch gave it, followed by the rendered
  block, and goes with the blob id of the same read.
\<close>

definition appends_block :: "'w github \<Rightarrow> worker_config \<Rightarrow> instant \<Rightarrow> submission \<Rightarrow> string \<Rightarrow> string \<Rightarrow> bool" where
  "appends_block G c now sub content fsha \<longleftrightarrow> (\<exists>s old s' block.
     getFile (logged G) c (wc_SeedFilePath c) (wc_BaseBranch c) s = (Inr old, s') \<and>
     content = ensureTrailingNewline (fc_Content old) @ block \<and> fsha = fc_SHA old \<and>
     RenderOrgBlock (gh_toml G) sub (DeriveSlug (gh_unicode G) (sp_Name (sub_Payload sub))) (added_at now sub) = Inr block)"

definition base_commit :: "'w github \<Rightarrow> worker_config \<Rightarrow> string \<Rightarrow> bool" where
  "base_commit G c sha \<longleftrightarrow> (\<exists>s s'. getBranchSHA (logged G) c (wc_BaseBranch c) s = (Inr sha, s'))"

definition run_shape :: "'w github \<Rightarrow> worker_config \<Rightarrow> instant \<Rightarrow> submission \<Rightarrow> gh_request list \<Rightarrow> bool \<Rightarrow> bool" where
  "run_shape G c now sub log success \<longleftrightarrow>
     (let b = submissionBranchName (sub_PublicID sub) in
      \<exists>i j k p p' p'' sha xs ys zs content fsha.
        log = replicate i (get_req p) @ replicate j (get_req p') @ xs @ ys @ zs @ replicate k (get_req p'') \<and>
        i \<le> 4 \<and> j \<le> 4 \<and> k \<le> 4 \<and>
        xs \<in> {[], [ref_req c b sha], [ref_req c b sha, reset_req c b sha]} \<and>
        ys \<in> {[], [put_req c b content fsha (commit_message sub)]} \<and>
        zs \<in> {[], [pull_req c (''Add '' @ codeSpan (sp_Name (sub_Payload sub))) (buildPRBody sub) b (wc_BaseBranch c)]} \<and>
        (xs \<noteq> [] \<longrightarrow> base_commit G c sha) \<and>
        (ys \<noteq> [] \<longrightarrow> xs \<noteq> [] \<and> appends_block G c now sub content fsha) \<and> (zs \<noteq> [] \<longrightarrow> ys \<noteq> []) \<and> (success \<longrightarrow> zs \<noteq> []))"

lemma run_shapeI:
  assumes "log = replicate i (get_req p) @ replicate j (get_req p') @ xs @ ys @ zs @ replicate k (get_req p'')"
    and "i \<le> 4" "j \<le> 4" "k \<le> 4"
    and "xs \<in> {[], [ref_req c (submissionBranchName (sub_PublicID sub)) sha,
           reset_req c (submissionBranchName (sub_PublicID sub)) sha], [ref_req c (submissionBranchName (sub_PublicID sub)) sha]}"
    and "ys \<in> {[], [put_req c (submissionBranchName (sub_PublicID sub)) content fsha (commit_message sub)]}"
    and "zs \<in> {[], [pull_req c (''Add '' @ codeSpan (sp_Name (sub_Payload sub))) (buildPRBody sub)
           (submissionBranchName (sub_PublicID sub)) (wc_BaseBranch c)]}"
    and "xs \<noteq> [] \<Longrightarrow> base_commit G c sha"
    and "ys \<noteq> [] \<Longrightarrow> xs \<noteq> [] \<and> appends_block G c now sub content fsha" "zs \<noteq> [] \<Longrightarrow> ys \<noteq> []" "success \<Longrightarrow> zs \<noteq> []"
  shows "run_shape G c now sub log success"
  unfolding run_shape_def Let_def
  by (rule exI [of _ i], rule exI [of _ j], rule exI [of _ k], rule exI [of _ p], rule exI [of _ p'], rule exI [of _ p''],
      rule exI [of _ sha], rule exI [of _ xs], rule exI [of _ ys], rule exI [of _ zs], rule exI [of _ content], rule exI [of _ fsha])
    (use assms in blast)

text \<open>The writing part of a run, after the two reads.\<close>

lemma write_stage_log:
  fixes G :: "'w github"
  defines "L \<equiv> logged G"
  assumes "(case createBranch L c (submissionBranchName (sub_PublicID sub)) sha (log, w) of
        (Some e, w3) \<Rightarrow> (Inl (Wrap m1 e), w3)
      | (None, w3) \<Rightarrow>
     (case putFile L c (wc_SeedFilePath c) (submissionBranchName (sub_PublicID sub)) content fsha (commit_message sub) w3 of
        (Some e, w4) \<Rightarrow> (Inl (Wrap m2 e), w4)
      | (None, w4) \<Rightarrow>
     (case createPR L c (''Add '' @ codeSpan (sp_Name (sub_Payload sub))) (buildPRBody sub)
             (submissionBranchName (sub_PublicID sub)) (wc_BaseBranch c) w4 of
        (Inl e, w5) \<Rightarrow> (Inl (Wrap m3 e), w5)
      | (Inr prURL, w5) \<Rightarrow> (Inr prURL, w5)))) = (r, (log', w'))"
    and reads: "log = replicate i (get_req p) @ replicate j (get_req p')" "i \<le> 4" "j \<le> 4"
    and base: "base_commit G c sha" and content: "appends_block G c now sub content fsha"
  shows "run_shape G c now sub log' (\<exists>u. r = Inr u)"
proof -
  let ?b = "submissionBranchName (sub_PublicID sub)"
  obtain r1 log1 w1 where c1: "createBranch L c ?b sha (log, w) = (r1, (log1, w1))" by (metis prod.exhaust)
  from createBranch_log [OF c1 [unfolded L_def]] obtain xs where xs: "log1 = log @ xs"
    "xs \<in> {[], [ref_req c ?b sha], [ref_req c ?b sha, reset_req c ?b sha]}" "r1 = None \<longrightarrow> xs \<noteq> []" by blast
  show ?thesis
  proof (cases r1)
    case (Some e)
    then have "log' = log1" "\<nexists>u. r = Inr u" using assms(2) c1 by auto
    then show ?thesis using xs reads base
      by (intro run_shapeI [of log' i p j p' xs "[]" "[]" 0 undefined]) auto
  next
    case None
    obtain r2 log2 w2 where c2: "putFile L c (wc_SeedFilePath c) ?b content fsha (commit_message sub) (log1, w1) = (r2, (log2, w2))"
      by (metis prod.exhaust)
    from putFile_log [OF c2 [unfolded L_def]] obtain ys where ys: "log2 = log1 @ ys"
      "ys \<in> {[], [put_req c ?b content fsha (commit_message sub)]}" "r2 = None \<longrightarrow> ys \<noteq> []" by blast
    show ?thesis
    proof (cases r2)
      case (Some e)
      then have "log' = log2" "\<nexists>u. r = Inr u" using assms(2) c1 c2 None by auto
      then show ?thesis using xs ys reads base None content
        by (intro run_shapeI [of log' i p j p' xs ys "[]" 0 undefined]) auto
    next
      case r2: None
      obtain r3 log3 w3 where c3: "createPR L c (''Add '' @ codeSpan (sp_Name (sub_Payload sub))) (buildPRBody sub) ?b
          (wc_BaseBranch c) (log2, w2) = (r3, (log3, w3))" by (metis prod.exhaust)
      have "log' = log3" "(\<exists>u. r = Inr u) \<longleftrightarrow> (\<exists>u. r3 = Inr u)"
        using assms(2) c1 c2 c3 None r2 by (auto split: sum.splits)
      moreover from createPR_log [OF c3 [unfolded L_def]] obtain zs k p'' where "log3 = log2 @ zs @ replicate k (get_req p'')" "k \<le> 4"
        "zs \<in> {[], [pull_req c (''Add '' @ codeSpan (sp_Name (sub_Payload sub))) (buildPRBody sub) ?b (wc_BaseBranch c)]}"
        "(\<exists>u. r3 = Inr u) \<longrightarrow> zs \<noteq> []" by blast
      ultimately show ?thesis using xs ys reads base None r2 content
        by (intro run_shapeI [of log' i p j p' xs ys zs k p'']) auto
    qed
  qed
qed

lemma openPR_log:
  assumes "openPR (logged G) c now sub ([], w) = (r, (log, w'))"
  shows "run_shape G c now sub log (\<exists>u. r = Inr u)"
proof -
  obtain r1 log1 w1 where c1: "getBranchSHA (logged G) c (wc_BaseBranch c) ([], w) = (r1, (log1, w1))" by (metis prod.exhaust)
  from getBranchSHA_log [OF c1] obtain i p where l1: "log1 = replicate i (get_req p)" "i \<le> 4" by auto
  obtain r2 log2 w2 where c2: "getFile (logged G) c (wc_SeedFilePath c) (wc_BaseBranch c) (log1, w1) = (r2, (log2, w2))"
    by (metis prod.exhaust)
  from getFile_log [OF c2] obtain j p' where l2: "log2 = log1 @ replicate j (get_req p')" "j \<le> 4" by auto
  have stop: "run_shape G c now sub log (\<exists>u. r = Inr u)" if "\<nexists>u. r = Inr u" "log = replicate i (get_req p) @ replicate n (get_req p')" "n \<le> 4" for n
    using that l1 by (intro run_shapeI [of log i p n p' "[]" "[]" "[]" 0 undefined]) auto
  consider "\<exists>e. r1 = Inl e" | "\<exists>sha e. r1 = Inr sha \<and> r2 = Inl e" | (full) sha f where "r1 = Inr sha" "r2 = Inr f"
    by (cases r1; cases r2) auto
  then show ?thesis
  proof cases
    case 1
    then show ?thesis using assms c1 l1 by (intro stop [of 0]) (auto simp: openPR_def)
  next
    case 2
    then show ?thesis using assms c1 c2 l1 l2 by (intro stop [of j]) (auto simp: openPR_def)
  next
    case full
    have fields: "gh_toml (logged G) = gh_toml G" "gh_unicode (logged G) = gh_unicode G" by (simp_all add: logged_def)
    show ?thesis
    proof (cases "RenderOrgBlock (gh_toml G) sub (DeriveSlug (gh_unicode G) (sp_Name (sub_Payload sub))) (added_at now sub)")
      case (Inl e)
      then show ?thesis using assms c1 c2 l1 l2 full
        by (intro stop [of j]) (auto simp: openPR_def fields added_at_def Let_def)
    next
      case (Inr block)
      then have "appends_block G c now sub (ensureTrailingNewline (fc_Content f) @ block) (fc_SHA f)"
        using c2 full unfolding appends_block_def by blast
      moreover have "base_commit G c sha" using c1 full unfolding base_commit_def by blast
      ultimately show ?thesis
        using assms c1 c2 l1 l2 full Inr
        by (intro write_stage_log [where G = G and c = c and sub = sub and sha = sha and log = log2 and w = w2 and fsha = "fc_SHA f"
            and content = "ensureTrailingNewline (fc_Content f) @ block" and i = i and j = j and p = p and p' = p'])
          (auto simp: openPR_def fields added_at_def Let_def)
    qed
  qed
qed

section \<open>Properties\<close>

lemma run_shape_length: "run_shape G c now sub log ok \<Longrightarrow> length log \<le> 16"
  unfolding run_shape_def Let_def by (elim exE conjE) auto

text \<open>
  C17. Whatever GitHub answers, a promotion run sends at most 16 requests: up to four reads of the base
  branch, up to four of the seed file, then, each at most once and in this order, the creation of the
  submission's branch at the base commit read before (and its reset to that commit), the commit on that
  branch of the seed file as read with the rendered entry appended, and the pull request from that branch
  into the base. A mutation is never repeated, a step follows only the success of the step before it, and
  a run that succeeds has asked for the pull request.
\<close>

theorem promotion_requests:
  "\<exists>r log w'. openPR (logged G) c now sub ([], w) = (r, (log, w')) \<and>
     run_shape G c now sub log (\<exists>u. r = Inr u) \<and> length log \<le> 16"
proof -
  obtain r log w' where run: "openPR (logged G) c now sub ([], w) = (r, (log, w'))" by (metis prod.exhaust)
  with openPR_log [OF run] show ?thesis using run_shape_length by blast
qed


text \<open>
  Text from a submission that is shown in a code span cannot leave it: between the two backticks of
  \<open>codeSpan\<close> there is no backtick and no line break or other ASCII white space but blanks.
\<close>

theorem codeSpan_closed:
  "\<exists>inner. codeSpan s = backtick # inner @ [backtick] \<and>
     list_all (\<lambda>b. b \<noteq> backtick \<and> byte b \<notin> {9, 10, 11, 12, 13}) inner"
proof -
  have "codeSpan s = backtick # join (str_fields (remove_byte backtick s)) '' '' @ [backtick]" by (simp add: codeSpan_def)
  with codeSpan_inner [OF this] show ?thesis by (auto simp: list_all_iff)
qed

text \<open>
  \<open>DeriveSlug\<close> gives groups of lowercase letters and digits joined by single hyphens, whatever the
  name, and deriving the slug of a slug changes nothing.
\<close>

theorem DeriveSlug_wellformed:
  "slug_shape (DeriveSlug U name) \<and> DeriveSlug U (DeriveSlug U name) = DeriveSlug U name"
  using DeriveSlug_shape DeriveSlug_id by blast

end
