(* ===== verification/Promotion_Worker.thy ===== *)
theory Promotion_Worker
  imports Promotion Submission_Pages
begin

text \<open>
  The asynchronous worker of \<open>api/internal/githubpr/worker.go\<close> around the pipeline of \<open>Promotion\<close>: the
  bounded job channel, \<open>Enqueue\<close>, \<open>Run\<close> with its drain, \<open>Stop\<close>, and \<open>process\<close>, which records the outcome
  of a run on the submission's row.

  The three parties (callers of \<open>Enqueue\<close>, the \<open>Run\<close> goroutine, a caller of \<open>Stop\<close>) interleave: each
  atomic action is one step of a relation. The channel is the list \<open>wk_jobs\<close> of the buffered jobs;
  \<open>Stop\<close> closes it at the moment it sets \<open>stopped\<close>, under the lock \<open>Enqueue\<close> reads. The fields below
  \<open>wk_accepted\<close> are history, not state of the program.
\<close>

section \<open>Recording the outcome of a run\<close>

text \<open>\<open>err.Error()\<close>; \<open>T\<close> gives the text of an error that wraps no other.\<close>

fun error_text :: "(go_error \<Rightarrow> string) \<Rightarrow> go_error \<Rightarrow> string" where
  "error_text T (Wrap prefix e) = prefix @ '': '' @ error_text T e"
| "error_text T (WrapBoth e what e') = error_text T e @ '' ('' @ what @ '': '' @ error_text T e' @ '')''"
| "error_text T e = T e"

type_synonym 'd persist = "string \<Rightarrow> string \<Rightarrow> string \<Rightarrow> 'd \<Rightarrow> unit result \<times> 'd"

text \<open>A failure of \<open>PersistResult\<close> is logged only.\<close>

definition process :: "'w github \<Rightarrow> worker_config \<Rightarrow> (go_error \<Rightarrow> string) \<Rightarrow> 'd persist option \<Rightarrow> instant \<Rightarrow>
    submission \<Rightarrow> 'w \<times> 'd \<Rightarrow> 'w \<times> 'd" where
  "process G c T PersistResult now sub wd =
     (let (r, w') = openPR G c now sub (fst wd) in
      case r of
        Inl e \<Rightarrow> (w', case PersistResult of None \<Rightarrow> snd wd
                     | Some f \<Rightarrow> snd (f (sub_PublicID sub) [] (error_text T e) (snd wd)))
      | Inr prURL \<Rightarrow> (w', case PersistResult of None \<Rightarrow> snd wd
                     | Some f \<Rightarrow> snd (f (sub_PublicID sub) prURL [] (snd wd))))"

text \<open>The command \<open>submissions retry-pr\<close>, after its flags are read and the database is open.\<close>

definition runRetryPR :: "'w github \<Rightarrow> payload_codec \<Rightarrow> call_env \<Rightarrow> (go_error \<Rightarrow> string) \<Rightarrow> string \<Rightarrow> string \<Rightarrow> 'w \<times> sub_db \<Rightarrow>
    string result \<times> 'w \<times> sub_db" where
  "runRetryPR G J E T token publicID wd =
     (if token = [] then (Inl (Errorf ''submissions retry-pr: --github-token (or URBANIST_GITHUB_TOKEN) required'' []), wd)
      else case Get J E publicID (snd wd) of
        Inl e \<Rightarrow> (Inl (Wrap (''submissions retry-pr: load '' @ publicID) e), wd)
      | Inr sub \<Rightarrow>
          if sub_Status sub \<noteq> SubmissionApproved
          then (Inl (Errorf ''submissions retry-pr: submission %s is %q, not approved'' [publicID, sub_Status sub]), wd)
          else
            (let cfg = New \<lparr>wc_Token = token, wc_Owner = [], wc_Repo = [], wc_BaseBranch = [], wc_SeedFilePath = [], wc_BufferSize = 0\<rparr>;
                 (r, w') = ProcessNow G cfg (ce_now E) sub (fst wd);
                 (prURL, persistErr) = (case r of Inl e \<Rightarrow> ([], error_text T e) | Inr u \<Rightarrow> (u, []));
                 (_, db') = AttachPromotionResult E (sub_PublicID sub) prURL persistErr (snd wd)
             in (case r of Inl e \<Rightarrow> Inl (Wrap ''submissions retry-pr'' e) | Inr u \<Rightarrow> Inr u, (w', db'))))"

section \<open>The worker\<close>

datatype run_mode = Serving | Draining

text \<open>
  A job between its receive from the channel and the next: received, stored as \<open>inflight\<close>, and
  processed with \<open>inflight\<close> still set.
\<close>

datatype job_phase = Received | Tracked | Processed

datatype run_pc = Looping run_mode | Job run_mode job_phase submission | RunReturned

datatype stop_pc = NotStopping | StopWaiting | StopCollecting "string list" | StopReturned "string list" bool

datatype taker = ByRun | ByStop

record worker =
  wk_jobs :: "submission list"
  wk_stopped :: bool
  wk_inflight :: "string option"
  wk_cancelled :: bool
  wk_run :: run_pc
  wk_stop :: stop_pc
  wk_accepted :: "submission list"
  wk_taken :: "(taker \<times> submission) list"
  wk_finished :: "submission list"
  wk_reported :: "string list"

definition new_worker :: worker where
  "new_worker = \<lparr>wk_jobs = [], wk_stopped = False, wk_inflight = None, wk_cancelled = False, wk_run = Looping Serving,
     wk_stop = NotStopping, wk_accepted = [], wk_taken = [], wk_finished = [], wk_reported = []\<rparr>"

definition Enqueue :: "worker_config \<Rightarrow> submission \<Rightarrow> worker \<Rightarrow> go_error option \<times> worker" where
  "Enqueue c sub w =
     (if wc_Token c = [] then (Some (Sentinel ErrPromotionDisabled), w)
      else if wk_stopped w then (Some (Sentinel ErrStopped), w)
      else if length (wk_jobs w) < nat (wc_BufferSize c)
      then (None, w\<lparr>wk_jobs := wk_jobs w @ [sub], wk_accepted := wk_accepted w @ [sub]\<rparr>)
      else (Some (Sentinel ErrBufferFull), w))"

text \<open>The \<open>Run\<close> goroutine: its loop, \<open>processTracked\<close> and \<open>drainAndExit\<close>.\<close>

inductive run_step :: "worker \<Rightarrow> worker \<Rightarrow> bool" where
  receive: "wk_run w = Looping m \<Longrightarrow> wk_jobs w = job # js \<Longrightarrow>
    run_step w (w\<lparr>wk_jobs := js, wk_run := Job m Received job, wk_taken := wk_taken w @ [(ByRun, job)]\<rparr>)"
| track: "wk_run w = Job m Received job \<Longrightarrow>
    run_step w (w\<lparr>wk_inflight := Some (sub_PublicID job), wk_run := Job m Tracked job\<rparr>)"
| processed: "wk_run w = Job m Tracked job \<Longrightarrow>
    run_step w (w\<lparr>wk_run := Job m Processed job, wk_finished := wk_finished w @ [job]\<rparr>)"
| untrack: "wk_run w = Job m Processed job \<Longrightarrow>
    run_step w (w\<lparr>wk_inflight := None, wk_run := Looping m\<rparr>)"
| closed: "wk_run w = Looping m \<Longrightarrow> wk_jobs w = [] \<Longrightarrow> wk_stopped w \<Longrightarrow> run_step w (w\<lparr>wk_run := RunReturned\<rparr>)"
| context_done: "wk_run w = Looping Serving \<Longrightarrow> wk_cancelled w \<Longrightarrow> run_step w (w\<lparr>wk_run := Looping Draining\<rparr>)"
| drained: "wk_run w = Looping Draining \<Longrightarrow> wk_jobs w = [] \<Longrightarrow> run_step w (w\<lparr>wk_run := RunReturned\<rparr>)"

text \<open>A caller of \<open>Stop\<close>, from the locked section to its return.\<close>

inductive stop_step :: "worker \<Rightarrow> worker \<Rightarrow> bool" where
  begin_stop: "wk_stop w = NotStopping \<or> wk_stop w = StopReturned ids ok \<Longrightarrow>
    stop_step w (w\<lparr>wk_stopped := True, wk_stop := StopWaiting\<rparr>)"
| clean: "wk_stop w = StopWaiting \<Longrightarrow> wk_run w = RunReturned \<Longrightarrow> stop_step w (w\<lparr>wk_stop := StopReturned [] True\<rparr>)"
| expired: "wk_stop w = StopWaiting \<Longrightarrow> ids = (case wk_inflight w of None \<Rightarrow> [] | Some pid \<Rightarrow> [pid]) \<Longrightarrow>
    stop_step w (w\<lparr>wk_stop := StopCollecting ids, wk_reported := wk_reported w @ ids\<rparr>)"
| collect: "wk_stop w = StopCollecting ids \<Longrightarrow> wk_jobs w = job # js \<Longrightarrow>
    stop_step w (w\<lparr>wk_jobs := js, wk_stop := StopCollecting (ids @ [sub_PublicID job]),
      wk_taken := wk_taken w @ [(ByStop, job)], wk_reported := wk_reported w @ [sub_PublicID job]\<rparr>)"
| collected: "wk_stop w = StopCollecting ids \<Longrightarrow> wk_jobs w = [] \<Longrightarrow> stop_step w (w\<lparr>wk_stop := StopReturned ids False\<rparr>)"

inductive worker_step :: "worker_config \<Rightarrow> worker \<Rightarrow> worker \<Rightarrow> bool" for c where
  enqueue: "worker_step c w (snd (Enqueue c sub w))"
| run: "run_step w w' \<Longrightarrow> worker_step c w w'"
| stop: "stop_step w w' \<Longrightarrow> worker_step c w w'"
| cancel: "worker_step c w (w\<lparr>wk_cancelled := True\<rparr>)"

section \<open>Invariant\<close>

text \<open>The job \<open>Run\<close> has taken and not finished.\<close>

fun unfinished :: "run_pc \<Rightarrow> submission list" where
  "unfinished (Job m Received job) = [job]"
| "unfinished (Job m Tracked job) = [job]"
| "unfinished _ = []"

fun tracked :: "run_pc \<Rightarrow> string option" where
  "tracked (Job m Tracked job) = Some (sub_PublicID job)"
| "tracked (Job m Processed job) = Some (sub_PublicID job)"
| "tracked _ = None"

fun drains :: "run_pc \<Rightarrow> bool" where
  "drains (Looping m) = (m = Draining)"
| "drains (Job m p job) = (m = Draining)"
| "drains RunReturned = False"

definition taken_by :: "taker \<Rightarrow> worker \<Rightarrow> submission list" where
  "taken_by t w = map snd (filter (\<lambda>x. fst x = t) (wk_taken w))"

definition worker_inv :: "worker_config \<Rightarrow> worker \<Rightarrow> bool" where
  "worker_inv c w \<longleftrightarrow>
     length (wk_jobs w) \<le> nat (wc_BufferSize c) \<and>
     wk_accepted w = map snd (wk_taken w) @ wk_jobs w \<and>
     wk_finished w @ unfinished (wk_run w) = taken_by ByRun w \<and>
     wk_inflight w = tracked (wk_run w) \<and>
     (wk_stop w \<noteq> NotStopping \<longrightarrow> wk_stopped w) \<and>
     (drains (wk_run w) \<longrightarrow> wk_cancelled w) \<and>
     (wk_run w = RunReturned \<and> \<not> wk_cancelled w \<longrightarrow> wk_stopped w \<and> wk_jobs w = []) \<and>
     sub_PublicID ` set (taken_by ByStop w) \<subseteq> set (wk_reported w) \<and>
     (\<forall>ids. wk_stop w = StopReturned ids False \<longrightarrow> wk_jobs w = []) \<and>
     (\<forall>ids. wk_stop w = StopReturned ids True \<longrightarrow> wk_run w = RunReturned)"

lemma taken_by_append: "taken_by t (w\<lparr>wk_taken := xs @ [(u, job)]\<rparr>) = map snd (filter (\<lambda>x. fst x = t) xs) @ (if u = t then [job] else [])"
  by (simp add: taken_by_def)

lemma run_step_inv: "run_step w w' \<Longrightarrow> worker_inv c w \<Longrightarrow> worker_inv c w'"
  by (induction rule: run_step.induct) (auto simp: worker_inv_def taken_by_def)

lemma stop_step_inv: "stop_step w w' \<Longrightarrow> worker_inv c w \<Longrightarrow> worker_inv c w'"
  by (induction rule: stop_step.induct) (auto simp: worker_inv_def taken_by_def)

lemma Enqueue_inv: "worker_inv c w \<Longrightarrow> worker_inv c (snd (Enqueue c sub w))"
  by (auto simp: worker_inv_def Enqueue_def taken_by_def)

lemma worker_step_inv: "worker_step c w w' \<Longrightarrow> worker_inv c w \<Longrightarrow> worker_inv c w'"
proof (induction rule: worker_step.induct)
  case (cancel w)
  then show ?case by (simp add: worker_inv_def taken_by_def)
qed (auto intro: run_step_inv stop_step_inv Enqueue_inv)

lemma new_worker_inv: "worker_inv c new_worker"
  by (simp add: worker_inv_def new_worker_def taken_by_def)

interpretation worker: transition_invariant "worker_step c" "\<lambda>w. w = new_worker" "worker_inv c" for c
  by unfold_locales (auto intro: new_worker_inv worker_step_inv)

section \<open>Progress\<close>

text \<open>The actions \<open>Run\<close> still has to take once the channel is closed.\<close>

fun job_left :: "job_phase \<Rightarrow> nat" where
  "job_left Received = 3"
| "job_left Tracked = 2"
| "job_left Processed = 1"

fun run_left :: "run_pc \<Rightarrow> nat" where
  "run_left (Looping m) = (if m = Serving then 2 else 1)"
| "run_left (Job m p job) = (if m = Serving then 2 else 1) + job_left p"
| "run_left RunReturned = 0"

definition work_left :: "worker \<Rightarrow> nat" where
  "work_left w = 4 * length (wk_jobs w) + run_left (wk_run w)"

lemma run_step_decreases: "run_step w w' \<Longrightarrow> work_left w' < work_left w"
  by (induction rule: run_step.induct) (auto simp: work_left_def)

lemma stop_step_left: "stop_step w w' \<Longrightarrow> work_left w' \<le> work_left w"
  by (induction rule: stop_step.induct) (auto simp: work_left_def)

lemma worker_step_left: "worker_step c w w' \<Longrightarrow> wk_stopped w \<Longrightarrow> work_left w' \<le> work_left w"
  by (erule worker_step.cases)
    (auto dest: run_step_decreases stop_step_left simp: Enqueue_def work_left_def)

lemma run_not_stuck:
  assumes "wk_stopped w" "wk_run w \<noteq> RunReturned"
  obtains w' where "run_step w w'"
proof (cases "wk_run w")
  case (Looping m)
  then show ?thesis using assms that by (cases "wk_jobs w") (auto intro: run_step.intros)
next
  case (Job m p job)
  then show ?thesis using that by (cases p) (auto intro: run_step.intros)
qed (use assms in simp)

lemma run_step_keeps:
  "run_step w w' \<Longrightarrow> wk_stopped w' = wk_stopped w \<and> wk_accepted w' = wk_accepted w \<and> wk_cancelled w' = wk_cancelled w"
  by (induction rule: run_step.induct) auto

lemma run_to_end:
  assumes "wk_stopped w"
  shows "\<exists>w'. run_step\<^sup>*\<^sup>* w w' \<and> wk_run w' = RunReturned"
  using assms
proof (induction "work_left w" arbitrary: w rule: less_induct)
  case less
  show ?case
  proof (cases "wk_run w = RunReturned")
    case False
    with less.prems obtain w1 where s: "run_step w w1" using run_not_stuck by blast
    with less.prems have "wk_stopped w1" using run_step_keeps by blast
    from less.hyps [OF run_step_decreases [OF s] this] s show ?thesis by (meson converse_rtranclp_into_rtranclp)
  qed blast
qed

section \<open>Properties\<close>

lemma openPR_error: "openPR G c now sub w = (Inl e, w') \<Longrightarrow> \<exists>p e'. e = Wrap p e' \<and> p \<noteq> []"
  by (auto simp: openPR_def Let_def split: prod.splits sum.splits option.splits)

lemma attach_fault_free:
  assumes "db_inv J db" "\<And>stmt. ce_fault E stmt = None" "sub_abs J db pid = Some x"
    and at: "AttachPromotionResult E pid url err db = (r, db')"
  shows "db_inv J db'" "sub_abs J db' = (sub_abs J db)(pid \<mapsto> attached url err x)" "r = Inr ()"
proof -
  have "refines_at J E (OpAttach pid url err) db" by (rule refines_attach) fact
  then show "db_inv J db'" "sub_abs J db' = (sub_abs J db)(pid \<mapsto> attached url err x)" "r = Inr ()"
    using assms(2,3) at by (cases r; simp add: refines_at_def fault_free_def)+
qed


text \<open>
  C20. The job queue loses and repeats nothing, however its three parties interleave: the buffer never
  exceeds its capacity; the jobs accepted by \<open>Enqueue\<close> are, in order, those taken from the channel and
  those still in it; \<open>Run\<close> finishes the jobs it takes once each and in order, at most the one in progress
  excepted; a job taken by \<open>Stop\<close> instead is reported; and \<open>inflight\<close> names the job in progress from the
  moment it is stored.
\<close>

theorem worker_queue_invariant:
  "(worker_step c)\<^sup>*\<^sup>* new_worker w \<Longrightarrow>
     length (wk_jobs w) \<le> nat (wc_BufferSize c) \<and>
     wk_accepted w = map snd (wk_taken w) @ wk_jobs w \<and>
     wk_finished w @ unfinished (wk_run w) = taken_by ByRun w \<and>
     sub_PublicID ` set (taken_by ByStop w) \<subseteq> set (wk_reported w) \<and>
     wk_inflight w = tracked (wk_run w)"
  using worker.reachable_inv [of new_worker c w] by (simp add: worker_inv_def)

lemma taken_by_all: "set (map snd (wk_taken w)) = set (taken_by ByRun w) \<union> set (taken_by ByStop w)"
proof -
  have "set xs = set (filter (\<lambda>x. fst x = ByRun) xs) \<union> set (filter (\<lambda>x. fst x = ByStop) xs)" for xs :: "(taker \<times> submission) list"
    using taker.exhaust by auto
  then show ?thesis unfolding taken_by_def set_map by blast
qed


text \<open>
  C21. Once \<open>Stop\<close> has begun, nothing more is accepted, no step of anyone adds work, every step of \<open>Run\<close>
  removes some, and \<open>Run\<close> alone can always go on until it returns, in at most four steps per buffered
  job and five more.
\<close>

theorem worker_drains:
  assumes "(worker_step c)\<^sup>*\<^sup>* new_worker w" "wk_stopped w"
  shows "Enqueue c sub w = (Some (Sentinel (if wc_Token c = [] then ErrPromotionDisabled else ErrStopped)), w) \<and>
    (\<forall>w'. worker_step c w w' \<longrightarrow> work_left w' \<le> work_left w \<and> wk_accepted w' = wk_accepted w \<and> wk_stopped w') \<and>
    (\<forall>w'. run_step w w' \<longrightarrow> work_left w' < work_left w) \<and>
    (\<exists>w'. run_step\<^sup>*\<^sup>* w w' \<and> wk_run w' = RunReturned) \<and>
    work_left w \<le> 4 * nat (wc_BufferSize c) + 5"
proof (intro conjI)
  have inv: "worker_inv c w" using worker.reachable_inv assms(1) by blast
  show "Enqueue c sub w = (Some (Sentinel (if wc_Token c = [] then ErrPromotionDisabled else ErrStopped)), w)"
    using assms(2) by (simp add: Enqueue_def)
  have "wk_accepted w' = wk_accepted w \<and> wk_stopped w'" if "worker_step c w w'" for w'
    using that assms(2) by (cases rule: worker_step.cases)
      (auto simp: Enqueue_def dest: run_step_keeps elim!: stop_step.cases)
  then show "\<forall>w'. worker_step c w w' \<longrightarrow> work_left w' \<le> work_left w \<and> wk_accepted w' = wk_accepted w \<and> wk_stopped w'"
    using worker_step_left assms(2) by blast
  show "\<forall>w'. run_step w w' \<longrightarrow> work_left w' < work_left w" using run_step_decreases by blast
  show "\<exists>w'. run_step\<^sup>*\<^sup>* w w' \<and> wk_run w' = RunReturned" by (rule run_to_end) (rule assms(2))
  have "run_left (wk_run w) \<le> 5"
  proof (cases "wk_run w")
    case (Job m p job)
    then show ?thesis by (cases p) simp_all
  qed simp_all
  moreover have "length (wk_jobs w) \<le> nat (wc_BufferSize c)" using inv by (simp add: worker_inv_def)
  ultimately show "work_left w \<le> 4 * nat (wc_BufferSize c) + 5" unfolding work_left_def by linarith
qed

lemma Get_fault_free:
  assumes "db_inv J db" "\<And>stmt. ce_fault E stmt = None"
  shows "Get J E pid db = (case sub_abs J db pid of None \<Rightarrow> Inl (Sentinel ErrSubmissionNotFound) | Some x \<Rightarrow> Inr x)"
proof -
  have "refines_at J E (OpGet pid) db" by (rule refines_get) fact
  moreover have "fault_free J E (OpGet pid) m" for m using assms(2) by (simp add: fault_free_def)
  ultimately have eq: "map_sum id Some (Get J E pid db) =
      (case sub_abs J db pid of None \<Rightarrow> Inl (Sentinel ErrSubmissionNotFound) | Some x \<Rightarrow> Inr (Some x))"
    unfolding refines_at_def sqlite_exec.simps spec_exec.simps Let_def prod.case by blast
  then show ?thesis by (cases "Get J E pid db"; cases "sub_abs J db pid") simp_all
qed

text \<open>
  The operator's \<open>submissions retry-pr\<close> touches nothing unless the submission is there and approved:
  otherwise it fails without a request to GitHub and without a write. For an approved one it does what
  the worker does.
\<close>

theorem runRetryPR_spec:
  "db_inv J db \<Longrightarrow> (\<And>stmt. ce_fault E stmt = None) \<Longrightarrow> token \<noteq> [] \<Longrightarrow>
     (if \<exists>sub. sub_abs J db pid = Some sub \<and> sub_Status sub = SubmissionApproved
      then snd (runRetryPR G J E T token pid (w, db)) =
        process G (New \<lparr>wc_Token = token, wc_Owner = [], wc_Repo = [], wc_BaseBranch = [], wc_SeedFilePath = [], wc_BufferSize = 0\<rparr>)
          T (Some (AttachPromotionResult E)) (ce_now E) (the (sub_abs J db pid)) (w, db)
      else \<exists>e. runRetryPR G J E T token pid (w, db) = (Inl e, (w, db)))"
proof -
  assume inv: "db_inv J db" and E: "\<And>stmt. ce_fault E stmt = None" and token: "token \<noteq> []"
  note get = Get_fault_free [OF inv E]
  show ?thesis
  proof (cases "\<exists>x. sub_abs J db pid = Some x \<and> sub_Status x = SubmissionApproved")
    case True
    then obtain x where x: "sub_abs J db pid = Some x" "sub_Status x = SubmissionApproved" by blast
    let ?c = "New \<lparr>wc_Token = token, wc_Owner = [], wc_Repo = [], wc_BaseBranch = [], wc_SeedFilePath = [], wc_BufferSize = 0\<rparr>"
    obtain r w' where run: "openPR G ?c (ce_now E) x w = (r, w')" by fastforce
    have now: "ProcessNow G ?c (ce_now E) x w = (r, w')" using token run by (simp add: ProcessNow_def New_def)
    have "snd (runRetryPR G J E T token pid (w, db)) = process G ?c T (Some (AttachPromotionResult E)) (ce_now E) x (w, db)"
      using token get x unfolding runRetryPR_def process_def Let_def fst_conv snd_conv run
      by (cases r) (simp_all add: now split: prod.split)
    with x show ?thesis by simp
  next
    case False
    with token get show ?thesis by (cases "sub_abs J db pid") (simp_all add: runRetryPR_def)
  qed
qed

section \<open>Witnesses\<close>

text \<open>A GitHub that accepts everything, over an empty seed file.\<close>

definition demo_github :: "unit github" where
  "demo_github =
     \<lparr>gh_do = (\<lambda>rq w. (Inr \<lparr>rs_status = (if rq_method rq = ''POST'' then 201 else 200), rs_header = (\<lambda>_. []),
         rs_body = [], rs_readErr = None\<rparr>, w)),
      gh_sleep = (\<lambda>_ w. (None, w)), gh_urlErr = (\<lambda>_. None), gh_refSHA = (\<lambda>_. Inr ''c0''),
      gh_contents = (\<lambda>_. Inr ([], ''base64'', ''b0'')), gh_htmlURL = (\<lambda>_. Inr ''pr/1''),
      gh_prURLs = (\<lambda>_. Inr []), gh_toml = (\<lambda>es. Inr (concat (map ot_Slug es))),
      gh_unicode = \<lparr>uc_lower = (\<lambda>r. r), uc_upper = (\<lambda>r. r), uc_print = (\<lambda>r. True), uc_fold = (\<lambda>a b. False)\<rparr>\<rparr>"

definition demo_worker_config :: worker_config where
  "demo_worker_config = New \<lparr>wc_Token = ''t'', wc_Owner = [], wc_Repo = [], wc_BaseBranch = [], wc_SeedFilePath = [], wc_BufferSize = 0\<rparr>"

lemma demo_request:
  "doRequest demo_github m p b w =
     (Inr \<lparr>rs_status = (if m = ''POST'' then 201 else 200), rs_header = (\<lambda>_. []), rs_body = [], rs_readErr = None\<rparr>, w)"
  by (simp add: doRequest_def demo_github_def)

lemma demo_get: "doIdempotentRequest demo_github ''GET'' p w =
     (Inr \<lparr>rs_status = 200, rs_header = (\<lambda>_. []), rs_body = [], rs_readErr = None\<rparr>, w)"
  by (simp add: doIdempotentRequest_def retryMaxAttempts_def attempt_loop.simps [of _ _ _ "Suc _"] demo_request
      classify_response_def retryableStatus_def numeral_3_eq_3)

lemma demo_walk_slug: "DeriveSlug (gh_unicode demo_github) ''Walk'' = ''walk''"
  by (simp add: demo_github_def) code_simp

lemma demo_run: "fst (openPR demo_github demo_worker_config 0 (created ''a'' 0 demo_new) ()) = Inr ''pr/1''"
proof -
  let ?s = "created ''a'' 0 demo_new"
  have name: "sp_Name (sub_Payload ?s) = ''Walk''" by (simp add: created_def demo_new_def demo_payload_def)
  have sha: "getBranchSHA demo_github c b () = (Inr ''c0'', ())" for c b
    unfolding getBranchSHA_def demo_get by (simp add: expectStatus_def demo_github_def)
  have seed: "getFile demo_github c f b () = (Inr \<lparr>fc_Content = [], fc_SHA = ''b0''\<rparr>, ())" for c f b
    unfolding getFile_def demo_get by (simp add: expectStatus_def demo_github_def remove_byte_def StdDecode_def drop_newlines_def)
  have branch: "createBranch demo_github c b x () = (None, ())" for c b x
    unfolding createBranch_def demo_request by simp
  have put: "putFile demo_github c f b x y m () = (None, ())" for c f b x y m
    unfolding putFile_def demo_request by simp
  have pr: "createPR demo_github c t x h b () = (Inr ''pr/1'', ())" for c t x h b
    unfolding createPR_def demo_request by (simp add: expectStatus_def demo_github_def)
  have block: "\<exists>block. RenderOrgBlock (gh_toml demo_github) ?s (DeriveSlug (gh_unicode demo_github) (sp_Name (sub_Payload ?s))) t = Inr block" for t
    unfolding name demo_walk_slug by (simp add: RenderOrgBlock_def demo_github_def Let_def)
  then obtain f where
    f: "RenderOrgBlock (gh_toml demo_github) ?s (DeriveSlug (gh_unicode demo_github) (sp_Name (sub_Payload ?s))) t = Inr (f t)" for t
    by metis
  show ?thesis
    unfolding openPR_def sha seed prod.case sum.case Let_def f branch put pr option.case fst_conv ..
qed

definition demo_db :: sub_db where
  "demo_db = snd (sqlite_exec demo_codec (demo_env 0 ''a'') (OpCreate demo_new) empty_db)"

lemma demo_db: "db_inv demo_codec demo_db"
  "sub_abs demo_codec demo_db = (sub_abs demo_codec empty_db)(''a'' \<mapsto> created ''a'' 0 demo_new)"
proof -
  have ok: "env_ok demo_codec (demo_env 0 ''a'') (OpCreate demo_new)"
    by (rule demo_env_ok) (simp_all add: demo_four_digit)
  note at = sqlite_refines_at [OF empty_db_inv ok]
  obtain r db' where ex: "sqlite_exec demo_codec (demo_env 0 ''a'') (OpCreate demo_new) empty_db = (r, db')"
    by (metis prod.exhaust)
  then have db: "demo_db = db'" unfolding demo_db_def by simp
  have spec: "spec_exec (ce_now (demo_env 0 ''a'')) (spec_id (demo_env 0 ''a'')) (OpCreate demo_new) (sub_abs demo_codec empty_db) =
      (Inr (Some (created ''a'' 0 demo_new)), (sub_abs demo_codec empty_db)(''a'' \<mapsto> created ''a'' 0 demo_new))"
    by (simp add: spec_id_def demo_env_def sub_abs_def empty_db_def)
  from at [unfolded refines_at_def Let_def ex spec prod.case] demo_fault_free
  show "db_inv demo_codec demo_db"
    "sub_abs demo_codec demo_db = (sub_abs demo_codec empty_db)(''a'' \<mapsto> created ''a'' 0 demo_new)"
    unfolding db by blast+
qed

lemma demo_env_faults: "ce_fault (demo_env now pid) stmt = None"
  by (simp add: demo_env_def)

lemma created_id: "sub_PublicID (created pid now inp) = pid"
  by (simp add: created_def)


theorem runRetryPR_spec_witness:
  "runRetryPR demo_github demo_codec (demo_env 0 ''a'') (\<lambda>_. []) ''t'' ''a'' ((), demo_db) \<in> range (\<lambda>e. (Inl e, ((), demo_db)))"
proof -
  have "sub_abs demo_codec demo_db ''a'' = Some (created ''a'' 0 demo_new)" unfolding demo_db(2) by simp
  then have no: "\<not> (\<exists>sub. sub_abs demo_codec demo_db ''a'' = Some sub \<and> sub_Status sub = SubmissionApproved)"
    by (simp add: created_def status_defs)
  show ?thesis
    using runRetryPR_spec [OF demo_db(1) demo_env_faults [of 0 "''a''"], of "''t''" "''a''" demo_github "\<lambda>_. []" "()"]
    unfolding if_not_P [OF no] by (auto simp: image_iff)
qed

text \<open>One job, accepted and then finished under a \<open>Stop\<close> that waits for it.\<close>

definition demo_job :: submission where
  "demo_job = created ''a'' 0 demo_new"

definition demo_enqueued :: worker where
  "demo_enqueued = snd (Enqueue demo_worker_config demo_job new_worker)"

definition demo_stopping :: worker where
  "demo_stopping = demo_enqueued\<lparr>wk_stopped := True, wk_stop := StopWaiting\<rparr>"

definition demo_stopped :: worker where
  "demo_stopped = demo_stopping\<lparr>wk_jobs := [], wk_run := RunReturned, wk_taken := [(ByRun, demo_job)],
     wk_finished := [demo_job], wk_stop := StopReturned [] True\<rparr>"

lemmas demo_worker_defs = demo_stopped_def demo_stopping_def demo_enqueued_def new_worker_def Enqueue_def
  demo_worker_config_def New_def

lemma demo_stopping_reachable: "(worker_step demo_worker_config)\<^sup>*\<^sup>* new_worker demo_stopping"
proof -
  have "worker_step demo_worker_config new_worker demo_enqueued" unfolding demo_enqueued_def by (rule worker_step.enqueue)
  moreover have "worker_step demo_worker_config demo_enqueued demo_stopping"
    unfolding demo_stopping_def by (intro worker_step.stop stop_step.begin_stop) (simp add: demo_worker_defs)
  ultimately show ?thesis by (meson rtranclp.simps)
qed

lemma demo_stopped_reachable: "(worker_step demo_worker_config)\<^sup>*\<^sup>* new_worker demo_stopped"
proof -
  let ?taken = "demo_stopping\<lparr>wk_jobs := [], wk_run := Job Serving Received demo_job, wk_taken := wk_taken demo_stopping @ [(ByRun, demo_job)]\<rparr>"
  let ?tracked = "?taken\<lparr>wk_inflight := Some (sub_PublicID demo_job), wk_run := Job Serving Tracked demo_job\<rparr>"
  let ?proc = "?tracked\<lparr>wk_run := Job Serving Processed demo_job, wk_finished := wk_finished ?tracked @ [demo_job]\<rparr>"
  let ?idle = "?proc\<lparr>wk_inflight := None, wk_run := Looping Serving\<rparr>"
  let ?fin = "?idle\<lparr>wk_run := RunReturned\<rparr>"
  have "run_step demo_stopping ?taken" by (rule run_step.receive) (simp_all add: demo_worker_defs)
  moreover have "run_step ?taken ?tracked" by (rule run_step.track) simp
  moreover have "run_step ?tracked ?proc" by (rule run_step.processed) simp
  moreover have "run_step ?proc ?idle" by (rule run_step.untrack) simp
  moreover have "run_step ?idle ?fin" by (rule run_step.closed) (simp_all add: demo_worker_defs)
  moreover have "stop_step ?fin (?fin\<lparr>wk_stop := StopReturned [] True\<rparr>)" by (rule stop_step.clean) (simp_all add: demo_worker_defs)
  moreover have "?fin\<lparr>wk_stop := StopReturned [] True\<rparr> = demo_stopped" by (simp add: demo_worker_defs)
  ultimately show ?thesis
    using demo_stopping_reachable by (metis (no_types, lifting) rtranclp.rtrancl_into_rtrancl worker_step.run worker_step.stop)
qed

theorem worker_queue_invariant_witness: "wk_accepted demo_stopped = map snd (wk_taken demo_stopped) @ wk_jobs demo_stopped"
  using worker_queue_invariant [OF demo_stopped_reachable] by blast


theorem worker_drains_witness: "\<exists>w'. run_step\<^sup>*\<^sup>* demo_stopping w' \<and> wk_run w' = RunReturned"
  using worker_drains [OF demo_stopping_reachable] by (simp add: demo_stopping_def)

end
