(* ===== verification/Http_Submissions.thy ===== *)
theory Http_Submissions
  imports Http_Reads Promotion_Worker
begin

text \<open>
  The handlers of submissions.go, usage.go and coverage.go in \<open>api/internal/httpapi\<close>: creating, listing,
  approving and rejecting submissions, and the two admin reads.

  Parameters: the JSON decoder of a request body under its size limit (\<open>json_bodies\<close>), \<open>uuid.Parse\<close>, and
  those of the store and of validation. A handler runs as one step; its calls of the store and the
  worker are in the order of the code.
\<close>

section \<open>Request bodies\<close>

datatype 'a decoded = DecEmpty | DecTooLarge | DecInvalid | Decoded 'a bool

record json_bodies =
  jb_NewSubmission :: "string \<Rightarrow> oapi_new_submission decoded"
  jb_Reject :: "string \<Rightarrow> string decoded"
  jb_uuid :: uuid_parser

text \<open>\<open>Decoded v extra\<close> is a value followed by further content when \<open>extra\<close> holds.\<close>

definition decodeOneJSONObject :: "'a decoded \<Rightarrow> string \<Rightarrow> (string \<times> string) + 'a" where
  "decodeOneJSONObject d typeName =
     (case d of
        DecEmpty \<Rightarrow> Inl (''Empty Request Body'', ''The request body is empty; expected a '' @ typeName @ '' JSON object.'')
      | DecTooLarge \<Rightarrow> Inl (''Request Body Too Large'',
          ''The request body exceeds the maximum size of '' @ itoa (int submissionBodyLimit) @ '' bytes.'')
      | DecInvalid \<Rightarrow> Inl (''Invalid Request Body'', ''The request body is not valid JSON for '' @ typeName @ ''.'')
      | Decoded v extra \<Rightarrow>
          if extra then Inl (''Invalid Request Body'', ''The request body must contain exactly one '' @ typeName @ '' JSON object.'')
          else Inr v)"

text \<open>\<open>errors.As\<close> for the validation error.\<close>

fun as_field_errors :: "go_error \<Rightarrow> (string, string) gomap option" where
  "as_field_errors (FieldErrors fs) = Some fs"
| "as_field_errors (Wrap p e) = as_field_errors e"
| "as_field_errors (WrapBoth e p e') = (case as_field_errors e of Some fs \<Rightarrow> Some fs | None \<Rightarrow> as_field_errors e')"
| "as_field_errors _ = None"

section \<open>Creating a submission\<close>

definition writeCreateSubmissionErr :: "headers \<Rightarrow> http_request \<Rightarrow> go_error \<Rightarrow> string \<Rightarrow> http_response \<times> effect list" where
  "writeCreateSubmissionErr h r err rid =
     (case as_field_errors err of
        None \<Rightarrow> (writeInternalProblem h r rid, [IncSubmissions ''error''])
      | Some fs \<Rightarrow>
          (writeProblemWithErrors h r 400 problemValidation ''Submission Validation Failed''
             ''One or more fields in the submission failed validation. See the errors map for per-field messages.'' rid fs,
           IncSubmissions ''rejected_validation'' # map (\<lambda>f. IncValidationFailure (fst f)) fs))"

definition createSubmissionHandler :: "go_unicode \<Rightarrow> url_parser \<Rightarrow> json_bodies \<Rightarrow> payload_codec \<Rightarrow> call_env \<Rightarrow> store_ops \<Rightarrow>
    string \<Rightarrow> headers \<Rightarrow> http_request \<Rightarrow> sub_db \<Rightarrow> (http_response \<times> effect list) \<times> sub_db" where
  "createSubmissionHandler U P B J E st rid h r db =
     (case decodeOneJSONObject (jb_NewSubmission B (hq_body r)) ''NewSubmissionRequest'' of
        Inl (title, detail) \<Rightarrow>
          ((writeProblem h r 400 problemValidation title detail rid, [IncSubmissions ''rejected_validation'']), db)
      | Inr body \<Rightarrow>
         (case CreateSubmission U P (Some (so_ResolveRegionBySlug st)) (Create J E) (fromOAPINewSubmission body) db of
            (Inl err, db') \<Rightarrow> (writeCreateSubmissionErr h r err rid, db')
          | (Inr sub, db') \<Rightarrow> ((writeJSON h 201 (SubmissionBody (toOAPISubmission (jb_uuid B) sub)), [IncSubmissions ''created'']), db')))"

section \<open>The moderators' handlers\<close>

definition listSubmissionsHandler :: "json_bodies \<Rightarrow> payload_codec \<Rightarrow> call_env \<Rightarrow> string \<Rightarrow> headers \<Rightarrow> http_request \<Rightarrow> sub_db \<Rightarrow>
    http_response \<times> effect list" where
  "listSubmissionsHandler B J E rid h r db =
     (let raw = trim_space (hq_query r ''status'') in
      if raw \<noteq> [] \<and> raw \<notin> {SubmissionPending, SubmissionApproved, SubmissionRejected} then
        (writeProblem h r 400 problemValidation ''Invalid Status Filter''
           ''The status query parameter must be one of pending, approved, or rejected.'' rid, [])
      else case parseLimitParam h r maxAdminListLimit rid of
        Inl resp \<Rightarrow> (resp, [])
      | Inr limit \<Rightarrow>
         (case ListPage J E \<lparr>lsq_Status = (if raw = [] then SubmissionPending else raw), lsq_Limit = limit,
                 lsq_Cursor = trim_space (hq_query r ''cursor'')\<rparr> db of
            Inl err \<Rightarrow>
              if errors_is err ErrInvalidCursor then
                (writeProblem h r 400 problemValidation ''Invalid Cursor''
                   ''The cursor query parameter is malformed; pass the value of the previous response's X-Next-Cursor header.'' rid, [])
              else (writeInternalProblem h r rid, [])
          | Inr page \<Rightarrow>
              (let h' = (if lsp_NextCursor page \<noteq> [] then hset ''X-Next-Cursor'' (lsp_NextCursor page) h else h)
               in (writeJSON h' 200 (SubmissionsBody (map (toOAPISubmission (jb_uuid B)) (lsp_Items page))), []))))"

definition readSubmissionID :: "json_bodies \<Rightarrow> headers \<Rightarrow> http_request \<Rightarrow> string \<Rightarrow> string \<Rightarrow> http_response + string" where
  "readSubmissionID B h r idParam rid =
     (let raw = trim_space idParam in
      if jb_uuid B raw = None
      then Inl (writeProblem h r 400 problemValidation ''Invalid Submission ID''
        ''The submission id path parameter is not a valid UUID.'' rid)
      else Inr raw)"

definition adminOutcome :: "go_error option \<Rightarrow> string" where
  "adminOutcome err =
     (case err of
        None \<Rightarrow> ''ok''
      | Some e \<Rightarrow> if errors_is e ErrSubmissionNotFound then ''not_found''
                  else if errors_is e ErrSubmissionNotPending then ''conflict'' else ''error'')"

definition writeSubmissionStateErr :: "headers \<Rightarrow> http_request \<Rightarrow> go_error \<Rightarrow> string \<Rightarrow> http_response" where
  "writeSubmissionStateErr h r err rid =
     (if errors_is err ErrSubmissionNotFound then
        writeProblem h r 404 problemNotFound ''Submission Not Found'' ''No submission matches that id.'' rid
      else if errors_is err ErrSubmissionNotPending then
        writeProblem h r 409 problemConflict ''Submission Already Processed''
          ''This submission has already been approved or rejected and cannot transition again.'' rid
      else writeInternalProblem h r rid)"

text \<open>The worker of the server, with its configuration; \<open>None\<close> is a nil \<open>PromotionEnqueuer\<close>.\<close>

type_synonym enqueuer = "(worker_config \<times> worker) option"

definition enqueueOrDisabled :: "enqueuer \<Rightarrow> submission \<Rightarrow> go_error option \<times> enqueuer" where
  "enqueueOrDisabled enq sub =
     (case enq of
        None \<Rightarrow> (Some (Sentinel ErrPromotionDisabled), None)
      | Some (c, w) \<Rightarrow> (let (e, w') = Enqueue c sub w in (e, Some (c, w'))))"

definition enqueuePromotion :: "(go_error \<Rightarrow> string) \<Rightarrow> payload_codec \<Rightarrow> call_env \<Rightarrow> enqueuer \<Rightarrow> submission \<Rightarrow> sub_db \<Rightarrow>
    submission \<times> enqueuer \<times> sub_db" where
  "enqueuePromotion T J E enq sub db =
     (case enqueueOrDisabled enq sub of
        (None, enq') \<Rightarrow> (sub, enq', db)
      | (Some enqErr, enq') \<Rightarrow>
         (let (_, db1) = AttachPromotionResult E (sub_PublicID sub) [] (error_text T enqErr) db
          in (case Get J E (sub_PublicID sub) db1 of Inr reread \<Rightarrow> reread | Inl _ \<Rightarrow> sub, enq', db1)))"

definition approveSubmissionHandler :: "(go_error \<Rightarrow> string) \<Rightarrow> json_bodies \<Rightarrow> payload_codec \<Rightarrow> call_env \<Rightarrow> string \<Rightarrow> string \<Rightarrow>
    headers \<Rightarrow> http_request \<Rightarrow> enqueuer \<Rightarrow> sub_db \<Rightarrow> (http_response \<times> effect list) \<times> enqueuer \<times> sub_db" where
  "approveSubmissionHandler T B J E idParam rid h r enq db =
     (case readSubmissionID B h r idParam rid of
        Inl resp \<Rightarrow> ((resp, []), enq, db)
      | Inr publicID \<Rightarrow>
         (case Approve J E publicID db of
            (Inl err, db') \<Rightarrow>
              ((writeSubmissionStateErr h r err rid, [IncAdminAction ''approve'' (adminOutcome (Some err))]), enq, db')
          | (Inr sub, db') \<Rightarrow>
              (let (sub', enq', db2) = enqueuePromotion T J E enq sub db'
               in ((writeJSON h 200 (SubmissionBody (toOAPISubmission (jb_uuid B) sub')), [IncAdminAction ''approve'' ''ok'']), enq', db2))))"

definition rejectSubmissionHandler :: "json_bodies \<Rightarrow> payload_codec \<Rightarrow> call_env \<Rightarrow> string \<Rightarrow> string \<Rightarrow> headers \<Rightarrow> http_request \<Rightarrow>
    sub_db \<Rightarrow> (http_response \<times> effect list) \<times> sub_db" where
  "rejectSubmissionHandler B J E idParam rid h r db =
     (case readSubmissionID B h r idParam rid of
        Inl resp \<Rightarrow> ((resp, []), db)
      | Inr publicID \<Rightarrow>
         (case decodeOneJSONObject (jb_Reject B (hq_body r)) ''RejectSubmissionRequest'' of
            Inl (title, detail) \<Rightarrow> ((writeProblem h r 400 problemValidation title detail rid, []), db)
          | Inr raw \<Rightarrow>
             (let reason = trim_space raw in
              if reason = [] then
                ((writeProblemWithErrors h r 400 problemValidation ''Submission Validation Failed''
                    ''A rejection reason is required.'' rid [(''reason'', ''A rejection reason is required.'')], []), db)
              else
                (case Reject J E publicID reason db of
                   (Inl err, db') \<Rightarrow>
                     ((writeSubmissionStateErr h r err rid, [IncAdminAction ''reject'' (adminOutcome (Some err))]), db')
                 | (Inr sub, db') \<Rightarrow> ((writeJSON h 200 (SubmissionBody (toOAPISubmission (jb_uuid B) sub)), [IncAdminAction ''reject'' ''ok'']), db')))))"

section \<open>The admin reads\<close>

definition parseDayParam :: "headers \<Rightarrow> http_request \<Rightarrow> string \<Rightarrow> string \<Rightarrow> string \<Rightarrow> http_response + string" where
  "parseDayParam h r raw name rid =
     (if raw = [] then
        Inl (writeProblem h r 400 problemValidation ''Missing Parameter''
          (''The '' @ name @ '' query parameter is required (format: YYYY-MM-DD).'') rid)
      else if parse_day raw = None then
        Inl (writeProblem h r 400 problemValidation ''Invalid Parameter''
          (''The '' @ name @ '' query parameter must be a date in YYYY-MM-DD form.'') rid)
      else Inr raw)"

definition parseUsageKindParam :: "headers \<Rightarrow> http_request \<Rightarrow> string \<Rightarrow> string \<Rightarrow> http_response + string" where
  "parseUsageKindParam h r raw rid =
     (let kind = trim_space raw in
      if kind = [] then Inr []
      else if kind \<notin> set usage_kinds then
        Inl (writeProblem h r 400 problemValidation ''Invalid Parameter''
          (''The kind query parameter must be one of: '' @ join usage_kinds '', '' @ ''.'') rid)
      else Inr kind)"

definition parseUsageGroupByParam :: "headers \<Rightarrow> http_request \<Rightarrow> string \<Rightarrow> string \<Rightarrow> http_response + string" where
  "parseUsageGroupByParam h r raw rid =
     (let g = trim_space raw in
      if g = [] then Inr ''key''
      else if g \<notin> {''key'', ''day''} then
        Inl (writeProblem h r 400 problemValidation ''Invalid Parameter''
          ''The group_by query parameter must be one of: key, day.'' rid)
      else Inr g)"

text \<open>A row whose day cannot be parsed is skipped.\<close>

definition listUsageHandler :: "call_env \<Rightarrow> string \<Rightarrow> headers \<Rightarrow> http_request \<Rightarrow> usage_table \<Rightarrow> http_response \<times> effect list" where
  "listUsageHandler E rid h r t =
     (case parseDayParam h r (hq_query r ''from'') ''from'' rid of Inl resp \<Rightarrow> (resp, []) | Inr from_day \<Rightarrow>
     (case parseDayParam h r (hq_query r ''to'') ''to'' rid of Inl resp \<Rightarrow> (resp, []) | Inr to_day \<Rightarrow>
      if from_day > to_day then
        (writeProblem h r 400 problemValidation ''Invalid Range'' ''The from query parameter must not be later than to.'' rid, [])
      else
     (case parseUsageKindParam h r (hq_query r ''kind'') rid of Inl resp \<Rightarrow> (resp, []) | Inr kind \<Rightarrow>
     (case parseUsageGroupByParam h r (hq_query r ''group_by'') rid of Inl resp \<Rightarrow> (resp, []) | Inr groupBy \<Rightarrow>
     (case parseLimitParam h r MaxUsageLimit rid of Inl resp \<Rightarrow> (resp, []) | Inr limit \<Rightarrow>
     (case ListUsage E \<lparr>uq_From = from_day, uq_To = to_day, uq_Kind = kind, uq_GroupBy = groupBy, uq_Limit = limit\<rparr> t of
        Inl err \<Rightarrow> (writeInternalProblem h r rid, [])
      | Inr rows \<Rightarrow> (writeJSON h 200 (UsageBody (collect toOAPIUsageCount rows)), [])))))))"

definition listCoverageGapsHandler :: "payload_codec \<Rightarrow> call_env \<Rightarrow> string \<Rightarrow> headers \<Rightarrow> http_request \<Rightarrow> gap_db \<Rightarrow>
    http_response \<times> effect list" where
  "listCoverageGapsHandler J E rid h r db =
     (case parseLimitParam h r maxAdminListLimit rid of Inl resp \<Rightarrow> (resp, []) | Inr limit \<Rightarrow>
     (case ListCoverageGaps J E limit db of
        Inl err \<Rightarrow> (writeInternalProblem h r rid, [])
      | Inr gaps \<Rightarrow> (writeJSON h 200 (GapsBody (map toOAPICoverageGap gaps)), [])))"

section \<open>Responses are well formed\<close>

lemma good_days: "parseDayParam h r raw name rid = Inl resp \<Longrightarrow> good_response r rid h resp"
  by (auto simp: parseDayParam_def split: if_splits)

lemma good_usage_params:
  "parseUsageKindParam h r raw rid = Inl resp \<Longrightarrow> good_response r rid h resp"
  "parseUsageGroupByParam h r raw rid = Inl resp \<Longrightarrow> good_response r rid h resp"
  by (auto simp: parseUsageKindParam_def parseUsageGroupByParam_def Let_def split: if_splits)

lemma good_id: "readSubmissionID B h r idParam rid = Inl resp \<Longrightarrow> good_response r rid h resp"
  by (auto simp: readSubmissionID_def Let_def split: if_splits)

lemma good_state_err [simp]: "good_response r rid h (writeSubmissionStateErr h r err rid)"
  by (simp add: writeSubmissionStateErr_def)

lemma good_create_err [simp]: "good_response r rid h (fst (writeCreateSubmissionErr h r err rid))"
  by (simp add: writeCreateSubmissionErr_def split: option.split)

lemma good_next_cursor [simp]:
  "good_response r rid h (writeJSON (hset ''X-Next-Cursor'' v h) 200 (SubmissionsBody xs))"
  by (auto simp: good_response_def keeps_headers_def writeJSON_def response_ok_def)

lemma good_submissions:
  "good_response r rid h (fst (fst (createSubmissionHandler U P B J E st rid h r db)))"
  "good_response r rid h (fst (listSubmissionsHandler B J E rid h r db))"
  "good_response r rid h (fst (fst (approveSubmissionHandler T B J E idParam rid h r enq db)))"
  "good_response r rid h (fst (fst (rejectSubmissionHandler B J E idParam rid h r db)))"
proof -
  show "good_response r rid h (fst (fst (createSubmissionHandler U P B J E st rid h r db)))"
    by (simp add: createSubmissionHandler_def split: sum.split prod.split)
  show "good_response r rid h (fst (listSubmissionsHandler B J E rid h r db))"
    unfolding listSubmissionsHandler_def Let_def if_distrib [of fst] sum.case_distrib [of fst] fst_conv
    by (auto simp: good_limit simp del: insert_iff split: sum.split)
  show "good_response r rid h (fst (fst (approveSubmissionHandler T B J E idParam rid h r enq db)))"
    by (simp add: approveSubmissionHandler_def Let_def good_id split: sum.split prod.split)
  show "good_response r rid h (fst (fst (rejectSubmissionHandler B J E idParam rid h r db)))"
    by (simp add: rejectSubmissionHandler_def Let_def good_id split: sum.split prod.split)
qed

lemma good_admin_reads:
  "good_response r rid h (fst (listUsageHandler E rid h r t))"
  "good_response r rid h (fst (listCoverageGapsHandler J E rid h r gdb))"
proof -
  show "good_response r rid h (fst (listUsageHandler E rid h r t))"
    by (simp add: listUsageHandler_def good_days good_usage_params good_limit split: sum.split)
  show "good_response r rid h (fst (listCoverageGapsHandler J E rid h r gdb))"
    by (simp add: listCoverageGapsHandler_def good_limit split: sum.split)
qed

section \<open>Creating\<close>

text \<open>The input that a request submits: its body decodes, and its fields pass validation.\<close>

definition submitted_input :: "go_unicode \<Rightarrow> url_parser \<Rightarrow> json_bodies \<Rightarrow> store_ops \<Rightarrow> http_request \<Rightarrow> new_submission_input option" where
  "submitted_input U P B st r =
     (case decodeOneJSONObject (jb_NewSubmission B (hq_body r)) ''NewSubmissionRequest'' of
        Inl _ \<Rightarrow> None
      | Inr body \<Rightarrow>
         (case ValidateSubmission U P (Some (so_ResolveRegionBySlug st)) (fromOAPINewSubmission body) of
            Inl _ \<Rightarrow> None
          | Inr inp \<Rightarrow> Some inp))"

lemma Create_outcome:
  assumes inv: "db_inv J db" and ok: "env_ok J E (OpCreate inp)" and ex: "Create J E inp db = (res, db')"
  shows "case res of
      Inl e \<Rightarrow> db' = db \<and> \<not> fault_free J E (OpCreate inp) (sub_abs J db)
    | Inr x \<Rightarrow> \<exists>pid. ce_newid E = Inr pid \<and> sub_abs J db pid = None \<and> x = created pid (ce_now E) inp \<and>
        sub_abs J db' = (sub_abs J db)(pid \<mapsto> x) \<and> db_inv J db'"
proof -
  have at: "refines_at J E (OpCreate inp) db" by (rule refines_create) fact+
  show ?thesis
  proof (cases res)
    case (Inr x)
    have "ce_newid E \<noteq> Inl e" for e
      using ex Inr by (auto simp: Create_def split: sum.splits)
    then obtain pid where pid: "ce_newid E = Inr pid" by (cases "ce_newid E") auto
    with at ex Inr show ?thesis
      by (auto simp: refines_at_def Let_def spec_id_def split: if_splits)
  next
    case (Inl e)
    have eff: "ce_newid E = Inr pid \<Longrightarrow> js_marshal J (ni_Payload inp) = Inr j \<Longrightarrow>
        pid \<notin> row_PublicID ` set (db_rows db) \<Longrightarrow> ce_fault E ''CreateSubmission'' = None \<Longrightarrow> False" for pid j
      using ex Inl ok by (auto simp: Create_def q_CreateSubmission_def with_fault_def Let_def rowToSubmission_def
          env_ok_def parseSQLiteTime_fmt)
    have same: "db' = db"
    proof (cases "ce_newid E")
      case (Inl e1)
      then show ?thesis using ex by (auto simp: Create_def split: sum.splits)
    next
      case (Inr pid)
      then show ?thesis
        using ex eff by (cases "js_marshal J (ni_Payload inp)"; cases "ce_fault E ''CreateSubmission''")
          (auto simp: Create_def q_CreateSubmission_def with_fault_def Let_def split: if_splits)
    qed
    moreover have "\<not> fault_free J E (OpCreate inp) (sub_abs J db)"
    proof
      assume ff: "fault_free J E (OpCreate inp) (sub_abs J db)"
      then obtain pid where "ce_newid E = Inr pid" "sub_abs J db pid = None" by (auto simp: fault_free_def)
      with at ff ex Inl show False by (auto simp: refines_at_def Let_def spec_id_def)
    qed
    ultimately show ?thesis using Inl by simp
  qed
qed

lemma create_outcomes:
  assumes "db_inv J db" "\<And>inp. submitted_input U P B st r = Some inp \<Longrightarrow> env_ok J E (OpCreate inp)"
    and "createSubmissionHandler U P B J E st rid h r db = ((resp, fx), db')"
  shows "case submitted_input U P B st r of
      None \<Rightarrow> hs_status resp = 400 \<and> db' = db
    | Some inp \<Rightarrow>
        (if hs_status resp = 201
         then \<exists>pid. ce_newid E = Inr pid \<and> sub_abs J db pid = None \<and> sub_abs J db' = (sub_abs J db)(pid \<mapsto> created pid (ce_now E) inp) \<and>
           hs_body resp = SubmissionBody (toOAPISubmission (jb_uuid B) (created pid (ce_now E) inp))
         else 400 \<le> hs_status resp \<and> db' = db \<and> \<not> fault_free J E (OpCreate inp) (sub_abs J db))"
proof (cases "decodeOneJSONObject (jb_NewSubmission B (hq_body r)) ''NewSubmissionRequest''")
  case (Inl e)
  then show ?thesis using assms(3) by (cases e) (auto simp: createSubmissionHandler_def submitted_input_def)
next
  case (Inr body)
  note dec = this
  let ?v = "ValidateSubmission U P (Some (so_ResolveRegionBySlug st)) (fromOAPINewSubmission body)"
  show ?thesis
  proof (cases ?v)
    case (Inl e)
    obtain errs where "e = FieldErrors errs" using ValidateSubmission_Inl [OF Inl] by blast
    with Inl dec assms(3) show ?thesis
      by (auto simp: createSubmissionHandler_def submitted_input_def CreateSubmission_def writeCreateSubmissionErr_def)
  next
    case (Inr inp)
    then have sub: "submitted_input U P B st r = Some inp" using dec by (simp add: submitted_input_def)
    obtain res db1 where ex: "Create J E inp db = (res, db1)" by fastforce
    note out = Create_outcome [OF assms(1) assms(2) [OF sub] ex]
    show ?thesis
    proof (cases res)
      case (Inl e)
      have "(resp, fx) = writeCreateSubmissionErr h r (Wrap ''atlas: create submission'' e) rid" "db' = db1"
        using assms(3) dec Inr Inl ex by (auto simp: createSubmissionHandler_def CreateSubmission_def)
      then have "hs_status resp = 400 \<or> hs_status resp = 500"
        by (auto simp: writeCreateSubmissionErr_def split: option.splits)
      with out Inl \<open>db' = db1\<close> show ?thesis unfolding sub by auto
    next
      case (Inr x)
      have "resp = writeJSON h 201 (SubmissionBody (toOAPISubmission (jb_uuid B) x))" "db' = db1"
        using assms(3) dec \<open>?v = Inr inp\<close> Inr ex by (auto simp: createSubmissionHandler_def CreateSubmission_def)
      with out Inr show ?thesis unfolding sub by (auto simp: writeJSON_def)
    qed
  qed
qed

text \<open>
  C6. A submission request stores what it says or nothing. A body that does not decode or whose fields do
  not pass validation is answered 400 and leaves the table as it is. Otherwise the request adds exactly
  one pending submission of the validated input, under a new id, and the 201 answer shows it, or it is
  answered with an error and the table is as before; without a fault of the store it always succeeds.
\<close>

theorem create_request:
  assumes "db_inv J db" "\<And>inp. submitted_input U P B st r = Some inp \<Longrightarrow> env_ok J E (OpCreate inp)"
    and "createSubmissionHandler U P B J E st rid h r db = ((resp, fx), db')"
  shows "case submitted_input U P B st r of
      None \<Rightarrow> hs_status resp = 400 \<and> db' = db
    | Some inp \<Rightarrow>
        (if hs_status resp = 201
         then \<exists>pid. ce_newid E = Inr pid \<and> sub_abs J db pid = None \<and> sub_abs J db' = (sub_abs J db)(pid \<mapsto> created pid (ce_now E) inp) \<and>
           hs_body resp = SubmissionBody (toOAPISubmission (jb_uuid B) (created pid (ce_now E) inp))
         else 400 \<le> hs_status resp \<and> db' = db \<and> \<not> fault_free J E (OpCreate inp) (sub_abs J db))"
  using assms by (rule create_outcomes)

section \<open>Deciding\<close>

lemma sub_abs_id: "db_inv J db \<Longrightarrow> sub_abs J db pid = Some x \<Longrightarrow> sub_PublicID x = pid"
  using sub_abs_row sub_abs_None by (metis option.distinct(1) option.exhaust option.inject)

lemma answer_iff [simp]:
  "map_sum id Some r = Inl e \<longleftrightarrow> r = Inl e"
  "map_sum id Some r = Inr (Some x) \<longleftrightarrow> r = Inr x"
  by (cases r; auto)+

lemma healthy_decision:
  assumes "db_inv J db" "four_digit_year (ce_now E)" "\<And>stmt. ce_fault E stmt = None"
  obtains r db' where "Approve J E pid db = (r, db')" "map_sum id Some r = fst (decide (approved (ce_now E)) pid (sub_abs J db))"
    "sub_abs J db' = snd (decide (approved (ce_now E)) pid (sub_abs J db))" "db_inv J db'"
proof -
  have ok: "env_ok J E (OpApprove pid)" using assms(2) by (simp add: env_ok_def)
  have ff: "fault_free J E (OpApprove pid) m" for m using assms(3) by (simp add: fault_free_def)
  obtain r db' where ex: "Approve J E pid db = (r, db')" by fastforce
  note at = refines_approve [OF assms(1) ok, unfolded refines_at_def split_beta Let_def sqlite_exec.simps ex apfst_conv
    fst_conv snd_conv spec_exec.simps]
  show thesis using that [OF ex] at ff by blast
qed

lemma healthy_rejection:
  assumes "db_inv J db" "four_digit_year (ce_now E)" "\<And>stmt. ce_fault E stmt = None"
  obtains r db' where "Reject J E pid reason db = (r, db')"
    "map_sum id Some r = fst (decide (rejected (ce_now E) reason) pid (sub_abs J db))"
    "sub_abs J db' = snd (decide (rejected (ce_now E) reason) pid (sub_abs J db))" "db_inv J db'"
proof -
  have ok: "env_ok J E (OpReject pid reason)" using assms(2) by (simp add: env_ok_def)
  have ff: "fault_free J E (OpReject pid reason) m" for m using assms(3) by (simp add: fault_free_def)
  obtain r db' where ex: "Reject J E pid reason db = (r, db')" by fastforce
  note at = refines_reject [OF assms(1) ok, unfolded refines_at_def split_beta Let_def sqlite_exec.simps ex apfst_conv
    fst_conv snd_conv spec_exec.simps]
  show thesis using that [OF ex] at ff by blast
qed

lemma decide_cases:
  "decide f pid m = (case m pid of
      None \<Rightarrow> (Inl (Sentinel ErrSubmissionNotFound), m)
    | Some x \<Rightarrow> if sub_Status x = SubmissionPending then (Inr (Some (f x)), m(pid \<mapsto> f x))
                else (Inl (Sentinel ErrSubmissionNotPending), m))"
  by (simp add: decide_def split: option.split)

text \<open>What the worker's answer leaves on an approved submission.\<close>

definition after_enqueue :: "(go_error \<Rightarrow> string) \<Rightarrow> enqueuer \<Rightarrow> submission \<Rightarrow> submission" where
  "after_enqueue T enq x =
     (case fst (enqueueOrDisabled enq x) of None \<Rightarrow> x | Some e \<Rightarrow> attached [] (error_text T e) x)"

lemma enqueuePromotion_healthy:
  assumes "db_inv J db" "\<And>stmt. ce_fault E stmt = None" "sub_abs J db (sub_PublicID x) = Some x"
  shows "\<exists>db'. enqueuePromotion T J E enq x db = (after_enqueue T enq x, snd (enqueueOrDisabled enq x), db') \<and>
    sub_abs J db' = (sub_abs J db)(sub_PublicID x \<mapsto> after_enqueue T enq x) \<and> db_inv J db'"
proof (cases "enqueueOrDisabled enq x")
  case (Pair refused enq1)
  show ?thesis
  proof (cases refused)
    case None
    with Pair assms(1,3) show ?thesis by (auto simp: enqueuePromotion_def after_enqueue_def fun_upd_idem)
  next
    case (Some e)
    obtain q db1 where at: "AttachPromotionResult E (sub_PublicID x) [] (error_text T e) db = (q, db1)" by fastforce
    note att = attach_fault_free [OF assms(1,2,3) at]
    have "Get J E (sub_PublicID x) db1 = Inr (attached [] (error_text T e) x)"
      by (simp add: Get_fault_free [OF att(1) assms(2)] att(2))
    with Pair Some at att show ?thesis by (auto simp: enqueuePromotion_def after_enqueue_def)
  qed
qed

text \<open>
  C7. An approval answers with what it stored. While the store does not fail, approving an unknown id gives
  404 and one already decided 409, both without a change; approving a pending submission gives 200,
  stores the approval, hands the submission to the worker once, and records the worker's refusal, if any,
  as its promotion error. The answer shows the submission exactly as the table now holds it.
\<close>

theorem approve_request:
  assumes "db_inv J db" "four_digit_year (ce_now E)" "\<And>stmt. ce_fault E stmt = None"
    and "jb_uuid B (trim_space idParam) \<noteq> None"
    and "approveSubmissionHandler T B J E idParam rid h r enq db = ((resp, fx), enq', db')"
  shows "case sub_abs J db (trim_space idParam) of
      None \<Rightarrow> hs_status resp = 404 \<and> enq' = enq \<and> sub_abs J db' = sub_abs J db
    | Some x \<Rightarrow>
        if sub_Status x = SubmissionPending
        then (let y = after_enqueue T enq (approved (ce_now E) x) in
          hs_status resp = 200 \<and> hs_body resp = SubmissionBody (toOAPISubmission (jb_uuid B) y) \<and>
          enq' = snd (enqueueOrDisabled enq (approved (ce_now E) x)) \<and> sub_abs J db' = (sub_abs J db)(trim_space idParam \<mapsto> y))
        else hs_status resp = 409 \<and> enq' = enq \<and> sub_abs J db' = sub_abs J db"
proof -
  let ?pid = "trim_space idParam"
  have id: "readSubmissionID B h r idParam rid = Inr ?pid" using assms(4) by (simp add: readSubmissionID_def Let_def)
  obtain ans db1 where dec: "Approve J E ?pid db = (ans, db1)"
      "map_sum id Some ans = fst (decide (approved (ce_now E)) ?pid (sub_abs J db))"
      "sub_abs J db1 = snd (decide (approved (ce_now E)) ?pid (sub_abs J db))" "db_inv J db1"
    using healthy_decision [OF assms(1-3), of ?pid] by blast
  show ?thesis
  proof (cases "sub_abs J db ?pid")
    case None
    with dec id assms(5) show ?thesis
      by (auto simp: decide_cases approveSubmissionHandler_def writeSubmissionStateErr_def)
  next
    case (Some x)
    show ?thesis
    proof (cases "sub_Status x = SubmissionPending")
      case False
      with Some dec id assms(5) show ?thesis
        by (auto simp: decide_cases approveSubmissionHandler_def writeSubmissionStateErr_def)
    next
      case True
      let ?a = "approved (ce_now E) x"
      have ap: "Approve J E ?pid db = (Inr ?a, db1)" "db_inv J db1"
        and db1: "sub_abs J db1 = (sub_abs J db)(?pid \<mapsto> ?a)"
        using dec Some True by (simp_all add: decide_cases)
      have pid: "sub_PublicID ?a = ?pid" using sub_abs_id [OF assms(1) Some] by (simp add: approved_def)
      obtain db2 where enq: "enqueuePromotion T J E enq ?a db1 = (after_enqueue T enq ?a, snd (enqueueOrDisabled enq ?a), db2)"
        "sub_abs J db2 = (sub_abs J db1)(?pid \<mapsto> after_enqueue T enq ?a)"
        using enqueuePromotion_healthy [OF ap(2) assms(3), of ?a T enq] unfolding pid db1 by auto
      show ?thesis using assms(5) Some True id ap(1) enq db1
        by (auto simp: approveSubmissionHandler_def Let_def writeJSON_def)
    qed
  qed
qed

text \<open>
  C8. A rejection needs a reason and is final: a body that does not decode, or whose reason is blank, gives
  400 and changes nothing; otherwise, while the store does not fail, an unknown id gives 404, a decided
  one 409, and a pending submission is stored as rejected for the trimmed reason, as the 200 answer shows.
\<close>

theorem reject_request:
  assumes "db_inv J db" "four_digit_year (ce_now E)" "\<And>stmt. ce_fault E stmt = None"
    and "jb_uuid B (trim_space idParam) \<noteq> None"
    and "rejectSubmissionHandler B J E idParam rid h r db = ((resp, fx), db')"
  shows "case decodeOneJSONObject (jb_Reject B (hq_body r)) ''RejectSubmissionRequest'' of
      Inl _ \<Rightarrow> hs_status resp = 400 \<and> db' = db
    | Inr reason \<Rightarrow>
       if trim_space reason = [] then hs_status resp = 400 \<and> db' = db
       else (case sub_abs J db (trim_space idParam) of
           None \<Rightarrow> hs_status resp = 404 \<and> sub_abs J db' = sub_abs J db
         | Some x \<Rightarrow>
             if sub_Status x = SubmissionPending
             then (let y = rejected (ce_now E) (trim_space reason) x in
               hs_status resp = 200 \<and> hs_body resp = SubmissionBody (toOAPISubmission (jb_uuid B) y) \<and>
               sub_abs J db' = (sub_abs J db)(trim_space idParam \<mapsto> y))
             else hs_status resp = 409 \<and> sub_abs J db' = sub_abs J db)"
proof -
  let ?pid = "trim_space idParam"
  have id: "readSubmissionID B h r idParam rid = Inr ?pid" using assms(4) by (simp add: readSubmissionID_def Let_def)
  show ?thesis
  proof (cases "decodeOneJSONObject (jb_Reject B (hq_body r)) ''RejectSubmissionRequest''")
    case (Inl e)
    with id assms(5) show ?thesis by (cases e) (auto simp: rejectSubmissionHandler_def)
  next
    case (Inr reason)
    obtain ans db1 where dec: "Reject J E ?pid (trim_space reason) db = (ans, db1)"
        "map_sum id Some ans = fst (decide (rejected (ce_now E) (trim_space reason)) ?pid (sub_abs J db))"
        "sub_abs J db1 = snd (decide (rejected (ce_now E) (trim_space reason)) ?pid (sub_abs J db))"
      using healthy_rejection [OF assms(1-3), of ?pid "trim_space reason"] by blast
    have rej: "trim_space reason \<noteq> [] \<Longrightarrow> ((resp, fx), db') = (case Reject J E ?pid (trim_space reason) db of
          (Inl err, db') \<Rightarrow>
            ((writeSubmissionStateErr h r err rid, [IncAdminAction ''reject'' (adminOutcome (Some err))]), db')
        | (Inr sub, db') \<Rightarrow>
            ((writeJSON h 200 (SubmissionBody (toOAPISubmission (jb_uuid B) sub)), [IncAdminAction ''reject'' ''ok'']), db'))"
      using assms(5) id Inr by (simp add: rejectSubmissionHandler_def Let_def)
    have blank: "trim_space reason = [] \<Longrightarrow> hs_status resp = 400 \<and> db' = db"
      using assms(5) id Inr by (auto simp: rejectSubmissionHandler_def)
    show ?thesis
    proof (cases "sub_abs J db ?pid")
      case None
      with dec rej blank Inr show ?thesis by (auto simp: decide_cases writeSubmissionStateErr_def)
    next
      case (Some x)
      with dec rej blank Inr show ?thesis
        by (cases "sub_Status x = SubmissionPending")
          (auto simp: decide_cases writeSubmissionStateErr_def Let_def writeJSON_def)
    qed
  qed
qed

section \<open>Instances\<close>

definition demo_body :: oapi_new_submission where
  "demo_body = \<lparr>wn_Payload = \<lparr>wp_Name = ''TSTC'', wp_ShortDesc = ''Transit'', wp_WebsiteUrl = ''https://tstc.org'',
     wp_ContactUrl = None, wp_RegionSlugs = Some [''NY'']\<rparr>, wn_SubmitterName = None, wn_SubmitterEmail = Some ''a@b.c'',
     wn_SubmitterNote = None\<rparr>"

definition demo_bodies :: json_bodies where
  "demo_bodies = \<lparr>jb_NewSubmission = (\<lambda>b. if b = [] then DecEmpty else Decoded demo_body False),
     jb_Reject = (\<lambda>b. if b = [] then DecEmpty else Decoded b False), jb_uuid = Some\<rparr>"

definition demo_input_codec :: payload_codec where
  "demo_input_codec = \<lparr>js_marshal = (\<lambda>p. Inr (sp_Name p)), js_unmarshal = (\<lambda>j. Inr (ni_Payload (demo_input ''ny''))),
     tm_parse = (\<lambda>_ _. None)\<rparr>"

definition demo_post :: "string \<Rightarrow> http_request" where
  "demo_post body = \<lparr>hq_Method = ''POST'', hq_Path = ''/'', hq_query = (\<lambda>_. []), hq_header = (\<lambda>_. []), hq_RemoteAddr = [], hq_body = body\<rparr>"

lemma demo_submitted:
  "submitted_input U demo_parser demo_bodies (st\<lparr>so_ResolveRegionBySlug := demo_resolver\<rparr>) (demo_post ''x'') = Some (demo_input ''ny'')"
proof -
  have "fromOAPINewSubmission demo_body = demo_input ''NY''"
    by (simp add: fromOAPINewSubmission_def demo_body_def demo_input_def or_empty_def)
  then show ?thesis
    by (simp add: submitted_input_def demo_bodies_def demo_post_def decodeOneJSONObject_def demo_accepted)
qed

lemma demo_input_env: "env_ok demo_input_codec (demo_env 0 ''a'') (OpCreate (demo_input ''ny''))"
  using demo_four_digit(1) by (simp add: env_ok_def demo_env_def demo_input_codec_def)

theorem create_request_witness:
  "\<forall>U st. \<exists>resp fx db'. createSubmissionHandler U demo_parser demo_bodies demo_input_codec (demo_env 0 ''a'')
      (st\<lparr>so_ResolveRegionBySlug := demo_resolver\<rparr>) ''r'' [] (demo_post ''x'') empty_db = ((resp, fx), db') \<and>
     hs_status resp = 201 \<and> sub_abs demo_input_codec db' ''a'' = Some (created ''a'' 0 (demo_input ''ny''))"
proof (intro allI)
  fix U and st :: store_ops
  let ?st = "st\<lparr>so_ResolveRegionBySlug := demo_resolver\<rparr>"
  obtain resp fx db' where ex: "createSubmissionHandler U demo_parser demo_bodies demo_input_codec (demo_env 0 ''a'') ?st ''r'' []
      (demo_post ''x'') empty_db = ((resp, fx), db')" by (metis prod.exhaust)
  have ok: "env_ok demo_input_codec (demo_env 0 ''a'') (OpCreate inp)"
    if "submitted_input U demo_parser demo_bodies ?st (demo_post ''x'') = Some inp" for inp
    using that demo_input_env by (simp add: demo_submitted)
  have ff: "fault_free demo_input_codec (demo_env 0 ''a'') (OpCreate (demo_input ''ny'')) (sub_abs demo_input_codec empty_db)"
    by (simp add: fault_free_def demo_env_def demo_input_codec_def sub_abs_def empty_db_def)
  have "hs_status resp = 201 \<and>
      sub_abs demo_input_codec db' = (sub_abs demo_input_codec empty_db)(''a'' \<mapsto> created ''a'' 0 (demo_input ''ny''))"
    using create_request [OF empty_db_inv ok ex] ff
    unfolding demo_submitted option.case by (auto simp: demo_env_def split: if_splits)
  with ex show "\<exists>resp fx db'. createSubmissionHandler U demo_parser demo_bodies demo_input_codec (demo_env 0 ''a'') ?st ''r'' []
      (demo_post ''x'') empty_db = ((resp, fx), db') \<and>
     hs_status resp = 201 \<and> sub_abs demo_input_codec db' ''a'' = Some (created ''a'' 0 (demo_input ''ny''))"
    by (metis fun_upd_same)
qed

lemma demo_pending: "sub_abs demo_codec demo_db ''a'' = Some (created ''a'' 0 demo_new)"
  unfolding demo_db(2) by simp

lemma demo_trim: "trim_space ''a'' = ''a''" "trim_space ''no'' = ''no''"
  by (rule trim_space_solid; simp add: solid_byte_def ascii_spaces_def)+

theorem approve_request_witness:
  "\<exists>resp fx enq' db'. approveSubmissionHandler (\<lambda>_. ''off'') demo_bodies demo_codec (demo_env 0 ''a'') ''a'' ''r'' [] (demo_post ''x'') None demo_db
      = ((resp, fx), enq', db') \<and> hs_status resp = 200 \<and>
     sub_abs demo_codec db' ''a'' = Some (attached [] ''off'' (approved 0 (created ''a'' 0 demo_new)))"
proof -
  obtain resp fx enq' db' where ex: "approveSubmissionHandler (\<lambda>_. ''off'') demo_bodies demo_codec (demo_env 0 ''a'') ''a'' ''r'' []
      (demo_post ''x'') None demo_db = ((resp, fx), enq', db')" by (metis prod.exhaust)
  have year: "four_digit_year (ce_now (demo_env 0 ''a''))" using demo_four_digit(1) by (simp add: demo_env_def)
  have id: "jb_uuid demo_bodies (trim_space ''a'') \<noteq> None" by (simp add: demo_bodies_def)
  have "hs_status resp = 200 \<and> sub_abs demo_codec db' ''a'' = Some (attached [] ''off'' (approved 0 (created ''a'' 0 demo_new)))"
    using approve_request [OF demo_db(1) year demo_env_faults id ex] unfolding demo_trim demo_pending option.case
    by (simp add: created_def status_defs after_enqueue_def enqueueOrDisabled_def demo_env_def Let_def)
  with ex show ?thesis by blast
qed

theorem reject_request_witness:
  "\<exists>resp fx db'. rejectSubmissionHandler demo_bodies demo_codec (demo_env 0 ''a'') ''a'' ''r'' [] (demo_post ''no'') demo_db
      = ((resp, fx), db') \<and> hs_status resp = 200 \<and>
     sub_abs demo_codec db' ''a'' = Some (rejected 0 ''no'' (created ''a'' 0 demo_new))"
proof -
  obtain resp fx db' where ex: "rejectSubmissionHandler demo_bodies demo_codec (demo_env 0 ''a'') ''a'' ''r'' [] (demo_post ''no'') demo_db
      = ((resp, fx), db')" by (metis prod.exhaust)
  have year: "four_digit_year (ce_now (demo_env 0 ''a''))" using demo_four_digit(1) by (simp add: demo_env_def)
  have id: "jb_uuid demo_bodies (trim_space ''a'') \<noteq> None" by (simp add: demo_bodies_def)
  have dec: "decodeOneJSONObject (jb_Reject demo_bodies (hq_body (demo_post ''no''))) ''RejectSubmissionRequest'' = Inr ''no''"
    by (simp add: demo_bodies_def demo_post_def decodeOneJSONObject_def)
  have "hs_status resp = 200 \<and> sub_abs demo_codec db' ''a'' = Some (rejected 0 ''no'' (created ''a'' 0 demo_new))"
    using reject_request [OF demo_db(1) year demo_env_faults id ex] unfolding dec sum.case demo_trim demo_pending option.case
    by (simp add: created_def status_defs demo_env_def Let_def)
  with ex show ?thesis by blast
qed

end
