(* ===== verification/Http_Metrics.thy ===== *)
theory Http_Metrics
  imports Http_Submissions
begin

text \<open>
  The counters of metrics.go: one map from a metric's name and label values to its count, with the sizes
  observed by the histograms of the type-ahead. Durations, buckets and the registry itself belong to the
  Prometheus client. An \<open>effect\<close> of a handler on a counter is applied by \<open>apply_metric\<close>.
\<close>

section \<open>Counters\<close>

record metrics =
  mx_counts :: "(string \<times> string list, nat) gomap"
  mx_observed :: "(string \<times> nat) list"

definition NewMetrics :: metrics where
  "NewMetrics = \<lparr>mx_counts = [], mx_observed = []\<rparr>"

definition counter :: "metrics \<Rightarrow> string \<Rightarrow> string list \<Rightarrow> nat" where
  "counter m name labels = (case mget (mx_counts m) (name, labels) of None \<Rightarrow> 0 | Some n \<Rightarrow> n)"

definition inc_counter :: "string \<Rightarrow> string list \<Rightarrow> metrics \<Rightarrow> metrics" where
  "inc_counter name labels m = m\<lparr>mx_counts := mput (name, labels) (counter m name labels + 1) (mx_counts m)\<rparr>"

definition observe :: "string \<Rightarrow> nat \<Rightarrow> metrics \<Rightarrow> metrics" where
  "observe name v m = m\<lparr>mx_observed := mx_observed m @ [(name, v)]\<rparr>"

definition format_bool :: "bool \<Rightarrow> string" where
  "format_bool b = (if b then ''true'' else ''false'')"

definition incLookup :: "string \<Rightarrow> string \<Rightarrow> metrics \<Rightarrow> metrics" where
  "incLookup country res = inc_counter ''lookup_total'' [metricCountry country, res]"

definition incLookupTier :: "string \<Rightarrow> string \<Rightarrow> metrics \<Rightarrow> metrics" where
  "incLookupTier country tier = inc_counter ''lookup_results_total'' [metricCountry country, tier]"

definition incRegionView :: "bool \<Rightarrow> metrics \<Rightarrow> metrics" where
  "incRegionView found = inc_counter ''region_views_total'' [format_bool found]"

definition incOrgView :: "bool \<Rightarrow> metrics \<Rightarrow> metrics" where
  "incOrgView found = inc_counter ''org_views_total'' [format_bool found]"

definition incRegionSearch :: "nat \<Rightarrow> nat \<Rightarrow> metrics \<Rightarrow> metrics" where
  "incRegionSearch queryLen resultCount m =
     observe ''region_search_query_length'' queryLen (observe ''region_search_results'' resultCount
       (inc_counter ''region_search_total'' [if resultCount = 0 then ''empty'' else ''nonempty''] m))"

definition incSubmissions :: "string \<Rightarrow> metrics \<Rightarrow> metrics" where
  "incSubmissions status = inc_counter ''submissions_total'' [status]"

definition incSubmissionValidationFailure :: "string \<Rightarrow> metrics \<Rightarrow> metrics" where
  "incSubmissionValidationFailure field =
     inc_counter ''submission_validation_failures_total'' [metricSubmissionField field]"

definition incAdminAction :: "string \<Rightarrow> string \<Rightarrow> metrics \<Rightarrow> metrics" where
  "incAdminAction action outcome = inc_counter ''admin_actions_total'' [action, outcome]"

definition incRateLimit :: "string \<Rightarrow> metrics \<Rightarrow> metrics" where
  "incRateLimit endpoint = inc_counter ''rate_limit_hits_total'' [endpoint]"

definition incStorePingFailure :: "metrics \<Rightarrow> metrics" where
  "incStorePingFailure = inc_counter ''store_ping_failures_total'' []"

definition metricMethod :: "string \<Rightarrow> string" where
  "metricMethod meth = (if meth \<in> {''GET'', ''HEAD'', ''POST'', ''OPTIONS''} then meth else ''other'')"

definition count_request :: "string \<Rightarrow> string \<Rightarrow> int \<Rightarrow> metrics \<Rightarrow> metrics" where
  "count_request routePattern meth status =
     inc_counter ''http_requests_total''
       [if routePattern = [] then ''unmatched'' else routePattern, metricMethod meth, itoa status]"

fun apply_metric :: "effect \<Rightarrow> metrics \<Rightarrow> metrics" where
  "apply_metric (IncLookup c res) m = incLookup c res m"
| "apply_metric (IncLookupTier c tier) m = incLookupTier c tier m"
| "apply_metric (IncRegionView b) m = incRegionView b m"
| "apply_metric (IncOrgView b) m = incOrgView b m"
| "apply_metric (IncRegionSearch l n) m = incRegionSearch l n m"
| "apply_metric (IncSubmissions st) m = incSubmissions st m"
| "apply_metric (IncValidationFailure f) m = incSubmissionValidationFailure f m"
| "apply_metric (IncAdminAction a out) m = incAdminAction a out m"
| "apply_metric (IncRateLimit e) m = incRateLimit e m"
| "apply_metric IncStorePingFailure m = incStorePingFailure m"
| "apply_metric (UsageIncrement kind key) m = m"
| "apply_metric (CoverageEmpty kind country input) m = m"

lemma counter_inc [simp]:
  "counter (inc_counter name labels m) name' labels' =
     counter m name' labels' + (if (name, labels) = (name', labels') then 1 else 0)"
  by (auto simp: counter_def inc_counter_def)

lemma counter_observe [simp]: "counter (observe n v m) name labels = counter m name labels"
  by (simp add: counter_def observe_def)

lemma counter_new [simp]: "counter NewMetrics name labels = 0"
  by (simp add: counter_def NewMetrics_def)

lemmas inc_defs = incLookup_def incLookupTier_def incRegionView_def incOrgView_def incRegionSearch_def incSubmissions_def
  incSubmissionValidationFailure_def incAdminAction_def incRateLimit_def incStorePingFailure_def count_request_def

section \<open>What the counters may hold\<close>

definition country_labels :: "string list" where "country_labels = [CountryUS, CountryCA, ''other'']"
definition tier_labels :: "string list" where "tier_labels = [''local'', ''regional'', ''statewide'', ''empty'']"

text \<open>The label values of each metric, but for the route of a request, which is chi's pattern.\<close>

definition labels_ok :: "string \<Rightarrow> string list \<Rightarrow> bool" where
  "labels_ok name ls \<longleftrightarrow>
     (name = ''lookup_total'' \<and> (\<exists>c res. ls = [c, res] \<and> c \<in> set country_labels \<and> res \<in> {''hit'', ''miss'', ''military''})) \<or>
     (name = ''lookup_results_total'' \<and> (\<exists>c t. ls = [c, t] \<and> c \<in> set country_labels \<and> t \<in> set tier_labels)) \<or>
     (name \<in> {''region_views_total'', ''org_views_total''} \<and> (\<exists>b. ls = [b] \<and> b \<in> {''true'', ''false''})) \<or>
     (name = ''region_search_total'' \<and> (\<exists>x. ls = [x] \<and> x \<in> {''empty'', ''nonempty''})) \<or>
     (name = ''submissions_total'' \<and> (\<exists>x. ls = [x] \<and> x \<in> {''created'', ''rejected_validation'', ''error'', ''rate_limited''})) \<or>
     (name = ''submission_validation_failures_total'' \<and> (\<exists>x. ls = [x] \<and> metricSubmissionField x = x)) \<or>
     (name = ''admin_actions_total'' \<and> (\<exists>a x. ls = [a, x] \<and> a \<in> {''approve'', ''reject''} \<and>
        x \<in> {''ok'', ''not_found'', ''conflict'', ''error''})) \<or>
     (name = ''rate_limit_hits_total'' \<and> ls = [''submissions'']) \<or>
     (name = ''store_ping_failures_total'' \<and> ls = []) \<or>
     (name = ''http_requests_total'' \<and> (\<exists>route meth status. ls = [route, meth, status] \<and>
        meth \<in> {''GET'', ''HEAD'', ''POST'', ''OPTIONS'', ''other''}))"

text \<open>The effects a handler may have on the counters.\<close>

fun effect_ok :: "effect \<Rightarrow> bool" where
  "effect_ok (IncLookup c res) = (res \<in> {''hit'', ''miss'', ''military''})"
| "effect_ok (IncLookupTier c tier) = (tier \<in> set tier_labels)"
| "effect_ok (IncSubmissions st) = (st \<in> {''created'', ''rejected_validation'', ''error'', ''rate_limited''})"
| "effect_ok (IncAdminAction a out) = (a \<in> {''approve'', ''reject''} \<and> out \<in> {''ok'', ''not_found'', ''conflict'', ''error''})"
| "effect_ok (IncRateLimit e) = (e = ''submissions'')"
| "effect_ok _ = True"

fun hits_of :: "string \<Rightarrow> effect list \<Rightarrow> nat" where
  "hits_of c [] = 0"
| "hits_of c (IncLookup c' res # fx) = (if metricCountry c' = c \<and> res = ''hit'' then 1 else 0) + hits_of c fx"
| "hits_of c (_ # fx) = hits_of c fx"

fun tiers_of :: "string \<Rightarrow> effect list \<Rightarrow> nat" where
  "tiers_of c [] = 0"
| "tiers_of c (IncLookupTier c' t # fx) = (if metricCountry c' = c then 1 else 0) + tiers_of c fx"
| "tiers_of c (_ # fx) = tiers_of c fx"

definition effects_ok :: "effect list \<Rightarrow> bool" where
  "effects_ok fx \<longleftrightarrow> list_all effect_ok fx \<and> (\<forall>c. hits_of c fx = tiers_of c fx)"

text \<open>
  The invariant of the counters: only the listed labels appear, and each country's resolved lookups by
  tier add up to its lookups with a hit, as the help text of the metric says.
\<close>

definition metrics_inv :: "metrics \<Rightarrow> bool" where
  "metrics_inv m \<longleftrightarrow> (\<forall>name ls. counter m name ls > 0 \<longrightarrow> labels_ok name ls) \<and>
     (\<forall>c. sum_list (map (\<lambda>t. counter m ''lookup_results_total'' [c, t]) tier_labels) = counter m ''lookup_total'' [c, ''hit''])"

definition labels_inv :: "metrics \<Rightarrow> bool" where
  "labels_inv m \<longleftrightarrow> (\<forall>name ls. counter m name ls > 0 \<longrightarrow> labels_ok name ls)"

definition tier_sum :: "metrics \<Rightarrow> string \<Rightarrow> nat" where
  "tier_sum m c = sum_list (map (\<lambda>t. counter m ''lookup_results_total'' [c, t]) tier_labels)"

lemma metrics_inv_split:
  "metrics_inv m \<longleftrightarrow> labels_inv m \<and> (\<forall>c. tier_sum m c = counter m ''lookup_total'' [c, ''hit''])"
  by (simp add: metrics_inv_def labels_inv_def tier_sum_def)

lemma metricCountry_label: "metricCountry c \<in> set country_labels"
  by (simp add: metricCountry_def country_labels_def)

lemma metricSubmissionField_idem: "metricSubmissionField (metricSubmissionField f) = metricSubmissionField f"
  by (auto simp: metricSubmissionField_def)

lemma labels_inv_inc: "labels_inv m \<Longrightarrow> labels_ok name ls \<Longrightarrow> labels_inv (inc_counter name ls m)"
  by (auto simp: labels_inv_def)

lemma labels_ok_intros:
  "c \<in> set country_labels \<Longrightarrow> res \<in> {''hit'', ''miss'', ''military''} \<Longrightarrow> labels_ok ''lookup_total'' [c, res]"
  "c \<in> set country_labels \<Longrightarrow> t \<in> set tier_labels \<Longrightarrow> labels_ok ''lookup_results_total'' [c, t]"
  "labels_ok ''region_views_total'' [format_bool b]"
  "labels_ok ''org_views_total'' [format_bool b]"
  "labels_ok ''region_search_total'' [if n = (0::nat) then ''empty'' else ''nonempty'']"
  "st \<in> {''created'', ''rejected_validation'', ''error'', ''rate_limited''} \<Longrightarrow> labels_ok ''submissions_total'' [st]"
  "labels_ok ''submission_validation_failures_total'' [metricSubmissionField f]"
  "a \<in> {''approve'', ''reject''} \<Longrightarrow> x \<in> {''ok'', ''not_found'', ''conflict'', ''error''} \<Longrightarrow> labels_ok ''admin_actions_total'' [a, x]"
  "labels_ok ''rate_limit_hits_total'' [''submissions'']"
  "labels_ok ''store_ping_failures_total'' []"
  "labels_ok ''http_requests_total'' [route, metricMethod meth, status]"
  unfolding labels_ok_def format_bool_def metricMethod_def
  by (simp_all add: metricSubmissionField_idem)

lemma labels_inv_apply: "labels_inv m \<Longrightarrow> effect_ok e \<Longrightarrow> labels_inv (apply_metric e m)"
proof -
  assume inv: "labels_inv m" and ok: "effect_ok e"
  have obs: "labels_inv (observe n v m') = labels_inv m'" for n v m' by (simp add: labels_inv_def)
  note ok' = labels_ok_intros metricCountry_label labels_inv_inc [OF inv]
  show ?thesis
  proof (cases e)
    case (IncLookup c res)
    with ok show ?thesis unfolding IncLookup apply_metric.simps inc_defs by (intro ok') simp
  next
    case (IncLookupTier c t)
    with ok show ?thesis unfolding IncLookupTier apply_metric.simps inc_defs by (intro ok') simp
  next
    case (IncRegionSearch l n)
    show ?thesis unfolding IncRegionSearch apply_metric.simps inc_defs obs by (intro ok')
  next
    case (IncSubmissions st)
    with ok show ?thesis unfolding IncSubmissions apply_metric.simps inc_defs by (intro ok') simp
  next
    case (IncAdminAction a x)
    with ok show ?thesis unfolding IncAdminAction apply_metric.simps inc_defs by (intro ok') simp_all
  next
    case (IncRateLimit x)
    with ok show ?thesis unfolding IncRateLimit apply_metric.simps inc_defs effect_ok.simps by (auto intro: ok')
  next
    case (IncRegionView b)
    show ?thesis unfolding IncRegionView apply_metric.simps inc_defs by (intro ok')
  next
    case (IncOrgView b)
    show ?thesis unfolding IncOrgView apply_metric.simps inc_defs by (intro ok')
  next
    case (IncValidationFailure f)
    show ?thesis unfolding IncValidationFailure apply_metric.simps inc_defs by (intro ok')
  next
    case IncStorePingFailure
    show ?thesis unfolding IncStorePingFailure apply_metric.simps inc_defs by (intro ok')
  qed (simp_all add: inv)
qed

lemma tier_sum_apply:
  assumes "effect_ok e"
  shows "tier_sum (apply_metric e m) c = tier_sum m c + tiers_of c [e]"
    "counter (apply_metric e m) ''lookup_total'' [c, ''hit''] = counter m ''lookup_total'' [c, ''hit''] + hits_of c [e]"
  using assms by (cases e; force simp: tier_sum_def tier_labels_def inc_defs)+

lemma hits_cons: "hits_of c (e # fx) = hits_of c [e] + hits_of c fx" "tiers_of c (e # fx) = tiers_of c [e] + tiers_of c fx"
  by (cases e; simp)+

text \<open>A handler's effects, applied one after the other.\<close>

definition apply_metrics :: "effect list \<Rightarrow> metrics \<Rightarrow> metrics" where
  "apply_metrics fx m = foldl (\<lambda>m e. apply_metric e m) m fx"

lemma apply_metrics_sums:
  "list_all effect_ok fx \<Longrightarrow> labels_inv m \<Longrightarrow> labels_inv (apply_metrics fx m) \<and>
     tier_sum (apply_metrics fx m) c = tier_sum m c + tiers_of c fx \<and>
     counter (apply_metrics fx m) ''lookup_total'' [c, ''hit''] = counter m ''lookup_total'' [c, ''hit''] + hits_of c fx"
proof (induction fx arbitrary: m)
  case Nil
  then show ?case by (simp add: apply_metrics_def)
next
  case (Cons e fx)
  have "apply_metrics (e # fx) m = apply_metrics fx (apply_metric e m)" by (simp add: apply_metrics_def)
  with Cons.IH [of "apply_metric e m"] Cons.prems labels_inv_apply [of m e] tier_sum_apply [of e m c] hits_cons [of c e fx]
  show ?case by simp
qed

lemma apply_metrics_inv: "metrics_inv m \<Longrightarrow> effects_ok fx \<Longrightarrow> metrics_inv (apply_metrics fx m)"
  using apply_metrics_sums [of fx m] by (simp add: metrics_inv_split effects_ok_def)

lemma metrics_inv_new: "metrics_inv NewMetrics"
  by (simp add: metrics_inv_def)

lemma count_request_inv: "metrics_inv m \<Longrightarrow> metrics_inv (count_request route meth status m)"
  unfolding metrics_inv_split count_request_def
  by (auto simp: tier_sum_def tier_labels_def intro!: labels_inv_inc labels_ok_intros)

section \<open>The effects of the handlers\<close>

lemma effects_ok_simps [simp]:
  "effects_ok []"
  "effects_ok (UsageIncrement k x # fx) = effects_ok fx"
  "effects_ok (CoverageEmpty k c i # fx) = effects_ok fx"
  "effects_ok (IncRegionView b # fx) = effects_ok fx"
  "effects_ok (IncOrgView b # fx) = effects_ok fx"
  "effects_ok (IncRegionSearch l n # fx) = effects_ok fx"
  "effects_ok (IncStorePingFailure # fx) = effects_ok fx"
  "effects_ok (IncValidationFailure f # fx) = effects_ok fx"
  "effects_ok (IncSubmissions st # fx) = (st \<in> {''created'', ''rejected_validation'', ''error'', ''rate_limited''} \<and> effects_ok fx)"
  "effects_ok (IncAdminAction a out # fx) =
     (a \<in> {''approve'', ''reject''} \<and> out \<in> {''ok'', ''not_found'', ''conflict'', ''error''} \<and> effects_ok fx)"
  "effects_ok (IncRateLimit e # fx) = (e = ''submissions'' \<and> effects_ok fx)"
  by (auto simp: effects_ok_def)

lemma effects_hit: "t \<in> set tier_labels \<Longrightarrow> effects_ok fx \<Longrightarrow> effects_ok (IncLookup c ''hit'' # IncLookupTier c t # fx)"
  by (auto simp: effects_ok_def)

lemma effects_miss: "res \<in> {''miss'', ''military''} \<Longrightarrow> effects_ok fx \<Longrightarrow> effects_ok (IncLookup c res # fx)"
  by (auto simp: effects_ok_def)

lemma lookupTier_label: "lookupTier a b c \<in> set tier_labels"
  by (simp add: lookupTier_def tier_labels_def)

lemma effects_reads:
  "effects_ok (snd (lookupHandler U st rid h r))"
  "effects_ok (snd (listRegionsHandler st rid h r))"
  "effects_ok (snd (searchRegionsHandler st rid h r))"
  "effects_ok (snd (getRegionHandler rng st slug rid h r))"
  "effects_ok (snd (getOrgHandler st slug rid h r))"
  "effects_ok (snd (recentHandler st rid h r))"
  "effects_ok (snd (statsHandler st rid h r))"
  "effects_ok (snd (healthHandler h))"
  "effects_ok (snd (readyHandler ping h))"
  "effects_ok (snd (openapiHandler h))"
proof -
  show "effects_ok (snd (lookupHandler U st rid h r))"
    by (simp add: lookupHandler_def Let_def effects_hit effects_miss lookupTier_label split: sum.split list.split)
  show "effects_ok (snd (listRegionsHandler st rid h r))"
    by (simp add: listRegionsHandler_def split: sum.split)
  show "effects_ok (snd (searchRegionsHandler st rid h r))"
    by (simp add: searchRegionsHandler_def Let_def split: sum.split)
  show "effects_ok (snd (getRegionHandler rng st slug rid h r))"
    by (simp add: getRegionHandler_def Let_def split: sum.split option.split)
  show "effects_ok (snd (getOrgHandler st slug rid h r))"
    by (simp add: getOrgHandler_def Let_def split: sum.split)
  show "effects_ok (snd (recentHandler st rid h r))"
    by (simp add: recentHandler_def split: sum.split)
  show "effects_ok (snd (statsHandler st rid h r))"
    by (simp add: statsHandler_def split: sum.split)
  show "effects_ok (snd (healthHandler h))" by (simp add: healthHandler_def)
  show "effects_ok (snd (readyHandler ping h))" by (simp add: readyHandler_def split: option.split sum.split)
  show "effects_ok (snd (openapiHandler h))" by (simp add: openapiHandler_def)
qed

lemma effects_validation: "effects_ok (map (\<lambda>f. IncValidationFailure (fst f)) fs)"
  by (induction fs) simp_all

lemma adminOutcome_label: "adminOutcome err \<in> {''ok'', ''not_found'', ''conflict'', ''error''}"
  by (simp add: adminOutcome_def split: option.split)

lemma effects_submissions:
  "effects_ok (snd (fst (createSubmissionHandler U P B J E st rid h r db)))"
  "effects_ok (snd (listSubmissionsHandler B J E rid h r db))"
  "effects_ok (snd (fst (approveSubmissionHandler T B J E idParam rid h r enq db)))"
  "effects_ok (snd (fst (rejectSubmissionHandler B J E idParam rid h r db)))"
  "effects_ok (snd (listUsageHandler E rid h r t))"
  "effects_ok (snd (listCoverageGapsHandler J E rid h r gdb))"
proof -
  have err: "effects_ok (snd (writeCreateSubmissionErr h r e rid))" for e
    by (simp add: writeCreateSubmissionErr_def effects_validation split: option.split)
  show "effects_ok (snd (fst (createSubmissionHandler U P B J E st rid h r db)))"
    by (simp add: createSubmissionHandler_def err split: sum.split prod.split)
  show "effects_ok (snd (listSubmissionsHandler B J E rid h r db))"
    unfolding listSubmissionsHandler_def Let_def if_distrib [of snd] sum.case_distrib [of snd] snd_conv
    by (auto simp del: insert_iff split: sum.split)
  have out: "adminOutcome e \<in> {''ok'', ''not_found'', ''conflict'', ''error''}" for e by (rule adminOutcome_label)
  have act: "effects_ok [IncAdminAction a (adminOutcome e)]" if "a \<in> {''approve'', ''reject''}" for a e
    unfolding effects_ok_simps by (intro conjI that out effects_ok_simps(1) TrueI)
  show "effects_ok (snd (fst (approveSubmissionHandler T B J E idParam rid h r enq db)))"
    by (simp add: approveSubmissionHandler_def Let_def act out [simplified] split: sum.split prod.split)
  show "effects_ok (snd (fst (rejectSubmissionHandler B J E idParam rid h r db)))"
    by (simp add: rejectSubmissionHandler_def Let_def act out [simplified] split: sum.split prod.split)
  show "effects_ok (snd (listUsageHandler E rid h r t))"
    by (simp add: listUsageHandler_def split: sum.split)
  show "effects_ok (snd (listCoverageGapsHandler J E rid h r gdb))"
    by (simp add: listCoverageGapsHandler_def split: sum.split)
qed

end
