(* ===== verification/Http_Router.thy ===== *)
theory Http_Router
  imports Http_Metrics Rate_Limit
begin

text \<open>
  The server of \<open>api/internal/httpapi\<close>: the middlewares (middleware.go, secheaders.go, cors.go, odbl.go,
  bearerauth.go, clientsecret.go, the two of ratelimit.go) and the route tables of router.go.

  A handler maps the request id in the context, the headers already set and the state to an outcome and
  the next state; the outcome is an answer or a panic, which keeps the headers set so far. One request is
  one step of the server: in the code its parts are protected by the locks of the limiter, the queue check,
  the recorders and SQLite. Left out: deadlines, the access log and durations.

  Parameters: chi's choice among the routes of a router (\<open>hd_chi\<close>, with the route pattern it reports), and
  SHA-256; per request the random id and the answer of the store's ping.
\<close>

section \<open>Routes, dependencies and state\<close>

datatype route_entry = Endpoint string string | MountAt string

datatype found_route = NoRoute | NoMethod | FoundRoute route_entry "string \<Rightarrow> string" string

record http_deps =
  hd_unicode :: go_unicode
  hd_url :: url_parser
  hd_bodies :: json_bodies
  hd_codec :: payload_codec
  hd_errtext :: "go_error \<Rightarrow> string"
  hd_netip :: netip
  hd_sha256 :: "string \<Rightarrow> string"
  hd_chi :: "route_entry list \<Rightarrow> string \<Rightarrow> string \<Rightarrow> found_route"
  hd_pattern :: "http_request \<Rightarrow> string"
  hd_ranges :: "(id64, region) gomap \<Rightarrow> (id64 \<times> region) list"

record http_config =
  cf_Store :: store_ops
  cf_CORSOrigins :: "string list"
  cf_APIVersion :: string
  cf_ClientSecret :: string
  cf_Submissions :: bool
  cf_AdminToken :: string
  cf_RatePerHour :: int
  cf_CoverageGaps :: bool
  cf_UsageCounts :: bool
  cf_sampleRate :: real

text \<open>What one request sees of its surroundings.\<close>

record request_env =
  re_call :: call_env
  re_newid :: string
  re_ping :: "unit result option"
  re_sample :: real

text \<open>An option is \<open>None\<close> when the configuration leaves the part out.\<close>

record server =
  sv_db :: sub_db
  sv_limiter :: ip_rate_limiter
  sv_queue :: pending_queue
  sv_enqueuer :: enqueuer
  sv_usage :: "recorder option"
  sv_table :: usage_table
  sv_coverage :: "coverage_state option"
  sv_gaps :: gap_db
  sv_metrics :: "metrics option"

datatype outcome = Answer http_response | Panic headers | Abort

type_synonym 's handler = "string \<Rightarrow> headers \<Rightarrow> 's \<Rightarrow> outcome \<times> 's"

section \<open>Middlewares\<close>

definition securityHeadersMiddleware :: "'s handler \<Rightarrow> 's handler" where
  "securityHeadersMiddleware next rid h s =
     next rid (hset ''X-Frame-Options'' ''DENY'' (hset ''X-Content-Type-Options'' ''nosniff'' h)) s"

definition maxRequestIDLen :: nat where "maxRequestIDLen = 64"

definition request_id_byte :: "char \<Rightarrow> bool" where
  "request_id_byte c \<longleftrightarrow> (let b = byte c in 65 \<le> b \<and> b \<le> 90 \<or> 97 \<le> b \<and> b \<le> 122 \<or> 48 \<le> b \<and> b \<le> 57 \<or>
     c = CHR ''.'' \<or> c = CHR ''_'' \<or> c = CHR ''-'')"

definition validRequestID :: "string \<Rightarrow> bool" where
  "validRequestID s \<longleftrightarrow> s \<noteq> [] \<and> length s \<le> maxRequestIDLen \<and> list_all request_id_byte s"

definition requestIDMiddleware :: "string \<Rightarrow> http_request \<Rightarrow> 's handler \<Rightarrow> 's handler" where
  "requestIDMiddleware newRequestID r next rid h s =
     (let inbound = hq_header r ''X-Request-ID'';
          rid' = (if validRequestID inbound then inbound else newRequestID)
      in next rid' (hset ''X-Request-ID'' rid' h) s)"

definition cors_allow :: "string list \<Rightarrow> string \<Rightarrow> bool" where
  "cors_allow allowed origin \<longleftrightarrow>
     (let suffixes = map (drop 1) (filter (\<lambda>a. has_prefix a ''*.'') allowed);
          exact = filter (\<lambda>a. \<not> has_prefix a ''*.'') allowed
      in origin \<in> set exact \<or> has_prefix origin ''https://'' \<and> list_ex (has_suffix origin) suffixes)"

definition cors_headers :: "string list \<Rightarrow> string \<Rightarrow> headers \<Rightarrow> headers" where
  "cors_headers allowed origin h =
     (if origin = [] then h
      else let h1 = hadd ''Vary'' ''Origin'' h in
        if cors_allow allowed origin then
          hset ''Access-Control-Expose-Headers'' ''X-Request-ID, Retry-After, X-Next-Cursor''
            (hset ''Access-Control-Max-Age'' ''86400''
              (hset ''Access-Control-Allow-Headers'' ''Authorization, Content-Type, X-Atlas-Client, X-Request-ID''
                (hset ''Access-Control-Allow-Methods'' ''GET, HEAD, POST, OPTIONS''
                  (hset ''Access-Control-Allow-Origin'' origin h1))))
        else h1)"

definition corsMiddleware :: "string list \<Rightarrow> http_request \<Rightarrow> 's handler \<Rightarrow> 's handler" where
  "corsMiddleware allowed r next rid h s =
     (let h' = cors_headers allowed (hq_header r ''Origin'') h in
      if hq_Method r = ''OPTIONS'' then (Answer \<lparr>hs_status = 204, hs_header = h', hs_body = NoBody\<rparr>, s)
      else next rid h' s)"

text \<open>The middleware records a request that is answered; a panic that passes leaves nothing.\<close>

definition metricsMiddleware :: "http_deps \<Rightarrow> http_request \<Rightarrow> server handler \<Rightarrow> server handler" where
  "metricsMiddleware D r next rid h s =
     (case next rid h s of
        (Answer resp, s') \<Rightarrow>
          (Answer resp, s'\<lparr>sv_metrics := map_option (count_request (hd_pattern D r) (hq_Method r) (hs_status resp)) (sv_metrics s')\<rparr>)
      | (out, s') \<Rightarrow> (out, s'))"

text \<open>\<open>Abort\<close> is a panic with \<open>http.ErrAbortHandler\<close>.\<close>

definition recovererMiddleware :: "http_request \<Rightarrow> 's handler \<Rightarrow> 's handler" where
  "recovererMiddleware r next rid h s =
     (case next rid h s of
        (Panic h', s') \<Rightarrow> (Answer (writeInternalProblem h' r rid), s')
      | (out, s') \<Rightarrow> (out, s'))"

definition odblHeadersMiddleware :: "'s handler \<Rightarrow> 's handler" where
  "odblHeadersMiddleware next rid h s =
     next rid (hset ''X-Data-Attribution'' ''https://urbanistatlas.com'' (hset ''X-Data-License'' ''ODbL-1.0'' h)) s"

definition unauthorized :: "http_request \<Rightarrow> string \<Rightarrow> headers \<Rightarrow> http_response" where
  "unauthorized r rid h =
     writeProblem h r 401 problemUnauthorized ''Unauthorized'' ''Authentication is required for this endpoint.'' rid"

definition clientSecretMiddleware :: "http_deps \<Rightarrow> string \<Rightarrow> http_request \<Rightarrow> 's handler \<Rightarrow> 's handler" where
  "clientSecretMiddleware D secret r next =
     (if secret = [] then next
      else (\<lambda>rid h s.
        if hd_sha256 D (hq_header r ''X-Atlas-Client'') \<noteq> hd_sha256 D secret then (Answer (unauthorized r rid h), s)
        else next rid h s))"

definition extractBearerToken :: "go_unicode \<Rightarrow> string \<Rightarrow> string" where
  "extractBearerToken U headerValue =
     (if length headerValue < length ''bearer '' then []
      else if \<not> equal_fold U (take (length ''bearer '') headerValue) ''bearer '' then []
      else trim_space (drop (length ''bearer '') headerValue))"

definition bearerAuthMiddleware :: "http_deps \<Rightarrow> string \<Rightarrow> http_request \<Rightarrow> 's handler \<Rightarrow> 's handler" where
  "bearerAuthMiddleware D adminToken r next =
     (if adminToken = [] then
        (\<lambda>rid h s. (Answer (writeProblem h r 503 problemAdminDisabled ''Admin Endpoints Disabled''
           ''URBANIST_ADMIN_TOKEN is not configured on this server.'' rid), s))
      else (\<lambda>rid h s.
        if hd_sha256 D (extractBearerToken (hd_unicode D) (hq_header r ''Authorization'')) \<noteq> hd_sha256 D adminToken
        then (Answer (unauthorized r rid h), s)
        else next rid h s))"

definition count_effects :: "effect list \<Rightarrow> server \<Rightarrow> server" where
  "count_effects fx s = s\<lparr>sv_metrics := map_option (apply_metrics fx) (sv_metrics s)\<rparr>"

definition writeRateLimited :: "http_request \<Rightarrow> int \<Rightarrow> string \<Rightarrow> headers \<Rightarrow> http_response" where
  "writeRateLimited r retryAfterSec rid h =
     writeProblem (hset ''Retry-After'' (itoa retryAfterSec) h) r 429 problemRateLimited ''Too Many Requests''
       ''Too many submissions have been received. Try again after the Retry-After interval.'' rid"

definition submissionRateLimit :: "http_deps \<Rightarrow> instant \<Rightarrow> http_request \<Rightarrow> server handler \<Rightarrow> server handler" where
  "submissionRateLimit D now r next rid h s =
     (case allow (hd_netip D) (clientIP (hq_header r ''Fly-Client-IP'') (hq_RemoteAddr r)) now (sv_limiter s) of
        ((ok, retry), l') \<Rightarrow>
          (let s' = s\<lparr>sv_limiter := l'\<rparr> in
           if \<not> ok then (Answer (writeRateLimited r retry rid h), count_effects [IncRateLimit ''submissions'', IncSubmissions ''rate_limited''] s')
           else next rid h s'))"

definition pendingQueueGuard :: "http_deps \<Rightarrow> call_env \<Rightarrow> http_request \<Rightarrow> server handler \<Rightarrow> server handler" where
  "pendingQueueGuard D E r next rid h s =
     (case full (\<lambda>lq. List_op (hd_codec D) E lq (sv_db s)) (ce_now E) (sv_queue s) of
        (isFull, q') \<Rightarrow>
          (let s' = s\<lparr>sv_queue := q'\<rparr> in
           if \<not> isFull then next rid h s'
           else (Answer (writeProblem (hset ''Retry-After'' (itoa (trunc_seconds rateLimitWindow)) h) r 429 problemRateLimited
                   ''Too Many Requests'' ''The moderation queue is full. Try again after the Retry-After interval.'' rid),
                 count_effects [IncRateLimit ''submissions'', IncSubmissions ''rate_limited''] s')))"

section \<open>Handlers as steps of the server\<close>

fun apply_effect :: "http_config \<Rightarrow> request_env \<Rightarrow> effect \<Rightarrow> server \<Rightarrow> server" where
  "apply_effect cfg E (UsageIncrement kind key) s =
     s\<lparr>sv_usage := map_option (Increment (ce_now (re_call E)) kind key) (sv_usage s)\<rparr>"
| "apply_effect cfg E (CoverageEmpty kind country input) s =
     s\<lparr>sv_coverage := map_option (RecordEmpty (cf_sampleRate cfg) (re_sample E) kind country input) (sv_coverage s)\<rparr>"
| "apply_effect cfg E e s = s\<lparr>sv_metrics := map_option (apply_metric e) (sv_metrics s)\<rparr>"

definition serve_read :: "http_config \<Rightarrow> request_env \<Rightarrow> (string \<Rightarrow> headers \<Rightarrow> server \<Rightarrow> http_response \<times> effect list) \<Rightarrow>
    server handler" where
  "serve_read cfg E f rid h s = (let (resp, fx) = f rid h s in (Answer resp, foldl (\<lambda>s e. apply_effect cfg E e s) s fx))"

definition notFoundHandler :: "http_request \<Rightarrow> 's handler" where
  "notFoundHandler r rid h s =
     (Answer (writeProblem h r 404 problemNotFound ''Not Found'' ''The requested resource does not exist.'' rid), s)"

definition methodNotAllowedHandler :: "http_request \<Rightarrow> 's handler" where
  "methodNotAllowedHandler r rid h s =
     (Answer (writeProblem h r 405 problemNotFound ''Method Not Allowed''
        ''This method is not supported for the requested resource.'' rid), s)"

definition serve_create :: "http_deps \<Rightarrow> http_config \<Rightarrow> request_env \<Rightarrow> http_request \<Rightarrow> server handler" where
  "serve_create D cfg E r rid h s =
     (let ((resp, fx), db') = createSubmissionHandler (hd_unicode D) (hd_url D) (hd_bodies D) (hd_codec D) (re_call E)
            (cf_Store cfg) rid h r (sv_db s)
      in (Answer resp, count_effects fx (s\<lparr>sv_db := db'\<rparr>)))"

definition serve_approve :: "http_deps \<Rightarrow> request_env \<Rightarrow> string \<Rightarrow> http_request \<Rightarrow> server handler" where
  "serve_approve D E idParam r rid h s =
     (let ((resp, fx), enq', db') = approveSubmissionHandler (hd_errtext D) (hd_bodies D) (hd_codec D) (re_call E) idParam
            rid h r (sv_enqueuer s) (sv_db s)
      in (Answer resp, count_effects fx (s\<lparr>sv_db := db', sv_enqueuer := enq'\<rparr>)))"

definition serve_reject :: "http_deps \<Rightarrow> request_env \<Rightarrow> string \<Rightarrow> http_request \<Rightarrow> server handler" where
  "serve_reject D E idParam r rid h s =
     (let ((resp, fx), db') = rejectSubmissionHandler (hd_bodies D) (hd_codec D) (re_call E) idParam rid h r (sv_db s)
      in (Answer resp, count_effects fx (s\<lparr>sv_db := db'\<rparr>)))"

section \<open>The routers\<close>

definition getHead :: "string \<Rightarrow> route_entry list" where
  "getHead pat = [Endpoint ''GET'' pat, Endpoint ''HEAD'' pat]"

text \<open>A router answers by the route chi finds among its entries.\<close>

definition routed :: "http_deps \<Rightarrow> http_request \<Rightarrow> route_entry list \<Rightarrow> string \<Rightarrow>
    (route_entry \<Rightarrow> (string \<Rightarrow> string) \<Rightarrow> string \<Rightarrow> 's handler) \<Rightarrow> 's handler" where
  "routed D r entries path go =
     (case hd_chi D entries (hq_Method r) path of
        NoRoute \<Rightarrow> notFoundHandler r
      | NoMethod \<Rightarrow> methodNotAllowedHandler r
      | FoundRoute e params rest \<Rightarrow> if e \<in> set entries then go e params rest else notFoundHandler r)"

definition adminEntries :: "http_config \<Rightarrow> route_entry list" where
  "adminEntries cfg =
     [Endpoint ''GET'' ''/submissions'', Endpoint ''POST'' ''/submissions/{id}/approve'', Endpoint ''POST'' ''/submissions/{id}/reject''] @
     (if cf_CoverageGaps cfg then [Endpoint ''GET'' ''/coverage-gaps''] else []) @
     (if cf_UsageCounts cfg then [Endpoint ''GET'' ''/usage''] else [])"

definition adminRouter :: "http_deps \<Rightarrow> http_config \<Rightarrow> request_env \<Rightarrow> http_request \<Rightarrow> string \<Rightarrow> server handler" where
  "adminRouter D cfg E r path =
     bearerAuthMiddleware D (cf_AdminToken cfg) r
       (routed D r (adminEntries cfg) path (\<lambda>e params rest.
          if e = Endpoint ''GET'' ''/submissions'' then
            serve_read cfg E (\<lambda>rid h s. listSubmissionsHandler (hd_bodies D) (hd_codec D) (re_call E) rid h r (sv_db s))
          else if e = Endpoint ''POST'' ''/submissions/{id}/approve'' then serve_approve D E (params ''id'') r
          else if e = Endpoint ''POST'' ''/submissions/{id}/reject'' then serve_reject D E (params ''id'') r
          else if e = Endpoint ''GET'' ''/coverage-gaps'' then
            serve_read cfg E (\<lambda>rid h s. listCoverageGapsHandler (hd_codec D) (re_call E) rid h r (sv_gaps s))
          else serve_read cfg E (\<lambda>rid h s. listUsageHandler (re_call E) rid h r (sv_table s))))"

definition apiEntries :: "http_config \<Rightarrow> route_entry list" where
  "apiEntries cfg =
     getHead ''/openapi.yaml'' @ (if cf_Submissions cfg then [MountAt ''/admin''] else []) @
     getHead ''/lookup'' @ getHead ''/regions'' @ getHead ''/regions/search'' @ getHead ''/regions/{slug}'' @
     getHead ''/orgs/{slug}'' @ getHead ''/recent'' @ getHead ''/stats'' @
     (if cf_Submissions cfg then [Endpoint ''POST'' ''/submissions''] else [])"

text \<open>The endpoints of the group behind the client secret.\<close>

definition dataEndpoint :: "http_deps \<Rightarrow> http_config \<Rightarrow> request_env \<Rightarrow> http_request \<Rightarrow> string \<Rightarrow> (string \<Rightarrow> string) \<Rightarrow>
    server handler" where
  "dataEndpoint D cfg E r pat params =
     clientSecretMiddleware D (cf_ClientSecret cfg) r
       (if pat = ''/lookup'' then serve_read cfg E (\<lambda>rid h s. lookupHandler (hd_unicode D) (cf_Store cfg) rid h r)
        else if pat = ''/regions'' then serve_read cfg E (\<lambda>rid h s. listRegionsHandler (cf_Store cfg) rid h r)
        else if pat = ''/regions/search'' then serve_read cfg E (\<lambda>rid h s. searchRegionsHandler (cf_Store cfg) rid h r)
        else if pat = ''/regions/{slug}'' then
          serve_read cfg E (\<lambda>rid h s. getRegionHandler (hd_ranges D) (cf_Store cfg) (params ''slug'') rid h r)
        else if pat = ''/orgs/{slug}'' then serve_read cfg E (\<lambda>rid h s. getOrgHandler (cf_Store cfg) (params ''slug'') rid h r)
        else if pat = ''/recent'' then serve_read cfg E (\<lambda>rid h s. recentHandler (cf_Store cfg) rid h r)
        else if pat = ''/stats'' then serve_read cfg E (\<lambda>rid h s. statsHandler (cf_Store cfg) rid h r)
        else
          pendingQueueGuard D (re_call E) r
            (submissionRateLimit D (ce_now (re_call E)) r (serve_create D cfg E r)))"

definition apiRouter :: "http_deps \<Rightarrow> http_config \<Rightarrow> request_env \<Rightarrow> http_request \<Rightarrow> string \<Rightarrow> server handler" where
  "apiRouter D cfg E r path =
     odblHeadersMiddleware
       (routed D r (apiEntries cfg) path (\<lambda>e params rest.
          case e of
            MountAt _ \<Rightarrow> adminRouter D cfg E r rest
          | Endpoint _ pat \<Rightarrow>
              if pat = ''/openapi.yaml'' then serve_read cfg E (\<lambda>rid h s. openapiHandler h)
              else dataEndpoint D cfg E r pat params))"

definition rootEntries :: "http_config \<Rightarrow> route_entry list" where
  "rootEntries cfg =
     getHead ''/healthz'' @ getHead ''/readyz'' @
     [MountAt (''/api/'' @ (if cf_APIVersion cfg = [] then ''v1'' else cf_APIVersion cfg))]"

definition rootRouter :: "http_deps \<Rightarrow> http_config \<Rightarrow> request_env \<Rightarrow> http_request \<Rightarrow> server handler" where
  "rootRouter D cfg E r =
     routed D r (rootEntries cfg) (hq_Path r) (\<lambda>e params rest.
       case e of
         MountAt _ \<Rightarrow> apiRouter D cfg E r rest
       | Endpoint _ pat \<Rightarrow>
           if pat = ''/healthz'' then serve_read cfg E (\<lambda>rid h s. healthHandler h)
           else serve_read cfg E (\<lambda>rid h s. readyHandler (if cf_Submissions cfg then re_ping E else None) h))"

text \<open>The stack around any handler, outermost first; then the handler \<open>New\<close> returns.\<close>

definition stack :: "http_deps \<Rightarrow> http_config \<Rightarrow> request_env \<Rightarrow> http_request \<Rightarrow> server handler \<Rightarrow> server handler" where
  "stack D cfg E r next =
     securityHeadersMiddleware (requestIDMiddleware (re_newid E) r
       ((if cf_CORSOrigins cfg = [] then (\<lambda>x. x) else corsMiddleware (cf_CORSOrigins cfg) r)
         (metricsMiddleware D r (recovererMiddleware r next))))"

definition handle :: "http_deps \<Rightarrow> http_config \<Rightarrow> request_env \<Rightarrow> http_request \<Rightarrow> server \<Rightarrow> outcome \<times> server" where
  "handle D cfg E r s = stack D cfg E r (rootRouter D cfg E r) [] [] s"

definition new_server :: "http_config \<Rightarrow> sub_db \<Rightarrow> enqueuer \<Rightarrow> recorder option \<Rightarrow> usage_table \<Rightarrow> coverage_state option \<Rightarrow> gap_db \<Rightarrow>
    metrics option \<Rightarrow> server" where
  "new_server cfg db enq u t cov gaps m =
     \<lparr>sv_db = db, sv_limiter = newIPRateLimiter (cf_RatePerHour cfg) rateLimitWindow,
      sv_queue = newPendingQueue maxPendingSubmissions, sv_enqueuer = enq, sv_usage = u, sv_table = t, sv_coverage = cov,
      sv_gaps = gaps, sv_metrics = m\<rparr>"

end
