(* ===== verification/Http_Safety.thy ===== *)
theory Http_Safety
  imports Http_Router "HOL-Library.Sublist"
begin

text \<open>
  What the server keeps. \<open>request_contract\<close> is the interface between the routers and a property of one
  request: it lists the ways a handler may end, and shows that a property closed under them holds of the
  root router. It is interpreted for the form of responses, for what a request may change, for the
  limiter and for the counters.
\<close>

section \<open>Answers that create nothing\<close>

lemma not_created_limit: "parseLimitParam h r m rid = Inl resp \<Longrightarrow> hs_status resp \<noteq> 201"
  using parseLimitParam_Inl by fastforce

lemma not_created_params:
  "parseDayParam h r raw name rid = Inl resp \<Longrightarrow> hs_status resp \<noteq> 201"
  "parseUsageKindParam h r raw rid = Inl resp \<Longrightarrow> hs_status resp \<noteq> 201"
  "parseUsageGroupByParam h r raw rid = Inl resp \<Longrightarrow> hs_status resp \<noteq> 201"
  by (auto simp: parseDayParam_def parseUsageKindParam_def parseUsageGroupByParam_def Let_def split: if_splits)

lemma not_created_reads:
  "hs_status (fst (lookupHandler U st rid h r)) \<noteq> 201"
  "hs_status (fst (listRegionsHandler st rid h r)) \<noteq> 201"
  "hs_status (fst (searchRegionsHandler st rid h r)) \<noteq> 201"
  "hs_status (fst (getRegionHandler rng st slug rid h r)) \<noteq> 201"
  "hs_status (fst (getOrgHandler st slug rid h r)) \<noteq> 201"
  "hs_status (fst (recentHandler st rid h r)) \<noteq> 201"
  "hs_status (fst (statsHandler st rid h r)) \<noteq> 201"
  "hs_status (fst (healthHandler h)) \<noteq> 201"
  "hs_status (fst (readyHandler ping h)) \<noteq> 201"
  "hs_status (fst (openapiHandler h)) \<noteq> 201"
proof -
  show "hs_status (fst (lookupHandler U st rid h r)) \<noteq> 201"
    by (simp add: lookupHandler_def Let_def split: sum.split)
  show "hs_status (fst (listRegionsHandler st rid h r)) \<noteq> 201"
    by (simp add: listRegionsHandler_def split: sum.split)
  show "hs_status (fst (searchRegionsHandler st rid h r)) \<noteq> 201"
    by (simp add: searchRegionsHandler_def Let_def not_created_limit split: sum.split)
  show "hs_status (fst (getRegionHandler rng st slug rid h r)) \<noteq> 201"
    by (simp add: getRegionHandler_def Let_def split: sum.split option.split)
  show "hs_status (fst (getOrgHandler st slug rid h r)) \<noteq> 201"
    by (simp add: getOrgHandler_def Let_def split: sum.split)
  show "hs_status (fst (recentHandler st rid h r)) \<noteq> 201"
    by (simp add: recentHandler_def split: sum.split)
  show "hs_status (fst (statsHandler st rid h r)) \<noteq> 201"
    by (simp add: statsHandler_def split: sum.split)
  show "hs_status (fst (healthHandler h)) \<noteq> 201" by (simp add: healthHandler_def plainText_def)
  show "hs_status (fst (readyHandler ping h)) \<noteq> 201"
    by (simp add: readyHandler_def plainText_def split: option.split sum.split)
  show "hs_status (fst (openapiHandler h)) \<noteq> 201" by (simp add: openapiHandler_def)
qed

lemma not_created_admin:
  "hs_status (fst (listSubmissionsHandler B J E rid h r db)) \<noteq> 201"
  "hs_status (fst (fst (approveSubmissionHandler T B J E idParam rid h r enq db))) \<noteq> 201"
  "hs_status (fst (fst (rejectSubmissionHandler B J E idParam rid h r db))) \<noteq> 201"
  "hs_status (fst (listUsageHandler E rid h r t)) \<noteq> 201"
  "hs_status (fst (listCoverageGapsHandler J E rid h r gdb)) \<noteq> 201"
proof -
  have id: "readSubmissionID B h r idParam rid = Inl resp \<Longrightarrow> hs_status resp \<noteq> 201" for resp
    by (auto simp: readSubmissionID_def Let_def split: if_splits)
  have err: "hs_status (writeSubmissionStateErr h r e rid) \<noteq> 201" for e
    by (simp add: writeSubmissionStateErr_def)
  show "hs_status (fst (listSubmissionsHandler B J E rid h r db)) \<noteq> 201"
    unfolding listSubmissionsHandler_def Let_def if_distrib [of fst] sum.case_distrib [of fst] fst_conv
    by (auto simp: not_created_limit simp del: insert_iff split: sum.split)
  show "hs_status (fst (fst (approveSubmissionHandler T B J E idParam rid h r enq db))) \<noteq> 201"
    by (simp add: approveSubmissionHandler_def Let_def id err split: sum.split prod.split)
  show "hs_status (fst (fst (rejectSubmissionHandler B J E idParam rid h r db))) \<noteq> 201"
    by (simp add: rejectSubmissionHandler_def Let_def id err split: sum.split prod.split)
  show "hs_status (fst (listUsageHandler E rid h r t)) \<noteq> 201"
    by (simp add: listUsageHandler_def not_created_params not_created_limit split: sum.split)
  show "hs_status (fst (listCoverageGapsHandler J E rid h r gdb)) \<noteq> 201"
    by (simp add: listCoverageGapsHandler_def not_created_limit split: sum.split)
qed

lemmas read_facts = good_reads good_probes good_submissions(2) good_admin_reads not_created_reads not_created_admin(1,4,5)
  effects_reads effects_submissions(2,5,6)

section \<open>The contract of a request\<close>

definition authorized :: "http_deps \<Rightarrow> http_config \<Rightarrow> http_request \<Rightarrow> bool" where
  "authorized D cfg r \<longleftrightarrow> cf_AdminToken cfg \<noteq> [] \<and>
     hd_sha256 D (extractBearerToken (hd_unicode D) (hq_header r ''Authorization'')) = hd_sha256 D (cf_AdminToken cfg)"

text \<open>chi finds an endpoint only for its own method.\<close>

definition chi_ok :: "http_deps \<Rightarrow> bool" where
  "chi_ok D \<longleftrightarrow> (\<forall>es m path m' pat params rest. hd_chi D es m path = FoundRoute (Endpoint m' pat) params rest \<longrightarrow> m' = m)"

definition effects_on :: "http_config \<Rightarrow> request_env \<Rightarrow> effect list \<Rightarrow> server \<Rightarrow> server" where
  "effects_on cfg E fx s = foldl (\<lambda>s e. apply_effect cfg E e s) s fx"

abbreviation post_submission :: "http_deps \<Rightarrow> http_config \<Rightarrow> request_env \<Rightarrow> http_request \<Rightarrow> server handler" where
  "post_submission D cfg E r \<equiv>
     pendingQueueGuard D (re_call E) r (submissionRateLimit D (ce_now (re_call E)) r (serve_create D cfg E r))"

locale request_contract =
  fixes D :: http_deps and cfg :: http_config and E :: request_env and r :: http_request
    and P :: "string \<Rightarrow> headers \<Rightarrow> server \<Rightarrow> outcome \<times> server \<Rightarrow> bool"
  assumes reading: "good_response r rid h resp \<Longrightarrow> hs_status resp \<noteq> 201 \<Longrightarrow> effects_ok fx \<Longrightarrow>
      P rid h s (Answer resp, effects_on cfg E fx s)"
    and odbl: "P rid (hset ''X-Data-Attribution'' v (hset ''X-Data-License'' w h)) s out \<Longrightarrow> P rid h s out"
    and posting: "(chi_ok D \<longrightarrow> hq_Method r = ''POST'') \<Longrightarrow> P rid h s (post_submission D cfg E r rid h s)"
    and approving: "(chi_ok D \<longrightarrow> hq_Method r = ''POST'') \<Longrightarrow> authorized D cfg r \<Longrightarrow> P rid h s (serve_approve D E i r rid h s)"
    and rejecting: "(chi_ok D \<longrightarrow> hq_Method r = ''POST'') \<Longrightarrow> authorized D cfg r \<Longrightarrow> P rid h s (serve_reject D E i r rid h s)"
begin

lemma refusal: "good_response r rid h resp \<Longrightarrow> hs_status resp \<noteq> 201 \<Longrightarrow> P rid h s (Answer resp, s)"
  using reading [of rid h resp "[]" s] by (simp add: effects_on_def)

lemma read:
  assumes "\<And>rid h s. good_response r rid h (fst (f rid h s))" "\<And>rid h s. hs_status (fst (f rid h s)) \<noteq> 201"
    "\<And>rid h s. effects_ok (snd (f rid h s))"
  shows "P rid h s (serve_read cfg E f rid h s)"
  using reading [OF assms(1,2,3), of rid h s s] by (simp add: serve_read_def effects_on_def split_beta)

lemma routed:
  assumes "\<And>e params rest. e \<in> set es \<Longrightarrow> hd_chi D es (hq_Method r) path = FoundRoute e params rest \<Longrightarrow>
      P rid h s (go e params rest rid h s)"
  shows "P rid h s (routed D r es path go rid h s)"
  using assms by (auto simp: routed_def notFoundHandler_def methodNotAllowedHandler_def intro!: refusal split: found_route.split)

lemma post_method:
  "hd_chi D es (hq_Method r) path = FoundRoute (Endpoint m pat) params rest \<Longrightarrow> chi_ok D \<Longrightarrow> hq_Method r = m"
  unfolding chi_ok_def by metis

lemma admin: "P rid h s (adminRouter D cfg E r path rid h s)"
proof (cases "authorized D cfg r")
  case False
  then show ?thesis
    by (auto simp: adminRouter_def bearerAuthMiddleware_def authorized_def unauthorized_def intro!: refusal)
next
  case True
  then have auth: "adminRouter D cfg E r path rid h s = routed D r (adminEntries cfg) path (\<lambda>e params rest.
      if e = Endpoint ''GET'' ''/submissions'' then
        serve_read cfg E (\<lambda>rid h s. listSubmissionsHandler (hd_bodies D) (hd_codec D) (re_call E) rid h r (sv_db s))
      else if e = Endpoint ''POST'' ''/submissions/{id}/approve'' then serve_approve D E (params ''id'') r
      else if e = Endpoint ''POST'' ''/submissions/{id}/reject'' then serve_reject D E (params ''id'') r
      else if e = Endpoint ''GET'' ''/coverage-gaps'' then
        serve_read cfg E (\<lambda>rid h s. listCoverageGapsHandler (hd_codec D) (re_call E) rid h r (sv_gaps s))
      else serve_read cfg E (\<lambda>rid h s. listUsageHandler (re_call E) rid h r (sv_table s))) rid h s"
    by (simp add: adminRouter_def bearerAuthMiddleware_def authorized_def)
  show ?thesis
    unfolding auth
  proof (rule routed)
    fix e params rest
    assume found: "hd_chi D (adminEntries cfg) (hq_Method r) path = FoundRoute e params rest"
    have post: "chi_ok D \<longrightarrow> hq_Method r = ''POST''" if "e = Endpoint ''POST'' pat" for pat
      using found that post_method by blast
    have app: "P rid h s (serve_approve D E (params ''id'') r rid h s)" if "e = Endpoint ''POST'' ''/submissions/{id}/approve''"
      using that post True by (intro approving)
    have rej: "P rid h s (serve_reject D E (params ''id'') r rid h s)" if "e = Endpoint ''POST'' ''/submissions/{id}/reject''"
      using that post True by (intro rejecting)
    show "P rid h s ((if e = Endpoint ''GET'' ''/submissions'' then
          serve_read cfg E (\<lambda>rid h s. listSubmissionsHandler (hd_bodies D) (hd_codec D) (re_call E) rid h r (sv_db s))
        else if e = Endpoint ''POST'' ''/submissions/{id}/approve'' then serve_approve D E (params ''id'') r
        else if e = Endpoint ''POST'' ''/submissions/{id}/reject'' then serve_reject D E (params ''id'') r
        else if e = Endpoint ''GET'' ''/coverage-gaps'' then
          serve_read cfg E (\<lambda>rid h s. listCoverageGapsHandler (hd_codec D) (re_call E) rid h r (sv_gaps s))
        else serve_read cfg E (\<lambda>rid h s. listUsageHandler (re_call E) rid h r (sv_table s))) rid h s)"
      using app rej by (simp add: read read_facts)
  qed
qed

lemma data:
  assumes "pat \<notin> {''/lookup'', ''/regions'', ''/regions/search'', ''/regions/{slug}'', ''/orgs/{slug}'', ''/recent'', ''/stats''} \<Longrightarrow>
    chi_ok D \<longrightarrow> hq_Method r = ''POST''"
  shows "P rid h s (dataEndpoint D cfg E r pat params rid h s)"
proof -
  have reads: "P rid h s (serve_read cfg E (\<lambda>rid h s. lookupHandler (hd_unicode D) (cf_Store cfg) rid h r) rid h s)"
    "P rid h s (serve_read cfg E (\<lambda>rid h s. listRegionsHandler (cf_Store cfg) rid h r) rid h s)"
    "P rid h s (serve_read cfg E (\<lambda>rid h s. searchRegionsHandler (cf_Store cfg) rid h r) rid h s)"
    "P rid h s (serve_read cfg E (\<lambda>rid h s. getRegionHandler (hd_ranges D) (cf_Store cfg) (params ''slug'') rid h r) rid h s)"
    "P rid h s (serve_read cfg E (\<lambda>rid h s. getOrgHandler (cf_Store cfg) (params ''slug'') rid h r) rid h s)"
    "P rid h s (serve_read cfg E (\<lambda>rid h s. recentHandler (cf_Store cfg) rid h r) rid h s)"
    "P rid h s (serve_read cfg E (\<lambda>rid h s. statsHandler (cf_Store cfg) rid h r) rid h s)"
    by (simp_all add: read read_facts)
  have refuse: "P rid h s (Answer (unauthorized r rid h), s)"
    by (rule refusal) (simp_all add: unauthorized_def)
  have post: "P rid h s (post_submission D cfg E r rid h s)"
    if "pat \<notin> {''/lookup'', ''/regions'', ''/regions/search'', ''/regions/{slug}'', ''/orgs/{slug}'', ''/recent'', ''/stats''}"
    by (rule posting [OF assms [OF that]])
  show ?thesis
    unfolding dataEndpoint_def clientSecretMiddleware_def
    by (auto simp: refuse reads post)
qed

lemma api: "P rid h s (apiRouter D cfg E r path rid h s)"
proof -
  let ?h = "hset ''X-Data-Attribution'' ''https://urbanistatlas.com'' (hset ''X-Data-License'' ''ODbL-1.0'' h)"
  have "P rid ?h s (apiRouter D cfg E r path rid h s)"
    unfolding apiRouter_def odblHeadersMiddleware_def
  proof (rule routed)
    fix e params rest
    assume e: "e \<in> set (apiEntries cfg)" and found: "hd_chi D (apiEntries cfg) (hq_Method r) path = FoundRoute e params rest"
    have spec: "P rid ?h s (serve_read cfg E (\<lambda>rid h s. openapiHandler h) rid ?h s)"
      by (simp add: read read_facts)
    have data': "P rid ?h s (dataEndpoint D cfg E r pat params rid ?h s)" if "e = Endpoint m pat" "pat \<noteq> ''/openapi.yaml''" for m pat
    proof (rule data)
      assume "pat \<notin> {''/lookup'', ''/regions'', ''/regions/search'', ''/regions/{slug}'', ''/orgs/{slug}'', ''/recent'', ''/stats''}"
      then have "m = ''POST''" using e that by (auto simp: apiEntries_def getHead_def split: if_splits)
      then show "chi_ok D \<longrightarrow> hq_Method r = ''POST''" using found that post_method by blast
    qed
    show "P rid ?h s ((case e of MountAt _ \<Rightarrow> adminRouter D cfg E r rest
        | Endpoint _ pat \<Rightarrow> if pat = ''/openapi.yaml'' then serve_read cfg E (\<lambda>rid h s. openapiHandler h)
            else dataEndpoint D cfg E r pat params) rid ?h s)"
      using spec data' admin by (cases e) auto
  qed
  then show ?thesis by (rule odbl)
qed

lemma root: "P rid h s (rootRouter D cfg E r rid h s)"
  unfolding rootRouter_def
proof (rule routed)
  fix e params rest
  show "P rid h s ((case e of MountAt _ \<Rightarrow> apiRouter D cfg E r rest
      | Endpoint _ pat \<Rightarrow> if pat = ''/healthz'' then serve_read cfg E (\<lambda>rid h s. healthHandler h)
          else serve_read cfg E (\<lambda>rid h s. readyHandler (if cf_Submissions cfg then re_ping E else None) h)) rid h s)"
    using api by (cases e) (simp_all add: read read_facts)
qed

end

section \<open>The form of every answer\<close>

definition answers :: "http_request \<Rightarrow> string \<Rightarrow> headers \<Rightarrow> server \<Rightarrow> outcome \<times> server \<Rightarrow> bool" where
  "answers r rid h s out \<longleftrightarrow> (\<exists>resp. fst out = Answer resp \<and> good_response r rid h resp)"

lemma good_retry [simp]:
  "400 \<le> status \<Longrightarrow> good_response r rid h (writeProblem (hset ''Retry-After'' v h) r status t title detail rid)"
  by (auto simp: good_response_def keeps_headers_def writeProblem_def writeProblemWithErrors_def response_ok_def)

lemma good_odbl:
  assumes "good_response r rid (hset ''X-Data-Attribution'' v (hset ''X-Data-License'' w h)) resp"
  shows "good_response r rid h resp"
proof -
  have "mget_list (hset ''X-Data-Attribution'' v (hset ''X-Data-License'' w h)) k = mget_list h k"
    if "k \<notin> handler_headers" for k
    using that unfolding mget_list_hset handler_headers_def insert_iff by metis
  then show ?thesis using assms unfolding good_response_def keeps_headers_def by metis
qed

lemma post_outcome:
  "post_submission D cfg E r rid h s =
     (let (isFull, q') = full (\<lambda>lq. List_op (hd_codec D) (re_call E) lq (sv_db s)) (ce_now (re_call E)) (sv_queue s) in
      if isFull then
        (Answer (writeProblem (hset ''Retry-After'' (itoa (trunc_seconds rateLimitWindow)) h) r 429 problemRateLimited
           ''Too Many Requests'' ''The moderation queue is full. Try again after the Retry-After interval.'' rid),
         count_effects [IncRateLimit ''submissions'', IncSubmissions ''rate_limited''] (s\<lparr>sv_queue := q'\<rparr>))
      else
        (let ((ok, retry), l') = allow (hd_netip D) (clientIP (hq_header r ''Fly-Client-IP'') (hq_RemoteAddr r))
               (ce_now (re_call E)) (sv_limiter s) in
         if \<not> ok then
           (Answer (writeRateLimited r retry rid h),
            count_effects [IncRateLimit ''submissions'', IncSubmissions ''rate_limited''] (s\<lparr>sv_queue := q', sv_limiter := l'\<rparr>))
         else
           (let ((resp, fx), db') = createSubmissionHandler (hd_unicode D) (hd_url D) (hd_bodies D) (hd_codec D) (re_call E)
                  (cf_Store cfg) rid h r (sv_db s)
            in (Answer resp, count_effects fx (s\<lparr>sv_queue := q', sv_limiter := l', sv_db := db'\<rparr>)))))"
  by (simp add: pendingQueueGuard_def submissionRateLimit_def serve_create_def Let_def split: prod.split)

interpretation form: request_contract D cfg E r "answers r" for D cfg E r
proof
  fix rid h s i
  show "answers r rid h s (post_submission D cfg E r rid h s)"
    unfolding post_outcome
    using good_submissions(1) [of r rid h "hd_unicode D" "hd_url D" "hd_bodies D" "hd_codec D" "re_call E" "cf_Store cfg" "sv_db s"]
    by (auto simp: answers_def Let_def writeRateLimited_def split: prod.split)
  show "answers r rid h s (serve_approve D E i r rid h s)"
    using good_submissions(3) [of r rid h "hd_errtext D" "hd_bodies D" "hd_codec D" "re_call E" i "sv_enqueuer s" "sv_db s"]
    by (auto simp: answers_def serve_approve_def Let_def split: prod.split)
  show "answers r rid h s (serve_reject D E i r rid h s)"
    using good_submissions(4) [of r rid h "hd_bodies D" "hd_codec D" "re_call E" i "sv_db s"]
    by (auto simp: answers_def serve_reject_def Let_def split: prod.split)
  fix resp fx v w out
  show "good_response r rid h resp \<Longrightarrow> answers r rid h s (Answer resp, effects_on cfg E fx s)"
    by (simp add: answers_def)
  show "answers r rid (hset ''X-Data-Attribution'' v (hset ''X-Data-License'' w h)) s out \<Longrightarrow> answers r rid h s out"
    unfolding answers_def using good_odbl by blast
qed

section \<open>What a request may change\<close>

definition untouched :: "server \<Rightarrow> server \<Rightarrow> bool" where
  "untouched s s' \<longleftrightarrow> sv_db s' = sv_db s \<and> sv_limiter s' = sv_limiter s \<and> sv_queue s' = sv_queue s \<and>
     sv_enqueuer s' = sv_enqueuer s \<and> sv_table s' = sv_table s \<and> sv_gaps s' = sv_gaps s"

lemma effects_untouched: "untouched s (effects_on cfg E fx s)" "untouched s (count_effects fx s)"
proof -
  have one: "untouched s0 s \<Longrightarrow> untouched s0 (apply_effect cfg E e s)" for s0 s e
    by (cases e) (simp_all add: untouched_def)
  have "untouched s0 s \<Longrightarrow> untouched s0 (effects_on cfg E fx s)" for s0
    by (induction fx arbitrary: s) (auto simp: effects_on_def one)
  then show "untouched s (effects_on cfg E fx s)" by (simp add: untouched_def)
  show "untouched s (count_effects fx s)" by (simp add: untouched_def count_effects_def)
qed

lemma count_effects_sel [simp]:
  "sv_db (count_effects fx s) = sv_db s" "sv_limiter (count_effects fx s) = sv_limiter s"
  "sv_queue (count_effects fx s) = sv_queue s" "sv_enqueuer (count_effects fx s) = sv_enqueuer s"
  "sv_table (count_effects fx s) = sv_table s" "sv_gaps (count_effects fx s) = sv_gaps s"
  by (simp_all add: count_effects_def)

definition changes_guarded :: "http_deps \<Rightarrow> http_config \<Rightarrow> request_env \<Rightarrow> http_request \<Rightarrow> string \<Rightarrow> headers \<Rightarrow> server \<Rightarrow>
    outcome \<times> server \<Rightarrow> bool" where
  "changes_guarded D cfg E r rid h s out \<longleftrightarrow> untouched s (snd out) \<or>
     (chi_ok D \<longrightarrow> hq_Method r = ''POST'') \<and>
     (authorized D cfg r \<or> sv_enqueuer (snd out) = sv_enqueuer s \<and>
        (\<exists>h'. sv_db (snd out) \<in> {sv_db s, snd (createSubmissionHandler (hd_unicode D) (hd_url D) (hd_bodies D) (hd_codec D)
           (re_call E) (cf_Store cfg) rid h' r (sv_db s))}))"

interpretation guard: request_contract D cfg E r "changes_guarded D cfg E r" for D cfg E r
proof
  fix rid h s
  assume post: "chi_ok D \<longrightarrow> hq_Method r = ''POST''"
  show "changes_guarded D cfg E r rid h s (post_submission D cfg E r rid h s)"
  proof -
    obtain resp fx db' where create: "createSubmissionHandler (hd_unicode D) (hd_url D) (hd_bodies D) (hd_codec D) (re_call E)
        (cf_Store cfg) rid h r (sv_db s) = ((resp, fx), db')" by (metis prod.exhaust)
    have "sv_db (snd (post_submission D cfg E r rid h s)) \<in> {sv_db s, db'} \<and>
        sv_enqueuer (snd (post_submission D cfg E r rid h s)) = sv_enqueuer s"
      unfolding post_outcome create by (simp add: Let_def split: prod.split)
    with post create show ?thesis unfolding changes_guarded_def by (metis snd_conv)
  qed
qed (auto simp: changes_guarded_def effects_untouched)

section \<open>What a request asks of the limiter\<close>

definition creates :: "outcome \<Rightarrow> bool" where
  "creates out \<longleftrightarrow> (\<exists>resp. out = Answer resp \<and> hs_status resp = 201)"

definition limited :: "http_deps \<Rightarrow> request_env \<Rightarrow> http_request \<Rightarrow> string \<Rightarrow> headers \<Rightarrow> server \<Rightarrow> outcome \<times> server \<Rightarrow> bool" where
  "limited D E r rid h s out \<longleftrightarrow>
     sv_limiter (snd out) = sv_limiter s \<and> \<not> creates (fst out) \<or>
     (\<exists>ok retry. allow (hd_netip D) (clientIP (hq_header r ''Fly-Client-IP'') (hq_RemoteAddr r)) (ce_now (re_call E)) (sv_limiter s) =
          ((ok, retry), sv_limiter (snd out)) \<and> (creates (fst out) \<longrightarrow> ok))"

interpretation limit: request_contract D cfg E r "limited D E r" for D cfg E r
proof
  fix rid h s i
  show "limited D E r rid h s (post_submission D cfg E r rid h s)"
    unfolding limited_def post_outcome by (auto simp: Let_def creates_def writeRateLimited_def split: prod.split)
  show "limited D E r rid h s (serve_approve D E i r rid h s)"
    using not_created_admin(2) [of "hd_errtext D" "hd_bodies D" "hd_codec D" "re_call E" i rid h r "sv_enqueuer s" "sv_db s"]
    by (auto simp: limited_def creates_def serve_approve_def Let_def split: prod.split)
  show "limited D E r rid h s (serve_reject D E i r rid h s)"
    using not_created_admin(3) [of "hd_bodies D" "hd_codec D" "re_call E" i rid h r "sv_db s"]
    by (auto simp: limited_def creates_def serve_reject_def Let_def split: prod.split)
  fix resp fx
  show "hs_status resp \<noteq> 201 \<Longrightarrow> limited D E r rid h s (Answer resp, effects_on cfg E fx s)"
    using effects_untouched(1) [of s cfg E fx] by (simp add: limited_def creates_def untouched_def)
qed (simp_all add: limited_def)

section \<open>What a request does to the counters\<close>

definition counters_ok :: "server \<Rightarrow> bool" where
  "counters_ok s \<longleftrightarrow> (case sv_metrics s of None \<Rightarrow> True | Some m \<Rightarrow> metrics_inv m)"

definition counts :: "string \<Rightarrow> headers \<Rightarrow> server \<Rightarrow> outcome \<times> server \<Rightarrow> bool" where
  "counts rid h s out \<longleftrightarrow> (counters_ok s \<longrightarrow> counters_ok (snd out))"

lemma counters_ok_count_effects: "effects_ok fx \<Longrightarrow> counters_ok s \<Longrightarrow> counters_ok (count_effects fx s)"
  by (auto simp: counters_ok_def count_effects_def apply_metrics_inv split: option.splits)

lemma effects_on_metrics: "sv_metrics (effects_on cfg E fx s) = map_option (apply_metrics fx) (sv_metrics s)"
proof (induction fx arbitrary: s)
  case Nil
  then show ?case by (simp add: effects_on_def apply_metrics_def option.map_id0 [unfolded id_def] option.map_ident)
next
  case (Cons e fx)
  have "sv_metrics (apply_effect cfg E e s) = map_option (apply_metric e) (sv_metrics s)"
    by (cases e; cases "sv_metrics s") simp_all
  then show ?case using Cons [of "apply_effect cfg E e s"]
    by (simp add: effects_on_def apply_metrics_def option.map_comp comp_def)
qed

interpretation count: request_contract D cfg E r counts for D cfg E r
proof
  fix rid h s i
  have upd: "counters_ok s \<Longrightarrow> counters_ok (s\<lparr>sv_queue := q, sv_limiter := l, sv_db := db, sv_enqueuer := enq\<rparr>)" for q l db enq
    by (simp add: counters_ok_def)
  show "counts rid h s (post_submission D cfg E r rid h s)"
    using effects_submissions(1) [of "hd_unicode D" "hd_url D" "hd_bodies D" "hd_codec D" "re_call E" "cf_Store cfg" rid h r "sv_db s"]
    unfolding counts_def post_outcome
    by (auto simp: Let_def intro!: counters_ok_count_effects simp: counters_ok_def [of "_\<lparr>sv_queue := _\<rparr>"]
        counters_ok_def [of "_\<lparr>sv_limiter := _\<rparr>"] counters_ok_def [of "_\<lparr>sv_db := _\<rparr>"] counters_ok_def [of s] split: prod.split)
  show "counts rid h s (serve_approve D E i r rid h s)"
    using effects_submissions(3) [of "hd_errtext D" "hd_bodies D" "hd_codec D" "re_call E" i rid h r "sv_enqueuer s" "sv_db s"]
    by (auto simp: counts_def serve_approve_def Let_def intro!: counters_ok_count_effects simp: counters_ok_def [of s]
        counters_ok_def [of "_\<lparr>sv_enqueuer := _\<rparr>"] split: prod.split)
  show "counts rid h s (serve_reject D E i r rid h s)"
    using effects_submissions(4) [of "hd_bodies D" "hd_codec D" "re_call E" i rid h r "sv_db s"]
    by (auto simp: counts_def serve_reject_def Let_def intro!: counters_ok_count_effects simp: counters_ok_def [of s]
        counters_ok_def [of "_\<lparr>sv_db := _\<rparr>"] split: prod.split)
  fix resp fx
  show "effects_ok fx \<Longrightarrow> counts rid h s (Answer resp, effects_on cfg E fx s)"
    by (auto simp: counts_def counters_ok_def effects_on_metrics apply_metrics_inv split: option.splits)
qed (simp_all add: counts_def)

end
