(* ===== verification/Http_Properties.thy ===== *)
theory Http_Properties
  imports Http_Safety
begin

text \<open>
  Properties of the whole server, from the contracts of \<open>Http_Safety\<close> and the theorems of the store, the
  limiter and the counters.
\<close>

section \<open>The stack\<close>

definition request_id :: "request_env \<Rightarrow> http_request \<Rightarrow> string" where
  "request_id E r = (let inbound = hq_header r ''X-Request-ID'' in if validRequestID inbound then inbound else re_newid E)"

text \<open>The headers set before the routers run.\<close>

definition base_headers :: "http_config \<Rightarrow> request_env \<Rightarrow> http_request \<Rightarrow> headers" where
  "base_headers cfg E r =
     (let h = hset ''X-Request-ID'' (request_id E r)
            (hset ''X-Frame-Options'' ''DENY'' (hset ''X-Content-Type-Options'' ''nosniff'' []))
      in if cf_CORSOrigins cfg = [] then h else cors_headers (cf_CORSOrigins cfg) (hq_header r ''Origin'') h)"

definition preflight :: "http_config \<Rightarrow> http_request \<Rightarrow> bool" where
  "preflight cfg r \<longleftrightarrow> cf_CORSOrigins cfg \<noteq> [] \<and> hq_Method r = ''OPTIONS''"

lemma stack_eq:
  "stack D cfg E r next [] [] s =
     (if preflight cfg r then (Answer \<lparr>hs_status = 204, hs_header = base_headers cfg E r, hs_body = NoBody\<rparr>, s)
      else metricsMiddleware D r (recovererMiddleware r next) (request_id E r) (base_headers cfg E r) s)"
proof -
  have "stack D cfg E r next [] [] s =
      (if cf_CORSOrigins cfg = [] then (\<lambda>x. x) else corsMiddleware (cf_CORSOrigins cfg) r)
        (metricsMiddleware D r (recovererMiddleware r next)) (request_id E r)
        (hset ''X-Request-ID'' (request_id E r) (hset ''X-Frame-Options'' ''DENY'' (hset ''X-Content-Type-Options'' ''nosniff'' []))) s"
    unfolding stack_def securityHeadersMiddleware_def requestIDMiddleware_def Let_def request_id_def ..
  then show ?thesis
    by (cases "cf_CORSOrigins cfg = []"; cases "hq_Method r = ''OPTIONS''")
      (simp_all add: preflight_def corsMiddleware_def base_headers_def Let_def)
qed

text \<open>A panic in any handler is answered with the 500 problem document and counted.\<close>

lemma panic_recovered:
  assumes "\<not> preflight cfg r" "next (request_id E r) (base_headers cfg E r) s = (Panic h', s')"
  shows "stack D cfg E r next [] [] s =
    (Answer (writeInternalProblem h' r (request_id E r)),
     s'\<lparr>sv_metrics := map_option (count_request (hd_pattern D r) (hq_Method r) 500) (sv_metrics s')\<rparr>)"
  using assms by (simp add: stack_eq metricsMiddleware_def recovererMiddleware_def)

lemma handle_inner:
  assumes "\<not> preflight cfg r"
  obtains resp s1 where "rootRouter D cfg E r (request_id E r) (base_headers cfg E r) s = (Answer resp, s1)"
    "handle D cfg E r s = (Answer resp,
       s1\<lparr>sv_metrics := map_option (count_request (hd_pattern D r) (hq_Method r) (hs_status resp)) (sv_metrics s1)\<rparr>)"
    "good_response r (request_id E r) (base_headers cfg E r) resp"
proof -
  obtain out s1 where root: "rootRouter D cfg E r (request_id E r) (base_headers cfg E r) s = (out, s1)" by fastforce
  with form.root [of r "request_id E r" "base_headers cfg E r" s D cfg E]
  obtain resp where "out = Answer resp" "good_response r (request_id E r) (base_headers cfg E r) resp"
    by (auto simp: answers_def)
  with root that show thesis
    by (simp add: handle_def stack_eq assms metricsMiddleware_def recovererMiddleware_def)
qed

lemma handle_preflight:
  "preflight cfg r \<Longrightarrow> handle D cfg E r s = (Answer \<lparr>hs_status = 204, hs_header = base_headers cfg E r, hs_body = NoBody\<rparr>, s)"
  by (simp add: handle_def stack_eq)

text \<open>Every request is answered, and a header that the routers leave alone has its value from the stack.\<close>

lemma handle_answers:
  obtains resp where "fst (handle D cfg E r s) = Answer resp" "response_ok r (request_id E r) resp"
    "\<And>k. k \<notin> handler_headers \<Longrightarrow>
       mget_list (hs_header resp) k = mget_list (base_headers cfg E r) k"
proof (cases "preflight cfg r")
  case True
  then show thesis using that handle_preflight [OF True, of D E s] by (simp add: response_ok_def)
next
  case False
  obtain resp s1 where a: "fst (handle D cfg E r s) = Answer resp" "good_response r (request_id E r) (base_headers cfg E r) resp"
    by (rule handle_inner [OF False, of D E s]) auto
  from a(2) show thesis by (intro that [OF a(1)]) (simp_all add: good_response_def keeps_headers_def)
qed

definition cors_names :: "string set" where
  "cors_names = {''Vary'', ''Access-Control-Allow-Origin'', ''Access-Control-Allow-Methods'', ''Access-Control-Allow-Headers'',
     ''Access-Control-Max-Age'', ''Access-Control-Expose-Headers''}"

lemma cors_other:
  assumes "k \<notin> cors_names"
  shows "mget_list (cors_headers allowed origin h) k = mget_list h k"
proof -
  have ne: "(''Vary'' = k) = False" "(''Access-Control-Allow-Origin'' = k) = False" "(''Access-Control-Allow-Methods'' = k) = False"
    "(''Access-Control-Allow-Headers'' = k) = False" "(''Access-Control-Max-Age'' = k) = False"
    "(''Access-Control-Expose-Headers'' = k) = False"
    using assms by (auto simp: cors_names_def)
  show ?thesis
  proof (cases "origin = [] \<or> \<not> cors_allow allowed origin")
    case True
    then show ?thesis unfolding cors_headers_def Let_def by (elim disjE) (simp_all only: if_True if_False mget_list_hadd ne simp_thms if_cancel split: if_split)
  next
    case False
    then have "cors_headers allowed origin h = hset ''Access-Control-Expose-Headers'' ''X-Request-ID, Retry-After, X-Next-Cursor''
        (hset ''Access-Control-Max-Age'' ''86400''
          (hset ''Access-Control-Allow-Headers'' ''Authorization, Content-Type, X-Atlas-Client, X-Request-ID''
            (hset ''Access-Control-Allow-Methods'' ''GET, HEAD, POST, OPTIONS''
              (hset ''Access-Control-Allow-Origin'' origin (hadd ''Vary'' ''Origin'' h)))))"
      by (simp add: cors_headers_def Let_def)
    then show ?thesis by (simp only: mget_list_hset mget_list_hadd ne if_False)
  qed
qed

lemma header_names:
  "''X-Request-ID'' \<notin> handler_headers" "''X-Frame-Options'' \<notin> handler_headers" "''X-Content-Type-Options'' \<notin> handler_headers"
  "''X-Request-ID'' \<notin> cors_names" "''X-Frame-Options'' \<notin> cors_names" "''X-Content-Type-Options'' \<notin> cors_names"
  "''Access-Control-Allow-Origin'' \<notin> handler_headers" "''Vary'' \<notin> handler_headers"
  by (simp_all add: handler_headers_def cors_names_def)

lemma base_header:
  "mget_list (base_headers cfg E r) ''X-Request-ID'' = [request_id E r]"
  "mget_list (base_headers cfg E r) ''X-Frame-Options'' = [''DENY'']"
  "mget_list (base_headers cfg E r) ''X-Content-Type-Options'' = [''nosniff'']"
  by (simp_all add: base_headers_def Let_def cors_other header_names)

section \<open>Properties\<close>


text \<open>An origin the allowlist admits: an exact entry, or an https origin that ends as a \<open>*.\<close> entry says.\<close>

definition admitted_origin :: "string list \<Rightarrow> string \<Rightarrow> bool" where
  "admitted_origin allowed origin \<longleftrightarrow>
     (\<exists>a\<in>set allowed. if has_prefix a ''*.'' then has_prefix origin ''https://'' \<and> has_suffix origin (CHR ''.'' # drop 2 a)
        else origin = a)"

lemma cors_allow_iff: "cors_allow allowed origin \<longleftrightarrow> admitted_origin allowed origin"
proof -
  have "drop 1 a = CHR ''.'' # drop 2 a" if "has_prefix a ''*.''" for a
    using that by (cases a; cases "tl a") auto
  then show ?thesis
    by (auto simp: cors_allow_def admitted_origin_def Let_def list_ex_iff split: if_splits)
qed

text \<open>
  C10. The answer names a requesting origin as allowed exactly when the configured list admits it: an exact
  entry, or an https origin under a wildcard entry, never an http one. Whatever the origin, an answer to a
  request that names one says that it varies with it; without an origin neither header appears.
\<close>

theorem cors_only_admitted:
  "\<exists>resp. fst (handle D cfg E r s) = Answer resp \<and>
    mget_list (hs_header resp) ''Access-Control-Allow-Origin'' =
      (if hq_header r ''Origin'' \<noteq> [] \<and> admitted_origin (cf_CORSOrigins cfg) (hq_header r ''Origin'')
       then [hq_header r ''Origin''] else []) \<and>
    mget_list (hs_header resp) ''Vary'' =
      (if hq_header r ''Origin'' \<noteq> [] \<and> cf_CORSOrigins cfg \<noteq> [] then [''Origin''] else [])"
proof -
  let ?o = "hq_header r ''Origin''"
  obtain resp where resp: "fst (handle D cfg E r s) = Answer resp"
    "mget_list (hs_header resp) ''Access-Control-Allow-Origin'' = mget_list (base_headers cfg E r) ''Access-Control-Allow-Origin''"
    "mget_list (hs_header resp) ''Vary'' = mget_list (base_headers cfg E r) ''Vary''"
    by (rule handle_answers [of D cfg E r s]) (simp add: header_names)
  have none: "\<not> admitted_origin [] ?o" by (simp add: admitted_origin_def)
  have nil: "mget_list [] k = []" for k :: string by (simp add: mget_list_def mget_def)
  have "mget_list (base_headers cfg E r) ''Access-Control-Allow-Origin'' =
      (if ?o \<noteq> [] \<and> admitted_origin (cf_CORSOrigins cfg) ?o then [?o] else [])"
    and "mget_list (base_headers cfg E r) ''Vary'' = (if ?o \<noteq> [] \<and> cf_CORSOrigins cfg \<noteq> [] then [''Origin''] else [])"
    using none nil by (auto simp: base_headers_def Let_def cors_headers_def cors_allow_iff)
  with resp show ?thesis by simp
qed

section \<open>Who may change what\<close>

lemma handle_state:
  obtains s1 where "rootRouter D cfg E r (request_id E r) (base_headers cfg E r) s = (fst (handle D cfg E r s), s1)"
    "untouched s1 (snd (handle D cfg E r s))" | "preflight cfg r" "snd (handle D cfg E r s) = s"
proof (cases "preflight cfg r")
  case True
  then show thesis using that(2) handle_preflight [OF True, of D E s] by simp
next
  case False
  show thesis
  proof (rule handle_inner [OF False, of D E s])
    fix resp s1
    assume "rootRouter D cfg E r (request_id E r) (base_headers cfg E r) s = (Answer resp, s1)"
      "handle D cfg E r s = (Answer resp,
         s1\<lparr>sv_metrics := map_option (count_request (hd_pattern D r) (hq_Method r) (hs_status resp)) (sv_metrics s1)\<rparr>)"
    then show thesis using that(1) [of s1] by (simp add: untouched_def)
  qed
qed

lemma handle_guarded: "\<exists>rid h. changes_guarded D cfg E r rid h s (handle D cfg E r s)"
proof (rule handle_state [of D cfg E r s])
  fix s1
  assume root: "rootRouter D cfg E r (request_id E r) (base_headers cfg E r) s = (fst (handle D cfg E r s), s1)"
    and same: "untouched s1 (snd (handle D cfg E r s))"
  from guard.root [of D cfg E r "request_id E r" "base_headers cfg E r" s]
  have "changes_guarded D cfg E r (request_id E r) (base_headers cfg E r) s (handle D cfg E r s)"
    unfolding root using same by (auto simp: changes_guarded_def untouched_def)
  then show ?thesis by blast
qed (auto simp: changes_guarded_def untouched_def)

text \<open>Nothing but pending submissions is added, one at most.\<close>

definition at_most_one_added :: "sub_map \<Rightarrow> sub_map \<Rightarrow> bool" where
  "at_most_one_added m m' \<longleftrightarrow> m' = m \<or> (\<exists>pid x. m pid = None \<and> sub_Status x = SubmissionPending \<and> m' = m(pid \<mapsto> x))"

lemma create_handler_adds:
  assumes "db_inv J db" "\<And>inp. submitted_input U P B st r = Some inp \<Longrightarrow> env_ok J E (OpCreate inp)"
  shows "at_most_one_added (sub_abs J db) (sub_abs J (snd (createSubmissionHandler U P B J E st rid h r db)))"
proof -
  obtain resp fx db' where ex: "createSubmissionHandler U P B J E st rid h r db = ((resp, fx), db')" by (metis prod.exhaust)
  have pending: "sub_Status (created pid now inp) = SubmissionPending" for pid now inp by (simp add: created_def)
  have "db' = db \<or> (\<exists>pid inp. sub_abs J db pid = None \<and> sub_abs J db' = (sub_abs J db)(pid \<mapsto> created pid (ce_now E) inp))"
    using create_outcomes [OF assms(1,2) ex] by (cases "submitted_input U P B st r") (auto split: if_splits)
  with pending show ?thesis unfolding ex snd_conv at_most_one_added_def by blast
qed

text \<open>
  C4. Only a moderator changes a submission. A request with a method other than POST leaves the queue, the
  limiter, the worker and the tables as they are; a request whose bearer token does not have the digest of
  the admin token, or any request while no admin token is set, never touches a stored submission or the
  worker: it adds at most one submission, and that one is pending. (Assumed: chi finds an endpoint only
  for its method.)
\<close>

theorem only_moderators_change_submissions:
  assumes "chi_ok D" "db_inv (hd_codec D) (sv_db s)"
    and "\<And>inp. submitted_input (hd_unicode D) (hd_url D) (hd_bodies D) (cf_Store cfg) r = Some inp \<Longrightarrow>
      env_ok (hd_codec D) (re_call E) (OpCreate inp)"
    and "handle D cfg E r s = (out, s')"
  shows "(hq_Method r \<noteq> ''POST'' \<longrightarrow> untouched s s') \<and>
    (\<not> authorized D cfg r \<longrightarrow>
      sv_enqueuer s' = sv_enqueuer s \<and> at_most_one_added (sub_abs (hd_codec D) (sv_db s)) (sub_abs (hd_codec D) (sv_db s')))"
proof -
  obtain rid h where g: "changes_guarded D cfg E r rid h s (out, s')" using handle_guarded [of D cfg E r s] assms(4) by auto
  have "at_most_one_added m m" for m by (simp add: at_most_one_added_def)
  then show ?thesis
    using g assms(1) create_handler_adds [OF assms(2,3)] by (auto simp: changes_guarded_def untouched_def)
qed

section \<open>Sequences of requests\<close>

text \<open>
  Requests in the order they are served, each with what it sees of its surroundings. \<open>created_log\<close> keeps the
  time and the limiter's key of those answered with 201.
\<close>

fun handle_all :: "http_deps \<Rightarrow> http_config \<Rightarrow> (request_env \<times> http_request) list \<Rightarrow> server \<Rightarrow> outcome list \<times> server" where
  "handle_all D cfg [] s = ([], s)"
| "handle_all D cfg ((E, r) # reqs) s =
     (let (out, s1) = handle D cfg E r s; (outs, s2) = handle_all D cfg reqs s1 in (out # outs, s2))"

definition request_key :: "http_deps \<Rightarrow> http_request \<Rightarrow> string" where
  "request_key D r = rateLimitKey (hd_netip D) (clientIP (hq_header r ''Fly-Client-IP'') (hq_RemoteAddr r))"

definition created_log :: "http_deps \<Rightarrow> http_config \<Rightarrow> (request_env \<times> http_request) list \<Rightarrow> server \<Rightarrow> (instant \<times> string) list" where
  "created_log D cfg reqs s =
     map (\<lambda>((E, r), out). (ce_now (re_call E), request_key D r))
       (filter (\<lambda>(x, out). creates out) (zip reqs (fst (handle_all D cfg reqs s))))"

lemma handle_limited: "\<exists>rid h. limited D E r rid h s (handle D cfg E r s)"
proof (cases "preflight cfg r")
  case True
  then show ?thesis using handle_preflight [OF True, of D E s] by (simp add: limited_def creates_def)
next
  case False
  show ?thesis
  proof (rule handle_state [of D cfg E r s])
    fix s1
    assume root: "rootRouter D cfg E r (request_id E r) (base_headers cfg E r) s = (fst (handle D cfg E r s), s1)"
      and same: "untouched s1 (snd (handle D cfg E r s))"
    from limit.root [of D E r "request_id E r" "base_headers cfg E r" s cfg] same
    show ?thesis unfolding root by (auto simp: limited_def untouched_def)
  qed (use False in auto)
qed

lemma window_subseq:
  "subseq xs ys \<Longrightarrow> window_count w a key xs \<le> window_count w a key ys"
  "subseq xs ys \<Longrightarrow> window_total w a xs \<le> window_total w a ys"
  unfolding window_count_def window_total_def by (rule list_emb_length, erule subseq_filter)+

lemma created_log_Cons:
  "handle D cfg E r s = (out, s1) \<Longrightarrow> created_log D cfg ((E, r) # reqs) s =
     (if creates out then [(ce_now (re_call E), request_key D r)] else []) @ created_log D cfg reqs s1"
  by (simp add: created_log_def Let_def split: prod.split)

lemma created_log_limited:
  assumes "log_inv lg t0 (sv_limiter s)" "sorted (map (\<lambda>(E, r). ce_now (re_call E)) reqs)"
    "\<forall>(E, r)\<in>set reqs. t0 \<le> ce_now (re_call E)" "subseq made lg"
  shows "\<exists>log'. subseq (made @ created_log D cfg reqs s) log' \<and>
    (\<forall>a key. int (window_count (rl_window (sv_limiter s)) a key log') \<le> rl_maxPerWin (sv_limiter s)) \<and>
    (\<forall>a. int (window_total (rl_window (sv_limiter s)) a log') \<le> rl_globalMax (sv_limiter s))"
  using assms
proof (induction reqs arbitrary: lg t0 s made)
  case Nil
  then show ?case by (intro exI [of _ lg]) (auto simp: created_log_def log_inv_def)
next
  case (Cons x reqs)
  obtain E r where x: "x = (E, r)" by fastforce
  let ?now = "ce_now (re_call E)"
  obtain out s1 where h: "handle D cfg E r s = (out, s1)" by fastforce
  have now: "t0 \<le> ?now" "sorted (map (\<lambda>(E, r). ce_now (re_call E)) reqs)" "\<forall>(E, r)\<in>set reqs. ?now \<le> ce_now (re_call E)"
    using Cons.prems(2,3) x by auto
  from handle_limited [of D E r s cfg] h consider
    (same) "sv_limiter s1 = sv_limiter s" "\<not> creates out"
  | (asked) ok retry where "allow (hd_netip D) (clientIP (hq_header r ''Fly-Client-IP'') (hq_RemoteAddr r)) ?now (sv_limiter s) =
      ((ok, retry), sv_limiter s1)" "creates out \<longrightarrow> ok"
    by (auto simp: limited_def)
  then show ?case
  proof cases
    case same
    have "log_inv lg ?now (sv_limiter s1)"
      using Cons.prems(1) now(1) unfolding same(1) log_inv_def by force
    from Cons.IH [OF this now(2,3) Cons.prems(4)] same h x show ?thesis by (simp add: created_log_Cons)
  next
    case asked
    then have step: "allow_key (request_key D r) ?now (sv_limiter s) = ((ok, retry), sv_limiter s1)"
      by (simp add: allow_def request_key_def)
    have wf: "wf_map (rl_hits (sv_limiter s))" using Cons.prems(1) by (simp add: log_inv_def)
    let ?lg = "if ok then lg @ [(?now, request_key D r)] else lg"
    let ?made = "made @ (if creates out then [(?now, request_key D r)] else [])"
    have "subseq ?made ?lg"
      using Cons.prems(4) asked(2) by (auto intro: list_emb_append_mono subseq_append' subseq_rev_drop_many)
    from Cons.IH [OF log_inv_step [OF Cons.prems(1) now(1) step] now(2,3) this] allow_key_cases(3-5) [OF wf step] h x
    show ?thesis by (simp add: created_log_Cons)
  qed
qed

text \<open>
  C5. However many requests the server gets, of whatever kind and in whatever order, it creates a bounded
  number of submissions: with the limiter it starts with, no window of an hour holds more than 30
  requests answered with 201, or more from one client address (one IPv6 /64) than the configured rate.
\<close>

theorem submissions_per_window:
  assumes "sorted (map (\<lambda>(E, r). ce_now (re_call E)) reqs)" "sv_limiter s = newIPRateLimiter rate rateLimitWindow"
  shows "int (window_total rateLimitWindow a (created_log D cfg reqs s)) \<le> 30 \<and>
    int (window_count rateLimitWindow a key (created_log D cfg reqs s)) \<le> (if rate \<le> 0 then 5 else rate)"
proof -
  obtain t0 where t0: "\<forall>(E, r)\<in>set reqs. t0 \<le> ce_now (re_call E)"
    using assms(1) that [of 0] that [of "ce_now (re_call (fst (hd reqs)))"] by (cases reqs) (auto simp: split_beta)
  have l: "rl_window (sv_limiter s) = rateLimitWindow" "rl_globalMax (sv_limiter s) = 30"
    "rl_maxPerWin (sv_limiter s) = (if rate \<le> 0 then 5 else rate)"
    unfolding assms(2) by (simp_all add: newIPRateLimiter_def submissionsGlobalPerWindow_def)
  from created_log_limited [OF log_inv_new [of t0 rate rateLimitWindow, folded assms(2)] assms(1) t0, of "[]" D cfg]
  obtain log' where log': "subseq (created_log D cfg reqs s) log'"
    "\<And>a key. int (window_count rateLimitWindow a key log') \<le> (if rate \<le> 0 then 5 else rate)"
    "\<And>a. int (window_total rateLimitWindow a log') \<le> 30"
    unfolding l by auto
  show ?thesis
    using log'(2) [of a key] log'(3) [of a] window_subseq [OF log'(1), of rateLimitWindow a] by (meson of_nat_mono order_trans)
qed

section \<open>The counters of a server\<close>

lemma handle_counters: "counters_ok s \<Longrightarrow> counters_ok (snd (handle D cfg E r s))"
proof (cases "preflight cfg r")
  case True
  then show "counters_ok s \<Longrightarrow> ?thesis" using handle_preflight [OF True, of D E s] by simp
next
  case False
  assume ok: "counters_ok s"
  show ?thesis
  proof (rule handle_inner [OF False, of D E s])
    fix resp s1
    assume root: "rootRouter D cfg E r (request_id E r) (base_headers cfg E r) s = (Answer resp, s1)"
      and h: "handle D cfg E r s = (Answer resp,
         s1\<lparr>sv_metrics := map_option (count_request (hd_pattern D r) (hq_Method r) (hs_status resp)) (sv_metrics s1)\<rparr>)"
    have "counters_ok s1" using count.root [of "request_id E r" "base_headers cfg E r" s D cfg E r] ok root by (simp add: counts_def)
    then show ?thesis unfolding h by (auto simp: counters_ok_def count_request_inv split: option.splits)
  qed
qed

lemma handle_all_counters: "counters_ok s \<Longrightarrow> counters_ok (snd (handle_all D cfg reqs s))"
proof (induction reqs arbitrary: s)
  case (Cons x reqs)
  obtain E r where x: "x = (E, r)" by fastforce
  from Cons.IH [OF handle_counters [OF Cons.prems, of D cfg E r]] x show ?case by (simp add: Let_def split_beta)
qed simp

text \<open>
  C11. The counters stay small and true. After any sequence of requests every label of a product metric is
  one of a fixed, finite set, so no client can mint time series with what it sends, the request method
  included; and for each country the resolved lookups by tier add up to the lookups counted as hits.
\<close>

theorem counters_bounded_and_true:
  assumes "sv_metrics s = Some NewMetrics" "sv_metrics (snd (handle_all D cfg reqs s)) = Some m"
  shows "(counter m name ls > 0 \<longrightarrow> labels_ok name ls) \<and>
    sum_list (map (\<lambda>tier. counter m ''lookup_results_total'' [c, tier]) tier_labels) = counter m ''lookup_total'' [c, ''hit'']"
  using handle_all_counters [of s D cfg reqs] assms by (simp add: counters_ok_def metrics_inv_new metrics_inv_def)

section \<open>Instances\<close>

text \<open>A chi that matches a pattern literally and a mount by its prefix, over the demonstration parameters.\<close>

definition demo_chi :: "route_entry list \<Rightarrow> string \<Rightarrow> string \<Rightarrow> found_route" where
  "demo_chi es m path =
     (case find (\<lambda>e. case e of Endpoint m' pat \<Rightarrow> m' = m \<and> pat = path | MountAt p \<Rightarrow> has_prefix path p) es of
        None \<Rightarrow> NoRoute
      | Some (MountAt p) \<Rightarrow> FoundRoute (MountAt p) (\<lambda>_. []) (drop (length p) path)
      | Some (Endpoint m' pat) \<Rightarrow> FoundRoute (Endpoint m' pat) (\<lambda>_. ''a'') [])"

definition demo_deps :: http_deps where
  "demo_deps = \<lparr>hd_unicode = gh_unicode demo_github, hd_url = demo_parser, hd_bodies = demo_bodies, hd_codec = demo_codec,
     hd_errtext = (\<lambda>_. ''off''), hd_netip = demo_netip, hd_sha256 = (\<lambda>x. x), hd_chi = demo_chi, hd_pattern = hq_Path,
     hd_ranges = (\<lambda>m. m)\<rparr>"

definition demo_request_env :: "instant \<Rightarrow> request_env" where
  "demo_request_env now = \<lparr>re_call = demo_env now ''b'', re_newid = ''f00d'', re_ping = None, re_sample = 0\<rparr>"

definition demo_config :: "store_ops \<Rightarrow> http_config" where
  "demo_config st = \<lparr>cf_Store = st, cf_CORSOrigins = [''*.x.org''], cf_APIVersion = [], cf_ClientSecret = [], cf_Submissions = True,
     cf_AdminToken = ''t0ken'', cf_RatePerHour = 0, cf_CoverageGaps = False, cf_UsageCounts = False, cf_sampleRate = 0\<rparr>"

definition demo_server :: "store_ops \<Rightarrow> server" where
  "demo_server st = new_server (demo_config st) demo_db None None [] None \<lparr>gd_rows = [], gd_seq = 0\<rparr> (Some NewMetrics)"

definition demo_approval :: http_request where
  "demo_approval = \<lparr>hq_Method = ''POST'', hq_Path = ''/api/v1/admin/submissions/{id}/approve'', hq_query = (\<lambda>_. []),
     hq_header = (\<lambda>_. []), hq_RemoteAddr = ''1.2.3.4:80'', hq_body = []\<rparr>"

lemma demo_chi_ok: "chi_ok demo_deps"
proof -
  have "m' = m" if "demo_chi es m path = FoundRoute (Endpoint m' pat) ps rest" for es m path m' pat ps rest
  proof -
    have found: "find Q xs = Some x \<Longrightarrow> Q x" for Q and x :: route_entry and xs
      by (induction xs) (auto split: if_splits)
    show ?thesis using that by (auto simp: demo_chi_def dest: found split: option.splits route_entry.splits)
  qed
  then show ?thesis unfolding chi_ok_def demo_deps_def by simp
qed


text \<open>An approval without a token leaves the pending submission of \<open>demo_db\<close> as it is.\<close>

theorem only_moderators_change_submissions_witness:
  "\<forall>st. at_most_one_added (sub_abs demo_codec demo_db)
     (sub_abs demo_codec (sv_db (snd (handle demo_deps (demo_config st) (demo_request_env 0) demo_approval (demo_server st)))))"
proof
  fix st
  obtain out s' where h: "handle demo_deps (demo_config st) (demo_request_env 0) demo_approval (demo_server st) = (out, s')" by fastforce
  have sel: "hd_codec demo_deps = demo_codec" "sv_db (demo_server st) = demo_db"
    by (simp_all add: demo_deps_def demo_server_def new_server_def)
  have inv: "db_inv (hd_codec demo_deps) (sv_db (demo_server st))" using demo_db(1) by (simp add: sel)
  have none: "submitted_input (hd_unicode demo_deps) (hd_url demo_deps) (hd_bodies demo_deps) (cf_Store (demo_config st)) demo_approval = None"
    by (simp add: submitted_input_def demo_deps_def demo_bodies_def demo_approval_def decodeOneJSONObject_def)
  have env: "env_ok (hd_codec demo_deps) (re_call (demo_request_env 0)) (OpCreate inp)"
    if "submitted_input (hd_unicode demo_deps) (hd_url demo_deps) (hd_bodies demo_deps) (cf_Store (demo_config st)) demo_approval = Some inp" for inp
    using that none by simp
  have noauth: "\<not> authorized demo_deps (demo_config st) demo_approval"
    by (simp add: authorized_def demo_deps_def demo_approval_def extractBearerToken_def demo_config_def)
  from only_moderators_change_submissions [OF demo_chi_ok inv env h] noauth
  show "at_most_one_added (sub_abs demo_codec demo_db)
     (sub_abs demo_codec (sv_db (snd (handle demo_deps (demo_config st) (demo_request_env 0) demo_approval (demo_server st)))))"
    unfolding h sel snd_conv by blast
qed

theorem submissions_per_window_witness:
  "\<forall>st. window_total rateLimitWindow 0 (created_log demo_deps (demo_config st)
     [(demo_request_env 1, demo_approval), (demo_request_env 2, demo_approval)] (demo_server st)) \<le> 30"
proof
  fix st
  have s: "sorted (map (\<lambda>(E, r). ce_now (re_call E)) [(demo_request_env 1, demo_approval), (demo_request_env 2, demo_approval)])"
    by (simp add: demo_request_env_def demo_env_def)
  have "sv_limiter (demo_server st) = newIPRateLimiter 0 rateLimitWindow"
    by (simp add: demo_server_def new_server_def demo_config_def)
  from submissions_per_window [OF s this, of 0 demo_deps "demo_config st"]
  show "window_total rateLimitWindow 0 (created_log demo_deps (demo_config st)
     [(demo_request_env 1, demo_approval), (demo_request_env 2, demo_approval)] (demo_server st)) \<le> 30" by simp
qed

text \<open>A probe is counted under its route, method and status.\<close>

definition demo_probe :: http_request where
  "demo_probe = demo_approval\<lparr>hq_Method := ''GET'', hq_Path := ''/healthz''\<rparr>"

lemma demo_probe_handled:
  "sv_metrics (snd (handle demo_deps (demo_config st) (demo_request_env 0) demo_probe (demo_server st))) =
     Some (count_request ''/healthz'' ''GET'' 200 NewMetrics)"
proof -
  have "preflight (demo_config st) demo_probe = False" by (simp add: preflight_def demo_probe_def)
  moreover have "rootRouter demo_deps (demo_config st) (demo_request_env 0) demo_probe rid h s =
      (Answer (plainText h (newline_text ''ok'')), s)" for rid h s
    by (simp add: rootRouter_def routed_def rootEntries_def getHead_def demo_deps_def demo_chi_def demo_probe_def
        serve_read_def healthHandler_def)
  ultimately show ?thesis
    by (simp add: handle_def stack_eq metricsMiddleware_def recovererMiddleware_def demo_server_def new_server_def
        demo_deps_def demo_probe_def plainText_def)
qed

theorem counters_bounded_and_true_witness:
  "\<forall>st. \<exists>m. sv_metrics (snd (handle_all demo_deps (demo_config st) [(demo_request_env 0, demo_probe)] (demo_server st))) = Some m \<and>
     counter m ''http_requests_total'' [''/healthz'', ''GET'', ''200''] = 1 \<and>
     labels_ok ''http_requests_total'' [''/healthz'', ''GET'', ''200''] \<and>
     sum_list (map (\<lambda>tier. counter m ''lookup_results_total'' [''US'', tier]) tier_labels) = counter m ''lookup_total'' [''US'', ''hit'']"
proof
  fix st
  let ?m = "count_request ''/healthz'' ''GET'' 200 NewMetrics"
  have new: "sv_metrics (demo_server st) = Some NewMetrics" by (simp add: demo_server_def new_server_def)
  have m: "sv_metrics (snd (handle_all demo_deps (demo_config st) [(demo_request_env 0, demo_probe)] (demo_server st))) = Some ?m"
    by (simp add: demo_probe_handled Let_def split_beta)
  have one: "counter ?m ''http_requests_total'' [''/healthz'', ''GET'', ''200''] = 1"
  proof -
    have "itoa 200 = ''200''" by code_simp
    then show ?thesis by (simp add: count_request_def metricMethod_def)
  qed
  from counters_bounded_and_true [OF new m] one m
  show "\<exists>m. sv_metrics (snd (handle_all demo_deps (demo_config st) [(demo_request_env 0, demo_probe)] (demo_server st))) = Some m \<and>
     counter m ''http_requests_total'' [''/healthz'', ''GET'', ''200''] = 1 \<and>
     labels_ok ''http_requests_total'' [''/healthz'', ''GET'', ''200''] \<and>
     sum_list (map (\<lambda>tier. counter m ''lookup_results_total'' [''US'', tier]) tier_labels) = counter m ''lookup_total'' [''US'', ''hit'']"
    by (metis less_numeral_extra(1))
qed

end
