(* ===== verification/Spec2Isabelle.thy ===== *)
theory Spec2Isabelle
  imports Dev_Fixtures Seed_Files Http_Properties
begin

text \<open>
  Verification of the Urbanist Atlas API (\<open>src/api\<close>, Go): a directory of urbanist organizations that answers
  "who works where I live" for a postal code, lets the public submit organizations, and turns approved
  submissions into pull requests on the seed data.

  \<^bold>\<open>The program.\<close> At boot the seed loader (\<open>internal/seedfiles\<close>) parses regions, organizations and postal codes
  into an in-memory \<open>MemStore\<close> (\<open>pkg/atlas/memstore.go\<close>), which never changes afterwards. The server
  (\<open>internal/httpapi\<close>) answers reads from it through the \<open>Store\<close> interface and the orchestrators \<open>Lookup\<close> and
  \<open>GetRegion\<close>. Submissions are validated (\<open>pkg/atlas/submission_validate.go\<close>) and stored in SQLite
  (\<open>internal/store/sqlite\<close>); a moderator approves or rejects them; an approved one is handed to a worker
  (\<open>internal/githubpr\<close>) that opens a pull request and records the outcome on the row. Rate limits and a
  bound on the moderation queue guard the public endpoint. Usage counts (\<open>internal/usage\<close>) and samples of
  empty results (\<open>internal/coverage\<close>) are recorded on the side.

  \<^bold>\<open>Theories and what they model.\<close>
  \<^item> \<open>Atlas_Prelude\<close>: Go's errors, maps and \<open>sort\<close>; the locales of orders and of step relations.
  \<^item> \<open>Go_Strings\<close>, \<open>Go_Time\<close>, \<open>Go_Base64\<close>: the parts of the standard library in use. A Go string is a list
    of bytes; runes are decoded from it as Go does, invalid UTF-8 included. A \<open>time.Time\<close> is its distance in
    nanoseconds from an epoch, with Go's civil dates and layouts.
  \<^item> \<open>Atlas_Types\<close>, \<open>Postal\<close>: the structs and kind sets of \<open>pkg/atlas\<close>; \<open>postal.go\<close>.
  \<^item> \<open>Region_Graph\<close>, \<open>Mem_Store\<close>, \<open>Mem_Reads\<close>, \<open>Region_Search\<close>, \<open>Region_Scope\<close>: the record \<open>memstore\<close>, its
    breadth-first walks (\<open>graph.go\<close>), the operations that populate it, every read, search and the bucketing
    by scope. \<open>store_inv\<close> is the invariant every populating operation keeps.
  \<^item> \<open>Lookup\<close>: the interface \<open>Store\<close> as the record \<open>store_ops\<close>, its contract \<open>atlas_store\<close>, interpreted on
    \<open>MemStore\<close>; \<open>lookup.go\<close> and \<open>region.go\<close>.
  \<^item> \<open>Cycle_Detect\<close>, \<open>Seed_Files\<close>, \<open>Dev_Fixtures\<close>: \<open>internal/seedfiles\<close> and \<open>devfixtures.go\<close>. The depth-first
    search keeps its call stack as data and ends by a measure on the unvisited nodes and open edges.
  \<^item> \<open>Submission\<close>, \<open>Submission_Store\<close>, \<open>Submission_Pages\<close>: submissions, their validation, the SQLite store over
    its generated queries and the table of the migration, the contract \<open>submission_queue\<close> with the
    specification \<open>spec_exec\<close> that the store refines, and keyset pagination. \<open>follow_pages\<close> follows
    cursors with as much fuel as there are rows plus one, which is enough since each page is shorter than
    what is left.
  \<^item> \<open>Rate_Limit\<close>: \<open>ratelimit.go\<close> and its constants.
  \<^item> \<open>Promotion\<close>, \<open>Promotion_Worker\<close>: \<open>githubpr/toml.go\<close> and \<open>worker.go\<close>. The pipeline is a function of a
    GitHub that answers arbitrarily; the retry loop runs at most \<open>retryMaxAttempts\<close> times by construction. The
    queue, \<open>Run\<close>, \<open>Stop\<close> and the callers of \<open>Enqueue\<close> interleave as a step relation; \<open>work_left\<close> bounds what
    \<open>Run\<close> still does once \<open>Stop\<close> has begun.
  \<^item> \<open>Usage\<close>, \<open>Coverage\<close>: the recorders and their tables; the contract \<open>count_store_contract\<close> between the
    recorder's \<open>Flush\<close> and the table, interpreted on the SQLite queries.
  \<^item> \<open>Http_Wire\<close>, \<open>Http\<close>, \<open>Http_Reads\<close>, \<open>Http_Submissions\<close>, \<open>Http_Metrics\<close>, \<open>Http_Router\<close>: the wire types and
    adapters, problem documents and parameters, every handler, the metrics, and the server as the middleware
    stack over the routers. A handler is a function of the request id, the headers so far and the state.
  \<^item> \<open>Http_Safety\<close>, \<open>Http_Properties\<close>: the contract \<open>request_contract\<close>, which lifts a property of the
    endpoints through routers and middlewares, its four interpretations, and the properties of the server.

  \<^bold>\<open>What the lemmas show.\<close>
  \<^item> Reads: ancestors, descendants, browse lists, search and buckets hold exactly the regions and organizations
    they should, once, in order; \<open>Lookup\<close> and \<open>GetRegion\<close> compose them, over any store with the contract.
  \<^item> Seed: a build that succeeds is well formed, acyclic, and has no unreachable local leaf; the cycle
    search ends and is exact.
  \<^item> Submissions: validation reports exactly the offending fields and agrees with the seed loader; the store
    refines its specification under failures of the driver; a submission is decided once; following cursors
    lists everything once.
  \<^item> Limits: no window holds more than the budgets; \<open>Retry-After\<close> is honest; the queue check is exact.
  \<^item> Promotion: a bounded number of requests, each mutation at most once, nothing private, the outcome recorded,
    no job lost or repeated, and termination of \<open>Run\<close> after \<open>Stop\<close>.
  \<^item> Server: security headers and problem documents on every answer, moderation only with the token, bounded
    counters, no raw input in the usage counts.

  \<^bold>\<open>Conventions.\<close> A fallible function returns \<open>go_error + 'a\<close>; a stateful one also its new state. A Go map is an
  association list; where Go ranges over a map the order is an argument, quantified over in the theorems.
  Code outside the repository is a parameter: the Unicode tables above ASCII, \<open>net/url\<close>, \<open>net/netip\<close>,
  \<open>encoding/json\<close>, \<open>encoding/csv\<close>, TOML, UUIDs, SHA-256, the database driver's failures, the random
  sampler, GitHub, and chi's choice of a route; what is relied on of them are named hypotheses
  (\<open>env_ok\<close>, \<open>chi_ok\<close> and the like) with instances in the witnesses.

  \<^bold>\<open>Not modelled.\<close> The web client (\<open>src/web\<close>, TypeScript); process start-up, flags and signals
  (\<open>cmd/server\<close>), opening, migrating, pinging and closing the database, generated glue (\<open>gen/db.go\<close>, enums
  and parameters of the OpenAPI generator), logging and the access log, request deadlines, Prometheus
  exposition and durations: I/O or code of libraries with no logic of their own. Locks are left out where an
  operation is atomic under one; where goroutines interleave, the steps are the atomic sections.
\<close>

end
